(* ===== verification/Prelude.thy ===== *)
theory Prelude
  imports Main "HOL-Library.Word"
begin

text \<open>
  Shared vocabulary of the development: the machine integers of the C++ code, the ways an
  operation can fail, sequencing of fallible steps, raw memory copies with their bounds, and the
  network byte order used on the wire.
\<close>

unbundle bit_operations_syntax

section \<open>Machine integers\<close>

text \<open>
  \<open>uint8_t\<close>, \<open>uint16_t\<close>, \<open>uint32_t\<close>, \<open>uint64_t\<close> are words of that width. An \<open>int\<close> is a
  32-bit word that is read with \<open>sint\<close>.
\<close>

type_synonym u8 = "8 word"
type_synonym u16 = "16 word"
type_synonym u32 = "32 word"
type_synonym u64 = "64 word"
type_synonym i32 = "32 word"

section \<open>Faults and fallible steps\<close>

text \<open>
  Everything that stops the C++ program or leaves it without defined behaviour is a value:
  a failed \<open>assert\<close>, a call through or read of a null pointer, \<open>front()\<close> of an empty
  \<open>std::list\<close>, a copy past the end of a buffer, an exception that nobody catches, a
  floating value converted to an \<open>int\<close> that cannot hold it, the value of a function that ends
  without returning one, a call of \<open>exit\<close>. \<open>Would_block\<close>
  is the outcome of an operation that has to wait on a condition variable at that point, or in a loop
  that does not end. \<open>Not_modelled\<close> marks an outcome that the program defines and the model has no value for.
\<close>

datatype fault =
    Assertion_failure
  | Null_dereference
  | Empty_front
  | Out_of_bounds
  | Double_free
  | Uncaught_exception
  | Undefined_conversion
  | Missing_return
  | Process_exit
  | Would_block
  | Not_modelled

definition and_then :: "'e + 'a \<Rightarrow> ('a \<Rightarrow> 'e + 'b) \<Rightarrow> 'e + 'b" where
  "and_then m f = (case m of Inl e \<Rightarrow> Inl e | Inr x \<Rightarrow> f x)"

definition require :: "bool \<Rightarrow> 'e \<Rightarrow> 'e + unit" where
  "require b e = (if b then Inr () else Inl e)"

definition is_ok :: "'e + 'a \<Rightarrow> bool" where
  "is_ok m = (case m of Inl _ \<Rightarrow> False | Inr _ \<Rightarrow> True)"

lemma and_then_simps [simp]:
  "and_then (Inl e) f = Inl e"
  "and_then (Inr x) f = f x"
  by (simp_all add: and_then_def)

lemma and_then_eq_Inr: "and_then m f = Inr y \<longleftrightarrow> (\<exists>x. m = Inr x \<and> f x = Inr y)"
  by (cases m) auto

lemma and_then_eq_Inl: "and_then m f = Inl e \<longleftrightarrow> m = Inl e \<or> (\<exists>x. m = Inr x \<and> f x = Inl e)"
  by (cases m) auto

lemma require_eq [simp]:
  "require b e = Inr u \<longleftrightarrow> b"
  "require b e = Inl e' \<longleftrightarrow> \<not> b \<and> e' = e"
  "require True e = Inr ()"
  "require False e = Inl e"
  by (auto simp: require_def)

lemma is_ok_simps [simp]: "is_ok (Inl e) = False" "is_ok (Inr x) = True"
  by (simp_all add: is_ok_def)

lemma is_ok_iff: "is_ok m \<longleftrightarrow> (\<exists>x. m = Inr x)"
  by (cases m) auto

text \<open>A loop over a list whose body may fail stops at the first fault.\<close>

fun fold_ok :: "('a \<Rightarrow> 's \<Rightarrow> 'e + 's) \<Rightarrow> 'a list \<Rightarrow> 's \<Rightarrow> 'e + 's" where
  "fold_ok f [] s = Inr s"
| "fold_ok f (x # xs) s = and_then (f x s) (fold_ok f xs)"

lemma fold_ok_append: "fold_ok f (xs @ ys) s = and_then (fold_ok f xs s) (fold_ok f ys)"
  by (induction xs arbitrary: s) (auto simp: and_then_def split: sum.splits)

lemma fold_ok_invariant:
  assumes "\<And>x s s'. x \<in> set xs \<Longrightarrow> I s \<Longrightarrow> f x s = Inr s' \<Longrightarrow> I s'"
    and "I s" and "fold_ok f xs s = Inr s'"
  shows "I s'"
  using assms
proof (induction xs arbitrary: s)
  case (Cons x xs)
  then obtain t where "f x s = Inr t" "fold_ok f xs t = Inr s'"
    by (auto simp: and_then_eq_Inr)
  with Cons show ?case by (metis list.set_intros)
qed simp

section \<open>Raw memory\<close>

text \<open>
  \<open>read_mem\<close> and \<open>write_mem\<close> are \<open>memcpy\<close> out of and into a buffer at an offset: the access
  must lie inside the buffer, otherwise the behaviour is undefined.
\<close>

definition bytes_at :: "nat \<Rightarrow> nat \<Rightarrow> 'a list \<Rightarrow> 'a list" where
  "bytes_at off n xs = take n (drop off xs)"

definition put_bytes :: "nat \<Rightarrow> 'a list \<Rightarrow> 'a list \<Rightarrow> 'a list" where
  "put_bytes off src dst = take off dst @ src @ drop (off + length src) dst"

definition read_mem :: "nat \<Rightarrow> nat \<Rightarrow> u8 list \<Rightarrow> fault + u8 list" where
  "read_mem off n buf = (if off + n \<le> length buf then Inr (bytes_at off n buf) else Inl Out_of_bounds)"

definition write_mem :: "nat \<Rightarrow> u8 list \<Rightarrow> u8 list \<Rightarrow> fault + u8 list" where
  "write_mem off src dst =
     (if off + length src \<le> length dst then Inr (put_bytes off src dst) else Inl Out_of_bounds)"

lemma length_bytes_at [simp]: "off + n \<le> length xs \<Longrightarrow> length (bytes_at off n xs) = n"
  by (simp add: bytes_at_def)

lemma length_put_bytes [simp]: "off + length src \<le> length dst \<Longrightarrow> length (put_bytes off src dst) = length dst"
  by (simp add: put_bytes_def)

lemma bytes_at_put_same [simp]:
  "off + length src \<le> length dst \<Longrightarrow> n = length src \<Longrightarrow> bytes_at off n (put_bytes off src dst) = src"
  by (simp add: bytes_at_def put_bytes_def)

lemma nth_put_bytes:
  assumes "off + length src \<le> length dst" "i < length dst"
  shows "put_bytes off src dst ! i =
    (if off \<le> i \<and> i < off + length src then src ! (i - off) else dst ! i)"
  using assms by (auto simp: put_bytes_def nth_append)

lemma nth_bytes_at: "i < n \<Longrightarrow> off + n \<le> length xs \<Longrightarrow> bytes_at off n xs ! i = xs ! (off + i)"
  by (simp add: bytes_at_def)

lemma bytes_at_put_other:
  assumes "off + length src \<le> length dst" "o2 + n \<le> length dst"
    and "o2 + n \<le> off \<or> off + length src \<le> o2"
  shows "bytes_at o2 n (put_bytes off src dst) = bytes_at o2 n dst"
proof (rule nth_equalityI)
  show "length (bytes_at o2 n (put_bytes off src dst)) = length (bytes_at o2 n dst)"
    using assms by simp
next
  fix i assume "i < length (bytes_at o2 n (put_bytes off src dst))"
  with assms(1,2) have i: "i < n" by simp
  have "put_bytes off src dst ! (o2 + i) = dst ! (o2 + i)"
    using nth_put_bytes [OF assms(1), of "o2 + i"] assms(2,3) i by auto
  with assms(1,2) i show "bytes_at o2 n (put_bytes off src dst) ! i = bytes_at o2 n dst ! i"
    by (simp add: nth_bytes_at)
qed

lemma bytes_at_all: "n = length xs \<Longrightarrow> bytes_at 0 n xs = xs"
  by (simp add: bytes_at_def)

lemma read_mem_ok [simp]: "off + n \<le> length buf \<Longrightarrow> read_mem off n buf = Inr (bytes_at off n buf)"
  by (simp add: read_mem_def)

lemma write_mem_ok [simp]:
  "off + length src \<le> length dst \<Longrightarrow> write_mem off src dst = Inr (put_bytes off src dst)"
  by (simp add: write_mem_def)

section \<open>Network byte order\<close>

text \<open>
  \<open>net = htonl(x); memcpy(p, &net, 4)\<close> stores the bytes of \<open>x\<close> most significant first whatever
  the byte order of the host is; \<open>memcpy(&net, p, 4); x = ntohl(net)\<close> reads them back.
\<close>

definition be16 :: "u16 \<Rightarrow> u8 list" where
  "be16 w = [ucast (drop_bit 8 w), ucast w]"

definition be32 :: "u32 \<Rightarrow> u8 list" where
  "be32 w = [ucast (drop_bit 24 w), ucast (drop_bit 16 w), ucast (drop_bit 8 w), ucast w]"

definition of_be16 :: "u8 list \<Rightarrow> u16" where
  "of_be16 bs = push_bit 8 (ucast (bs ! 0)) OR ucast (bs ! 1)"

definition of_be32 :: "u8 list \<Rightarrow> u32" where
  "of_be32 bs = push_bit 24 (ucast (bs ! 0)) OR push_bit 16 (ucast (bs ! 1))
     OR push_bit 8 (ucast (bs ! 2)) OR ucast (bs ! 3)"

lemma length_be [simp]: "length (be16 h) = 2" "length (be32 w) = 4"
  by (simp_all add: be16_def be32_def)

lemma of_be16_be16 [simp]: "of_be16 (be16 w) = w"
  by (rule bit_word_eqI) (auto simp: of_be16_def be16_def bit_simps)

lemma of_be32_be32 [simp]: "of_be32 (be32 w) = w"
proof (rule bit_word_eqI)
  fix n assume "n < LENGTH(32)"
  then consider "n < 8" | "8 \<le> n" "n < 16" | "16 \<le> n" "n < 24" | "24 \<le> n" "n < 32"
    by fastforce
  then show "bit (of_be32 (be32 w)) n = bit w n"
    by cases (auto simp: of_be32_def be32_def bit_simps)
qed

section \<open>Collections of facts\<close>

named_theorems seg_simps \<open>unfolding rules of the segment path\<close>
named_theorems adapter_simps \<open>unfolding rules of the adapter state machines\<close>
named_theorems policy_simps \<open>unfolding rules of the selection policies\<close>

end
