(* ===== verification/Float32.thy ===== *)
theory Float32
  imports Prelude "HOL-Library.Log_Nat"
begin

text \<open>
  The \<open>float\<close> and \<open>double\<close> arithmetic of the code. A finite IEEE 754 value is the rational number
  it denotes; an operation computes the exact rational result and rounds it to the format, to
  nearest with ties to even, as the default rounding mode does. Infinities and NaN are not
  represented: every use in the development stays inside the finite range or says what happens
  where it would leave it.
\<close>

type_synonym f32 = rat
type_synonym f64 = rat

definition pow2 :: "int \<Rightarrow> rat" where
  "pow2 e = (if 0 \<le> e then 2 ^ nat e else 1 / 2 ^ nat (- e))"

text \<open>The exponent of a positive rational: the \<open>k\<close> with \<open>2 ^ k \<le> x < 2 ^ (k + 1)\<close>.\<close>

definition ilog2 :: "rat \<Rightarrow> int" where
  "ilog2 x = (case quotient_of x of (n, d) \<Rightarrow>
     let k = int (floorlog 2 (nat n)) - int (floorlog 2 (nat d))
     in if pow2 k \<le> x then k else k - 1)"

definition round_half_even :: "rat \<Rightarrow> int" where
  "round_half_even q =
     (let n = \<lfloor>q\<rfloor>; r = q - of_int n
      in if r < 1 / 2 then n else if 1 / 2 < r then n + 1 else if even n then n else n + 1)"

definition round_float :: "int \<Rightarrow> int \<Rightarrow> rat \<Rightarrow> rat" where
  "round_float prec emin x =
     (if x = 0 then 0
      else let u = pow2 (max (ilog2 \<bar>x\<bar>) emin - (prec - 1)) in of_int (round_half_even (x / u)) * u)"

definition fl32 :: "rat \<Rightarrow> f32" where
  "fl32 = round_float 24 (-126)"

definition fl64 :: "rat \<Rightarrow> f64" where
  "fl64 = round_float 53 (-1022)"

text \<open>The largest \<open>float\<close>.\<close>

definition FLT_MAX :: f32 where "FLT_MAX = (2 ^ 24 - 1) * 2 ^ 104"

text \<open>
  Conversion of a floating value to \<open>int\<close> drops the fraction; a value whose integer part does not
  fit is undefined behaviour.
\<close>

definition trunc_rat :: "rat \<Rightarrow> int" where
  "trunc_rat q = (if 0 \<le> q then \<lfloor>q\<rfloor> else \<lceil>q\<rceil>)"

definition float_to_int :: "rat \<Rightarrow> fault + i32" where
  "float_to_int q =
     (if - (2 ^ 31) \<le> trunc_rat q \<and> trunc_rat q < 2 ^ 31 then Inr (word_of_int (trunc_rat q))
      else Inl Undefined_conversion)"

section \<open>Facts about rounding\<close>

lemma pow2_pos [simp]: "0 < pow2 e"
  by (simp add: pow2_def)

lemma pow2_nonneg [simp]: "0 \<le> pow2 e"
  by (simp add: pow2_def)

lemma round_half_even_of_int [simp]: "round_half_even (of_int n) = n"
  by (simp add: round_half_even_def)

lemma round_half_even_near:
  "of_int (round_half_even q) - q \<le> 1 / 2" "q - of_int (round_half_even q) \<le> 1 / 2"
proof -
  have "of_int \<lfloor>q\<rfloor> \<le> q" "q < of_int \<lfloor>q\<rfloor> + 1" by linarith+
  then show "of_int (round_half_even q) - q \<le> 1 / 2" "q - of_int (round_half_even q) \<le> 1 / 2"
    by (auto simp: round_half_even_def Let_def simp del: of_int_floor_le)
qed

lemma round_half_even_nonneg: "0 \<le> q \<Longrightarrow> 0 \<le> round_half_even q"
  by (auto simp: round_half_even_def Let_def)

lemma round_half_even_mono:
  assumes "p \<le> q"
  shows "round_half_even p \<le> round_half_even q"
proof (cases "\<lfloor>p\<rfloor> = \<lfloor>q\<rfloor>")
  case True
  with assms show ?thesis by (auto simp: round_half_even_def Let_def)
next
  case False
  with assms have "\<lfloor>p\<rfloor> + 1 \<le> \<lfloor>q\<rfloor>" using floor_mono [OF assms] by simp
  moreover have "round_half_even p \<le> \<lfloor>p\<rfloor> + 1" by (simp add: round_half_even_def Let_def)
  moreover have "\<lfloor>q\<rfloor> \<le> round_half_even q" by (simp add: round_half_even_def Let_def)
  ultimately show ?thesis by simp
qed

lemma round_float_zero [simp]: "round_float p e 0 = 0"
  by (simp add: round_float_def)

lemma fl32_zero [simp]: "fl32 0 = 0"
  by (simp add: fl32_def)

lemma round_float_nonneg: "0 \<le> x \<Longrightarrow> 0 \<le> round_float p e x"
  by (auto simp: round_float_def Let_def intro!: mult_nonneg_nonneg round_half_even_nonneg
        divide_nonneg_nonneg)

lemma fl32_nonneg: "0 \<le> x \<Longrightarrow> 0 \<le> fl32 x"
  by (simp add: fl32_def round_float_nonneg)

section \<open>Rounding is monotone, odd, and exact on representable values\<close>

lemma pow2_neq_0 [simp]: "pow2 e \<noteq> 0"
  using pow2_pos [of e] by linarith

lemma pow2_plus_one: "pow2 (e + 1) = 2 * pow2 e"
proof (cases "0 \<le> e")
  case True
  then have "nat (e + 1) = Suc (nat e)" by simp
  with True show ?thesis by (simp add: pow2_def)
next
  case False
  then have "nat (- e) = Suc (nat (- e - 1))" by simp
  with False show ?thesis by (simp add: pow2_def)
qed

lemma pow2_plus: "pow2 (e + int n) = 2 ^ n * pow2 e"
proof (induction n)
  case (Suc n)
  have "pow2 (e + int (Suc n)) = pow2 (e + int n + 1)" by (simp add: ac_simps)
  with Suc show ?case by (simp add: pow2_plus_one)
qed simp

lemma pow2_diff: "a \<le> b \<Longrightarrow> pow2 b = 2 ^ nat (b - a) * pow2 a"
  using pow2_plus [of a "nat (b - a)"] by simp

lemma pow2_mono: "a \<le> b \<Longrightarrow> pow2 a \<le> pow2 b"
  using pow2_diff [of a b] mult_right_mono [of 1 "2 ^ nat (b - a)" "pow2 a"] by simp

lemma pow2_less: "a < b \<Longrightarrow> pow2 a < pow2 b"
  using pow2_mono [of "a + 1" b] pow2_plus_one [of a] pow2_pos [of a] by linarith

lemma pow2_less_cancel: "pow2 a < pow2 b \<Longrightarrow> a < b"
  using pow2_mono [of b a] by linarith

lemma floorlog2_bounds:
  assumes "0 < n"
  shows "2 ^ (floorlog 2 n - 1) \<le> n" "n < 2 ^ floorlog 2 n" "0 < floorlog 2 n"
  using floorlog_bounds [of n 2] assms by (auto simp: floorlog_def)

lemma int_bounds:
  assumes "0 < n"
  shows "pow2 (int (floorlog 2 (nat n)) - 1) \<le> of_int n" "of_int n < pow2 (int (floorlog 2 (nat n)))"
proof -
  let ?f = "floorlog 2 (nat n)"
  note f = floorlog2_bounds [of "nat n"]
  have e: "int ?f - 1 = int (?f - 1)" using f(3) assms by (simp add: of_nat_diff)
  have p: "pow2 (int k) = of_int (2 ^ k)" for k by (simp add: pow2_def)
  have "int (2 ^ (?f - 1)) \<le> n" "n < int (2 ^ ?f)" using f(1,2) assms by (simp_all add: le_nat_iff nat_less_iff)
  then show "pow2 (int ?f - 1) \<le> of_int n" "of_int n < pow2 (int ?f)"
    unfolding e p of_int_le_iff of_int_less_iff by simp_all
qed

lemma ilog2_bounds:
  assumes "0 < x"
  shows "pow2 (ilog2 x) \<le> x" "x < pow2 (ilog2 x + 1)"
proof -
  obtain n d where q: "quotient_of x = (n, d)" by (cases "quotient_of x")
  have d: "0 < d" by (rule quotient_of_denom_pos [OF q])
  have x: "x = of_int n / of_int d" by (rule quotient_of_div [OF q])
  have n: "0 < n" using assms d by (simp add: x zero_less_divide_iff)
  define a b where "a = int (floorlog 2 (nat n))" and "b = int (floorlog 2 (nat d))"
  define k where "k = a - b"
  have il: "ilog2 x = (if pow2 k \<le> x then k else k - 1)"
    by (simp add: ilog2_def q k_def a_def b_def Let_def)
  have r: "pow2 e * pow2 f = pow2 (e + f)" for e f
  proof (cases "0 \<le> f")
    case True
    then show ?thesis using pow2_plus [of e "nat f"] by (simp add: pow2_def)
  next
    case False
    then show ?thesis using pow2_plus [of "e + f" "nat (- f)"] by (simp add: pow2_def field_simps)
  qed
  have p: "0 < (of_int d :: rat)" using d by simp
  note na = int_bounds [OF n, folded a_def] and db = int_bounds [OF d, folded b_def]
  have "of_int n < pow2 a" "pow2 (k + 1) * pow2 (b - 1) = pow2 a" by (simp_all add: na r k_def)
  moreover have "pow2 (k + 1) * pow2 (b - 1) \<le> pow2 (k + 1) * of_int d" using db(1) by (intro mult_left_mono) auto
  ultimately have u: "x < pow2 (k + 1)" using p unfolding x by (simp add: divide_less_eq)
  have "pow2 (k - 1) * of_int d \<le> pow2 (k - 1) * pow2 b" using db(2) by (intro mult_left_mono) auto
  also have "\<dots> = pow2 (a - 1)" by (simp add: r k_def)
  also have "\<dots> \<le> of_int n" by (rule na)
  finally have l: "pow2 (k - 1) \<le> x" using p unfolding x by (simp add: le_divide_eq)
  show "pow2 (ilog2 x) \<le> x" "x < pow2 (ilog2 x + 1)"
    using u l unfolding il by (auto simp: not_le)
qed

lemma ilog2_mono: "0 < x \<Longrightarrow> x \<le> y \<Longrightarrow> ilog2 x \<le> ilog2 y"
  using ilog2_bounds(1) [of x] ilog2_bounds(2) [of y] pow2_less_cancel [of "ilog2 x" "ilog2 y + 1"] by force

lemma ilog2_le: "0 < x \<Longrightarrow> x < pow2 (e + 1) \<Longrightarrow> ilog2 x \<le> e"
  using ilog2_bounds(1) [of x] pow2_less_cancel [of "ilog2 x" "e + 1"] by force

lemma round_half_even_minus: "round_half_even (- q) = - round_half_even q"
proof (cases "q = of_int \<lfloor>q\<rfloor>")
  case True
  then show ?thesis by (metis of_int_minus round_half_even_of_int)
next
  case False
  then have "\<lfloor>- q\<rfloor> = - \<lfloor>q\<rfloor> - 1" by linarith
  then show ?thesis by (auto simp: round_half_even_def Let_def)
qed

lemma round_float_minus [simp]: "round_float p e (- x) = - round_float p e x"
  by (simp add: round_float_def Let_def round_half_even_minus)

text \<open>The grid of a value: its exponent, not below the least one.\<close>

lemma round_float_pos:
  "0 < x \<Longrightarrow> round_float p m x
     = of_int (round_half_even (x / pow2 (max (ilog2 x) m - (p - 1)))) * pow2 (max (ilog2 x) m - (p - 1))"
  by (simp add: round_float_def Let_def)

lemma round_float_upper:
  assumes "0 < x" "x < pow2 (e + 1)" "max (ilog2 x) m = e" "0 \<le> p"
  shows "round_float p m x \<le> pow2 (e + 1)"
proof -
  let ?u = "pow2 (e - (p - 1))"
  have e: "pow2 (e + 1) = of_int (2 ^ nat p) * ?u"
    using pow2_diff [of "e - (p - 1)" "e + 1"] assms(4) by (simp add: nat_add_distrib)
  have "x / ?u \<le> of_int (2 ^ nat p)" using assms(2) e by (simp add: divide_le_eq)
  from round_half_even_mono [OF this] have "round_half_even (x / ?u) \<le> 2 ^ nat p" by (simp only: round_half_even_of_int)
  then have "of_int (round_half_even (x / ?u)) * ?u \<le> of_int (2 ^ nat p) * ?u"
    by (intro mult_right_mono) (simp_all only: of_int_le_iff pow2_nonneg)
  with assms(1,3) show ?thesis by (simp add: round_float_pos e)
qed

lemma round_float_lower:
  assumes "pow2 e \<le> y" "max (ilog2 y) m = e" "1 \<le> p"
  shows "pow2 e \<le> round_float p m y"
proof -
  let ?u = "pow2 (e - (p - 1))"
  have e: "pow2 e = of_int (2 ^ nat (p - 1)) * ?u"
    using pow2_diff [of "e - (p - 1)" e] assms(3) by simp
  have y: "0 < y" using assms(1) pow2_pos [of e] by linarith
  have "of_int (2 ^ nat (p - 1)) \<le> y / ?u" using assms(1) e by (simp add: le_divide_eq)
  from round_half_even_mono [OF this] have "2 ^ nat (p - 1) \<le> round_half_even (y / ?u)" by (simp only: round_half_even_of_int)
  then have "of_int (2 ^ nat (p - 1)) * ?u \<le> of_int (round_half_even (y / ?u)) * ?u"
    by (intro mult_right_mono) (simp_all only: of_int_le_iff pow2_nonneg)
  with assms(2) y show ?thesis by (simp add: round_float_pos e)
qed

lemma round_float_mono_pos:
  assumes x: "0 < x" "x \<le> y" and p: "1 \<le> p"
  shows "round_float p m x \<le> round_float p m y"
proof -
  define e f where "e = max (ilog2 x) m" and "f = max (ilog2 y) m"
  have y: "0 < y" using x by simp
  have le: "e \<le> f" using ilog2_mono [OF x] by (auto simp: e_def f_def)
  show ?thesis
  proof (cases "e = f")
    case True
    have "x / pow2 (f - (p - 1)) \<le> y / pow2 (f - (p - 1))" using x(2) by (simp add: divide_right_mono)
    from round_half_even_mono [OF this] show ?thesis
      using x(1) y True by (simp add: round_float_pos e_def f_def [symmetric] mult_right_mono)
  next
    case False
    then have lt: "e < f" "ilog2 y = f" using le by (auto simp: e_def f_def)
    have "x < pow2 (e + 1)"
      using ilog2_bounds(2) [OF x(1)] pow2_mono [of "ilog2 x + 1" "e + 1"] by (simp add: e_def)
    from round_float_upper [OF x(1) this e_def [symmetric]] p have "round_float p m x \<le> pow2 (e + 1)" by simp
    also have "\<dots> \<le> pow2 f" using lt(1) by (intro pow2_mono) simp
    also have "\<dots> \<le> round_float p m y"
      using round_float_lower [OF _ f_def [symmetric] p] ilog2_bounds(1) [OF y] lt(2) by simp
    finally show ?thesis .
  qed
qed

lemma round_float_mono:
  assumes "x \<le> y" "1 \<le> p"
  shows "round_float p m x \<le> round_float p m y"
proof -
  consider "0 < x" | "x \<le> 0" "0 \<le> y" | "y < 0" using assms(1) by linarith
  then show ?thesis
  proof cases
    case 1
    then show ?thesis by (rule round_float_mono_pos [OF _ assms])
  next
    case 2
    then show ?thesis using round_float_nonneg [of y p m] round_float_nonneg [of "- x" p m] by simp
  next
    case 3
    then show ?thesis using round_float_mono_pos [of "- y" "- x" p m] assms by simp
  qed
qed

lemma round_float_exact:
  assumes "\<bar>n\<bar> < 2 ^ nat p" "m - (p - 1) \<le> e" "1 \<le> p"
  shows "round_float p m (of_int n * pow2 e) = of_int n * pow2 e"
proof -
  have pos: "round_float p m (of_int k * pow2 e) = of_int k * pow2 e" if k: "0 < k" "k < 2 ^ nat p" for k :: int
  proof -
    let ?x = "of_int k * pow2 e"
    have x: "0 < ?x" using k(1) by simp
    have pe: "pow2 (e + (p - 1) + 1) = 2 ^ nat p * pow2 e"
      using pow2_plus [of e "nat p"] assms(3) by (simp add: algebra_simps)
    have "of_int k < (of_int (2 ^ nat p) :: rat)" using k(2) by (simp only: of_int_less_iff)
    then have "?x < pow2 (e + (p - 1) + 1)" unfolding pe by simp
    then have "ilog2 ?x \<le> e + (p - 1)" by (rule ilog2_le [OF x])
    moreover define g where "g = max (ilog2 ?x) m - (p - 1)"
    ultimately have "g \<le> e" using assms(2) by simp
    then have ge: "pow2 e = 2 ^ nat (e - g) * pow2 g" by (rule pow2_diff)
    have "?x / pow2 g = of_int (k * 2 ^ nat (e - g))" unfolding ge by simp
    then have "round_half_even (?x / pow2 g) = k * 2 ^ nat (e - g)" by (simp only: round_half_even_of_int)
    with round_float_pos [OF x, of p m, folded g_def]
    have "round_float p m ?x = of_int (k * 2 ^ nat (e - g)) * pow2 g" by simp
    also have "\<dots> = ?x" unfolding ge by simp
    finally show ?thesis .
  qed
  consider "0 < n" | "n = 0" | "0 < - n" by linarith
  then show ?thesis
  proof cases
    case 3
    then show ?thesis using pos [of "- n"] assms(1) by simp
  qed (use pos assms(1) in auto)
qed

lemma fl32_mono: "x \<le> y \<Longrightarrow> fl32 x \<le> fl32 y"
  by (simp add: fl32_def round_float_mono)

lemma fl32_minus [simp]: "fl32 (- x) = - fl32 x"
  by (simp add: fl32_def)

lemma fl32_exact: "\<bar>n\<bar> < 16777216 \<Longrightarrow> fl32 (of_int n) = of_int n"
  using round_float_exact [of n 24 "-126" 0] by (simp add: fl32_def pow2_def)

lemma fl32_exact_frac: "\<bar>n\<bar> < 16777216 \<Longrightarrow> k \<le> 149 \<Longrightarrow> fl32 (of_int n / 2 ^ k) = of_int n / 2 ^ k"
proof -
  assume a: "\<bar>n\<bar> < 16777216" "k \<le> 149"
  have "pow2 (- int k) = 1 / 2 ^ k" by (simp add: pow2_def)
  then show ?thesis using round_float_exact [of n 24 "-126" "- int k"] a by (simp add: fl32_def)
qed

end
