(* ===== verification/Counter.thy ===== *)
theory Counter
  imports Float32 "HOL-Library.Signed_Division"
begin

text \<open>
  \<open>sc::Counter\<close> and \<open>sc::ArrivalTimeCounter\<close> (linux/common): a value with its simple and
  exponential moving average, its running total and a ring of timestamped samples from which a
  speed is computed. The mutexes make each public operation atomic, so an operation is a function
  on the record. The clock of \<open>gettimeofday\<close> is an argument. \<open>int\<close> sums wrap, as the compiled
  code does.
\<close>

section \<open>State\<close>

record counter =
  mValue :: i32
  mPrevValues :: "i32 list"
  mPrevValueTSs :: "u64 list"
  mPrevValuePointer :: int
  mIsSpeedThreadOn :: bool
  mTotal :: u64
  mTotalCount :: i32
  mSimpleHistoryValues :: "i32 list"
  mSimpleHistoryCursor :: nat
  mSmaLength :: nat
  mEma :: f32
  mEmaMomentum :: f32

definition PREV_VALUES_SIZE :: nat where "PREV_VALUES_SIZE = 10"
definition DEFAULT_SIMPLE_MOVING_AVERAGE_LENGTH :: nat where "DEFAULT_SIMPLE_MOVING_AVERAGE_LENGTH = 12"
definition DEFAULT_EXPONENTIAL_MOVING_AVERAGE_MOMENTUM :: f32 where
  "DEFAULT_EXPONENTIAL_MOVING_AVERAGE_MOMENTUM = fl32 (1 / 10)"

text \<open>
  The constructor sets neither the sample pointer, nor the speed-thread flag, nor the running
  total: they hold whatever the memory held, so they are arguments.
\<close>

definition counter_ctor :: "int \<Rightarrow> bool \<Rightarrow> u64 \<Rightarrow> i32 \<Rightarrow> counter" where
  "counter_ctor ptr on tot cnt = \<lparr>
     mValue = 0,
     mPrevValues = replicate PREV_VALUES_SIZE 0,
     mPrevValueTSs = replicate PREV_VALUES_SIZE 0,
     mPrevValuePointer = ptr,
     mIsSpeedThreadOn = on,
     mTotal = tot,
     mTotalCount = cnt,
     mSimpleHistoryValues = replicate DEFAULT_SIMPLE_MOVING_AVERAGE_LENGTH 0,
     mSimpleHistoryCursor = 0,
     mSmaLength = DEFAULT_SIMPLE_MOVING_AVERAGE_LENGTH,
     mEma = 0,
     mEmaMomentum = DEFAULT_EXPONENTIAL_MOVING_AVERAGE_MOMENTUM\<rparr>"

section \<open>Setting the value\<close>

definition set_value_locked :: "i32 \<Rightarrow> counter \<Rightarrow> counter" where
  "set_value_locked new_value c = c\<lparr>
     mValue := new_value,
     mSimpleHistoryValues := (mSimpleHistoryValues c)[mSimpleHistoryCursor c := new_value],
     mSimpleHistoryCursor := (mSimpleHistoryCursor c + 1) mod mSmaLength c,
     mEma := fl32 (fl32 (mEma c * mEmaMomentum c)
                 + fl32 (fl32 (of_int (sint new_value)) * fl32 (1 - mEmaMomentum c))),
     mTotal := mTotal c + word_of_int (sint new_value),
     mTotalCount := mTotalCount c + 1\<rparr>"

definition counter_add :: "i32 \<Rightarrow> counter \<Rightarrow> counter" where
  "counter_add diff c = set_value_locked (mValue c + diff) c"

definition counter_sub :: "i32 \<Rightarrow> counter \<Rightarrow> counter" where
  "counter_sub diff c = set_value_locked (mValue c - diff) c"

definition counter_increase :: "counter \<Rightarrow> counter" where
  "counter_increase c = set_value_locked (mValue c + 1) c"

definition counter_decrease :: "counter \<Rightarrow> counter" where
  "counter_decrease c = set_value_locked (mValue c - 1) c"

definition set_value :: "i32 \<Rightarrow> counter \<Rightarrow> counter" where
  "set_value new_value c = set_value_locked new_value c"

section \<open>Reading averages\<close>

definition get_em_average :: "counter \<Rightarrow> f32" where
  "get_em_average c = mEma c"

definition get_sm_average_locked :: "counter \<Rightarrow> i32" where
  "get_sm_average_locked c =
     (let simple_mavg = foldl (+) 0 (take (mSmaLength c) (mSimpleHistoryValues c))
      in word_of_int (sint simple_mavg sdiv int (mSmaLength c)))"

text \<open>\<open>(float)((double)mTotal / mTotalCount)\<close>; \<open>None\<close> where the quotient is infinite or NaN.\<close>

definition get_total_average :: "counter \<Rightarrow> f32 option" where
  "get_total_average c =
     (if mTotalCount c = 0 then None
      else Some (fl32 (fl64 (fl64 (of_int (sint (mTotal c))) / of_int (sint (mTotalCount c))))))"

section \<open>Speed\<close>

definition start_measure_speed :: "counter \<Rightarrow> counter \<times> bool" where
  \<comment> \<open>the flag of the result says whether a speed thread was launched\<close>
  "start_measure_speed c =
     (if \<not> mIsSpeedThreadOn c then (c\<lparr>mIsSpeedThreadOn := True\<rparr>, True) else (c, False))"

definition stop_measure_speed :: "counter \<Rightarrow> counter" where
  "stop_measure_speed c = c\<lparr>mIsSpeedThreadOn := False\<rparr>"

text \<open>A timestamp \<open>tv\<close> in microseconds, \<open>(uint64_t)tv.tv_sec * 1000 * 1000 + tv.tv_usec\<close>.\<close>

definition tv_to_usec :: "int \<Rightarrow> int \<Rightarrow> u64" where
  "tv_to_usec sec usec = word_of_int sec * 1000 * 1000 + word_of_int usec"

text \<open>One sample: the C remainder keeps the sign of the pointer, so a negative index stays negative.\<close>

definition update_speed_locked :: "u64 \<Rightarrow> counter \<Rightarrow> fault + counter" where
  "update_speed_locked now_us c =
     (let ptr = (mPrevValuePointer c + 1) smod int PREV_VALUES_SIZE
      in if ptr < 0 then Inl Out_of_bounds
         else Inr (c\<lparr>mPrevValuePointer := ptr,
                     mPrevValues := (mPrevValues c)[nat ptr := mValue c],
                     mPrevValueTSs := (mPrevValueTSs c)[nat ptr := now_us]\<rparr>))"

text \<open>
  The search for the start of the speed window. The loop leaves with a break when a timestamp is
  newer than the end and older than the start of the window; it walks down the ring otherwise. The
  result is the index and whether the body ran to its end at least once. The ring has
  \<open>PREV_VALUES_SIZE\<close> slots, which bounds the number of iterations.
\<close>

fun speed_window :: "nat \<Rightarrow> u64 list \<Rightarrow> u64 \<Rightarrow> u64 \<Rightarrow> nat \<Rightarrow> nat \<Rightarrow> bool \<Rightarrow> nat \<times> bool" where
  "speed_window 0 tss sd ed start i pass = (i, pass)"
| "speed_window (Suc fuel) tss sd ed start i pass =
     (if i = start then (i, pass)
      else if tss ! i > ed \<and> tss ! i < sd then ((i + 1) mod PREV_VALUES_SIZE, pass)
      else speed_window fuel tss sd ed start (if i \<ge> 1 then i - 1 else PREV_VALUES_SIZE - 1) True)"

definition get_speed_locked :: "u64 \<Rightarrow> counter \<Rightarrow> fault + i32" where
  "get_speed_locked now_us c =
     (let start_cq = (mPrevValuePointer c + 1) smod int PREV_VALUES_SIZE;
          end_cq = mPrevValuePointer c smod int PREV_VALUES_SIZE;
          start_desired = now_us - 1000 * 1000;
          end_desired = now_us
      in if start_cq < 0 \<or> end_cq < 0 then Inl Out_of_bounds
         else
          (case speed_window PREV_VALUES_SIZE (mPrevValueTSs c) start_desired end_desired
                  (nat start_cq) (nat end_cq) False of
             (i, is_pass_once) \<Rightarrow>
               if \<not> is_pass_once then Inr 0
               else
                let start_ts = mPrevValueTSs c ! i; end_ts = mPrevValueTSs c ! nat end_cq;
                    start_value = mPrevValues c ! i; end_value = mPrevValues c ! nat end_cq
                in if end_ts = 0 \<or> start_ts = 0 then Inr 0
                   else if end_ts = start_ts then Inl Undefined_conversion
                   else float_to_int
                          (fl32 (fl32 (of_int (sint (end_value - start_value)))
                             / fl32 (fl32 (of_nat (unat (end_ts - start_ts))) / 1000000)))))"

section \<open>Arrival times\<close>

text \<open>
  \<open>ArrivalTimeCounter::arrive\<close>: the value is the interval since the last arrival; the first arrival
  only stores its timestamp. The timestamp is the pair of seconds and microseconds.
\<close>

record arrival_counter =
  acCounter :: counter
  acLastAccessedTS :: "int \<times> int"

definition arrival_ctor :: "counter \<Rightarrow> arrival_counter" where
  "arrival_ctor c = \<lparr>acCounter = c, acLastAccessedTS = (0, 0)\<rparr>"

definition arrive :: "int \<times> int \<Rightarrow> arrival_counter \<Rightarrow> arrival_counter" where
  "arrive endTS a =
     (let startTS = acLastAccessedTS a;
          a' = (if fst startTS \<noteq> 0 \<or> snd startTS \<noteq> 0
                then a\<lparr>acCounter := set_value
                        (ucast (tv_to_usec (fst endTS) (snd endTS)
                              - tv_to_usec (fst startTS) (snd startTS))) (acCounter a)\<rparr>
                else a)
      in a'\<lparr>acLastAccessedTS := endTS\<rparr>)"

section \<open>What the operations do to the value\<close>

lemma mValue_updates [simp]:
  "mValue (set_value_locked v c) = v"
  "mValue (set_value v c) = v"
  "mValue (counter_add d c) = mValue c + d"
  "mValue (counter_sub d c) = mValue c - d"
  "mValue (counter_increase c) = mValue c + 1"
  "mValue (counter_decrease c) = mValue c - 1"
  "mValue (counter_ctor p on tot cnt) = 0"
  by (simp_all add: set_value_locked_def set_value_def counter_add_def counter_sub_def
      counter_increase_def counter_decrease_def counter_ctor_def)

section \<open>Well-formedness: the cursor stays inside the history\<close>

definition counter_wf :: "counter \<Rightarrow> bool" where
  "counter_wf c \<longleftrightarrow> 0 < mSmaLength c \<and> length (mSimpleHistoryValues c) = mSmaLength c
     \<and> mSimpleHistoryCursor c < mSmaLength c
     \<and> length (mPrevValues c) = PREV_VALUES_SIZE \<and> length (mPrevValueTSs c) = PREV_VALUES_SIZE"

lemma counter_ctor_wf: "counter_wf (counter_ctor p on tot cnt)"
  by (simp add: counter_wf_def counter_ctor_def DEFAULT_SIMPLE_MOVING_AVERAGE_LENGTH_def)

lemma set_value_locked_wf: "counter_wf c \<Longrightarrow> counter_wf (set_value_locked v c)"
  by (simp add: counter_wf_def set_value_locked_def)

lemma counter_ops_wf:
  assumes "counter_wf c"
  shows "counter_wf (set_value v c)" "counter_wf (counter_add d c)" "counter_wf (counter_sub d c)"
    "counter_wf (counter_increase c)" "counter_wf (counter_decrease c)"
  using assms by (simp_all add: set_value_def counter_add_def counter_sub_def counter_increase_def
      counter_decrease_def set_value_locked_wf)

section \<open>The speed window is always the whole ring\<close>

text \<open>
  No timestamp is newer than the end and older than the start of a window whose start lies before
  its end, so the break is never taken: the walk ends at the oldest slot whatever the samples are.
\<close>

lemma speed_window_never_breaks:
  assumes "sd \<le> ed"
  shows "speed_window (Suc fuel) tss sd ed start i pass =
    (if i = start then (i, pass)
     else speed_window fuel tss sd ed start (if i \<ge> 1 then i - 1 else PREV_VALUES_SIZE - 1) True)"
proof -
  have "\<not> (tss ! i > ed \<and> tss ! i < sd)" using assms by auto
  then show ?thesis by (simp only: speed_window.simps if_False)
qed

lemma speed_window_down:
  assumes "sd \<le> ed" "start \<le> i" "i - start < fuel"
  shows "speed_window fuel tss sd ed start i pass = (start, pass \<or> i \<noteq> start)"
  using assms
proof (induction fuel arbitrary: i pass)
  case (Suc fuel)
  show ?case
  proof (cases "i = start")
    case True
    then show ?thesis by simp
  next
    case False
    with Suc.prems have "start \<le> i - 1" "i - 1 - start < fuel" "1 \<le> i" by auto
    with Suc.IH [of "i - 1" True] Suc.prems(1) False show ?thesis
      by (simp only: speed_window_never_breaks [OF Suc.prems(1)]) simp
  qed
qed simp

lemma speed_window_wraps:
  assumes "sd \<le> ed" "i < start" "start < PREV_VALUES_SIZE" "i + PREV_VALUES_SIZE - start < fuel"
  shows "speed_window fuel tss sd ed start i pass = (start, True)"
  using assms
proof (induction i arbitrary: fuel pass)
  case 0
  then obtain f where f: "fuel = Suc f" by (cases fuel) auto
  with 0 have "speed_window f tss sd ed start (PREV_VALUES_SIZE - 1) True = (start, True)"
    by (subst speed_window_down) auto
  with 0 f show ?case by (simp only: speed_window_never_breaks [OF assms(1)]) simp
next
  case (Suc i)
  then obtain f where f: "fuel = Suc f" by (cases fuel) auto
  with Suc have "speed_window f tss sd ed start i True = (start, True)" by auto
  with Suc.prems f show ?case
    by (simp only: speed_window_never_breaks [OF assms(1)]) simp
qed

section \<open>The ring holds the last values\<close>

lemma ring_step:
  assumes "k < length h"
  shows "drop ((k + 1) mod length h) (h[k := v]) @ take ((k + 1) mod length h) (h[k := v])
    = tl (drop k h @ take k h) @ [v]"
proof (cases "k + 1 = length h")
  case True
  then have "h = take k h @ [h ! k]" using assms by (metis Suc_eq_plus1 take_Suc_conv_app_nth take_all_iff le_refl)
  then obtain g x where g: "h = g @ [x]" "length g = k" using assms by (metis length_take min.absorb4)
  then show ?thesis by (simp add: list_update_append)
next
  case False
  then have "k + 1 < length h" using assms by simp
  then show ?thesis
    using assms Cons_nth_drop_Suc [OF assms, symmetric] by (simp add: take_Suc_conv_app_nth)
qed

lemma foldl_plus: "foldl (+) a xs = a + sum_list xs" for a :: "'a::comm_monoid_add"
  by (induction xs arbitrary: a) (simp_all add: ac_simps)

lemma drop_snoc:
  assumes "n < length xs"
  shows "tl (drop n xs) @ [x] = drop (Suc n) (xs @ [x])"
  using assms by (simp add: tl_drop [symmetric] drop_Suc)

lemma ring_holds_last:
  assumes "c = fold set_value_locked vs (counter_ctor p on tot cnt)"
  shows "counter_wf c \<and> mSmaLength c = 12 \<and>
    drop (mSimpleHistoryCursor c) (mSimpleHistoryValues c) @ take (mSimpleHistoryCursor c) (mSimpleHistoryValues c)
      = drop (length vs) (replicate 12 0 @ vs)"
  using assms
proof (induction vs arbitrary: c rule: rev_induct)
  case Nil
  then show ?case
    by (simp add: counter_ctor_wf) (simp add: counter_ctor_def DEFAULT_SIMPLE_MOVING_AVERAGE_LENGTH_def)
next
  case (snoc v vs)
  define d where "d = fold set_value_locked vs (counter_ctor p on tot cnt)"
  note d = snoc.IH [OF d_def]
  let ?k = "mSimpleHistoryCursor d" and ?h = "mSimpleHistoryValues d"
  have k: "?k < length ?h" "length ?h = 12" using d by (simp_all add: counter_wf_def)
  have c: "c = set_value_locked v d" using snoc.prems by (simp add: d_def)
  have "drop ((?k + 1) mod 12) (?h[?k := v]) @ take ((?k + 1) mod 12) (?h[?k := v])
      = tl (drop (length vs) (replicate 12 0 @ vs)) @ [v]"
    using ring_step [OF k(1), of v] d k(2) by simp
  also have "\<dots> = drop (length (vs @ [v])) (replicate 12 0 @ vs @ [v])"
    using drop_snoc [of "length vs" "replicate 12 0 @ vs" v] by simp
  finally show ?case using d c set_value_locked_wf [of d v] by (simp add: set_value_locked_def)
qed

text \<open>
  The simple moving average is the C quotient by 12 of the (wrapping) sum of the last 12 values
  the counter was set to; before 12 values have been set, the missing ones count as zero.
\<close>

lemma sma_is_average_of_last:
  "get_sm_average_locked (fold set_value_locked vs (counter_ctor p on tot cnt))
     = word_of_int (sint (sum_list (drop (length vs) (replicate 12 0 @ vs))) sdiv 12)"
proof -
  define c where "c = fold set_value_locked vs (counter_ctor p on tot cnt)"
  note c = ring_holds_last [OF c_def]
  let ?k = "mSimpleHistoryCursor c" and ?h = "mSimpleHistoryValues c"
  have "foldl (+) 0 ?h = sum_list ?h" by (simp add: foldl_plus)
  also have "\<dots> = sum_list (take ?k ?h @ drop ?k ?h)" by simp
  also have "\<dots> = sum_list (drop ?k ?h @ take ?k ?h)" unfolding sum_list_append by (simp add: add.commute)
  also have "\<dots> = sum_list (drop (length vs) (replicate 12 0 @ vs))" using c by simp
  finally show ?thesis
    using c by (simp add: get_sm_average_locked_def counter_wf_def c_def [symmetric] Let_def)
qed

section \<open>What the speed measures\<close>

lemma speed_window_start:
  assumes "sd \<le> ed" "start < PREV_VALUES_SIZE" "i < PREV_VALUES_SIZE" "i = (start + 9) mod 10"
  shows "speed_window PREV_VALUES_SIZE tss sd ed start i False = (start, True)"
proof (cases "start = 0")
  case True
  with assms show ?thesis by (subst speed_window_down) (auto simp: PREV_VALUES_SIZE_def)
next
  case False
  have "i = start - 1"
    using assms(2,4) False by (cases start) (auto simp: PREV_VALUES_SIZE_def mod_if)
  with assms False show ?thesis by (subst speed_window_wraps) (auto simp: PREV_VALUES_SIZE_def)
qed

text \<open>
  On a counter whose sample pointer is in range the speed is the difference between the newest
  and the oldest sample of the ring over the time between them, whatever that time is: the window
  of one second that the code searches for is never found. The exceptions are samples that were
  never taken (speed 0) and two equal timestamps (a division by zero, converted to int).
\<close>

lemma speed_spans_the_ring:
  assumes "0 \<le> mPrevValuePointer c" "mPrevValuePointer c < 10" "1000 * 1000 \<le> now_us"
  shows "get_speed_locked now_us c =
    (let k = nat (mPrevValuePointer c); old = (k + 1) mod 10;
         dt = mPrevValueTSs c ! k - mPrevValueTSs c ! old
     in if mPrevValueTSs c ! k = 0 \<or> mPrevValueTSs c ! old = 0 then Inr 0
        else if dt = 0 then Inl Undefined_conversion
        else float_to_int (fl32 (fl32 (of_int (sint (mPrevValues c ! k - mPrevValues c ! old)))
                / fl32 (fl32 (of_nat (unat dt)) / 1000000))))"
proof -
  define k where "k = nat (mPrevValuePointer c)"
  have k: "mPrevValuePointer c = int k" "k < 10" using assms(1,2) by (simp_all add: k_def)
  have "int ((k + 1) mod 10) = (int k + 1) mod 10" by (simp add: zmod_int ac_simps)
  then have m: "(int k + 1) smod 10 = int ((k + 1) mod 10)" "int k smod 10 = int k"
    using k(2) by (auto simp: signed_modulo_int_def)
  have w: "speed_window PREV_VALUES_SIZE tss (now_us - 1000 * 1000) now_us ((k + 1) mod 10) k False
      = ((k + 1) mod 10, True)" for tss
    using assms(3) k(2) by (intro speed_window_start) (auto simp: PREV_VALUES_SIZE_def word_le_nat_alt unat_sub_if' mod_if)
  show ?thesis
    unfolding get_speed_locked_def Let_def k(1) PREV_VALUES_SIZE_def of_nat_numeral m nat_int
    using w [unfolded PREV_VALUES_SIZE_def] by (simp add: add.commute)
qed

section \<open>Reference counts\<close>

text \<open>\<open>RefCount\<close> (common/inc/RefCount.h): the returned value and the new count.\<close>

type_synonym ref_count = i32

definition ref_count_ctor :: ref_count where
  "ref_count_ctor = 0"

definition ref_get_value :: "ref_count \<Rightarrow> i32" where
  "ref_get_value c = c"

definition ref_increase :: "ref_count \<Rightarrow> i32 \<times> ref_count" where
  "ref_increase c = (c + 1, c + 1)"

definition ref_decrease :: "ref_count \<Rightarrow> i32 \<times> ref_count" where
  "ref_decrease c = (c - 1, c - 1)"

text \<open>The count is the increases less the decreases, in whatever order they come.\<close>

lemma ref_count_balance:
  "ref_get_value (fold (\<lambda>up c. snd (if up then ref_increase c else ref_decrease c)) ops ref_count_ctor)
    = of_nat (count_list ops True) - of_nat (count_list ops False)"
proof -
  have "fold (\<lambda>up c. snd (if up then ref_increase c else ref_decrease c)) ops c
      = c + of_nat (count_list ops True) - of_nat (count_list ops False)" for c
    by (induction ops arbitrary: c) (auto simp: ref_increase_def ref_decrease_def)
  then show ?thesis by (simp add: ref_get_value_def ref_count_ctor_def)
qed

end
