(* ===== verification/Segment.thy ===== *)
theory Segment
  imports Prelude
begin

text \<open>
  The segment (linux/core/inc/Segment.h), the unit of transfer: its fields, the header that
  \<open>SegmentManager::serialize_segment_header\<close> writes into the first bytes of its data, the media
  timestamp that \<open>ServerAdapter::send\<close> writes over it, and the header parser of
  \<open>ReceiverThread::receiver_loop\<close>.
\<close>

section \<open>Layout\<close>

definition kSegSize :: nat where "kSegSize = 512"
definition kSegHeaderSize :: nat where "kSegHeaderSize = 28"
definition SEGMENT_DATA_SIZE :: nat where "SEGMENT_DATA_SIZE = kSegSize + kSegHeaderSize"

record segment =
  seq_no :: u32
  len :: u32
  flag :: u32
  send_start_ts_sec :: i32
  send_start_ts_usec :: i32
  media_start_ts_sec :: i32
  media_start_ts_usec :: i32
  data :: "u8 list"

definition kSegFlagMF :: u32 where "kSegFlagMF = 1"
definition kSegFlagControl :: u32 where "kSegFlagControl = 2"
definition kSegFlagAck :: u32 where "kSegFlagAck = 4"

text \<open>\<open>calloc(1, sizeof(Segment))\<close>.\<close>

definition zero_segment :: segment where
  "zero_segment = \<lparr>seq_no = 0, len = 0, flag = 0, send_start_ts_sec = 0, send_start_ts_usec = 0,
     media_start_ts_sec = 0, media_start_ts_usec = 0, data = replicate SEGMENT_DATA_SIZE 0\<rparr>"

definition segment_wf :: "segment \<Rightarrow> bool" where
  "segment_wf s \<longleftrightarrow> length (data s) = SEGMENT_DATA_SIZE"

lemmas seg_consts = kSegSize_def kSegHeaderSize_def SEGMENT_DATA_SIZE_def kSegFlagMF_def
  kSegFlagControl_def kSegFlagAck_def

lemma SEGMENT_DATA_SIZE_eq: "SEGMENT_DATA_SIZE = 540"
  by (simp add: seg_consts)

lemma zero_segment_wf [simp]: "segment_wf zero_segment"
  by (simp add: segment_wf_def zero_segment_def)

section \<open>The header on the wire\<close>

text \<open>Five big-endian words at offsets 0, 4, 8, 12 and 16 of the data; bytes 20 to 27 are left alone.\<close>

definition serialize_segment_header :: "segment \<Rightarrow> segment" where
  "serialize_segment_header seg = seg\<lparr>data :=
     put_bytes 16 (be32 (send_start_ts_usec seg))
      (put_bytes 12 (be32 (send_start_ts_sec seg))
        (put_bytes 8 (be32 (flag seg))
          (put_bytes 4 (be32 (len seg))
            (put_bytes 0 (be32 (seq_no seg)) (data seg)))))\<rparr>"

text \<open>
  \<open>ServerAdapter::send\<close> overwrites bytes 20 to 27 of the buffer with the time of transmission before
  it hands the buffer to the socket.
\<close>

definition stamp_media_ts :: "i32 \<Rightarrow> i32 \<Rightarrow> u8 list \<Rightarrow> u8 list" where
  "stamp_media_ts sec usec buf = put_bytes 24 (be32 usec) (put_bytes 20 (be32 sec) buf)"

text \<open>The receiver reads the seven header words of the buffer it has just filled.\<close>

definition parse_segment_header :: "segment \<Rightarrow> segment" where
  "parse_segment_header seg = (let buf = data seg in seg\<lparr>
     seq_no := of_be32 (bytes_at 0 4 buf),
     len := of_be32 (bytes_at 4 4 buf),
     flag := of_be32 (bytes_at 8 4 buf),
     send_start_ts_sec := of_be32 (bytes_at 12 4 buf),
     send_start_ts_usec := of_be32 (bytes_at 16 4 buf),
     media_start_ts_sec := of_be32 (bytes_at 20 4 buf),
     media_start_ts_usec := of_be32 (bytes_at 24 4 buf)\<rparr>)"

definition is_ack_segment :: "segment \<Rightarrow> bool" where
  "is_ack_segment seg \<longleftrightarrow> flag seg AND kSegFlagAck \<noteq> 0"

definition is_control_segment :: "segment \<Rightarrow> bool" where
  "is_control_segment seg \<longleftrightarrow> flag seg AND kSegFlagControl \<noteq> 0"

definition has_more_fragments :: "segment \<Rightarrow> bool" where
  "has_more_fragments seg \<longleftrightarrow> flag seg AND kSegFlagMF \<noteq> 0"

section \<open>Facts\<close>

lemma serialize_fields [simp]:
  "seq_no (serialize_segment_header s) = seq_no s"
  "len (serialize_segment_header s) = len s"
  "flag (serialize_segment_header s) = flag s"
  "send_start_ts_sec (serialize_segment_header s) = send_start_ts_sec s"
  "send_start_ts_usec (serialize_segment_header s) = send_start_ts_usec s"
  by (simp_all add: serialize_segment_header_def)

lemma serialize_wf [simp]: "segment_wf s \<Longrightarrow> segment_wf (serialize_segment_header s)"
  by (simp add: segment_wf_def serialize_segment_header_def seg_consts)

lemma length_stamp [simp]: "length buf = SEGMENT_DATA_SIZE \<Longrightarrow> length (stamp_media_ts a b buf) = SEGMENT_DATA_SIZE"
  by (simp add: stamp_media_ts_def seg_consts)

lemma bytes_at_stamp:
  assumes "length buf = SEGMENT_DATA_SIZE" "o2 + n \<le> SEGMENT_DATA_SIZE" "o2 + n \<le> 20 \<or> 28 \<le> o2"
  shows "bytes_at o2 n (stamp_media_ts a b buf) = bytes_at o2 n buf"
  using assms by (auto simp: stamp_media_ts_def seg_consts bytes_at_put_other)

lemma bytes_at_serialize:
  assumes "segment_wf s"
  shows "bytes_at 0 4 (data (serialize_segment_header s)) = be32 (seq_no s)"
    "bytes_at 4 4 (data (serialize_segment_header s)) = be32 (len s)"
    "bytes_at 8 4 (data (serialize_segment_header s)) = be32 (flag s)"
    "bytes_at 12 4 (data (serialize_segment_header s)) = be32 (send_start_ts_sec s)"
    "bytes_at 16 4 (data (serialize_segment_header s)) = be32 (send_start_ts_usec s)"
  using assms
  by (simp_all add: serialize_segment_header_def segment_wf_def seg_consts bytes_at_put_other)

lemma bytes_at_serialize_payload:
  assumes "segment_wf s" "20 \<le> off" "off + n \<le> SEGMENT_DATA_SIZE"
  shows "bytes_at off n (data (serialize_segment_header s)) = bytes_at off n (data s)"
  using assms
  by (simp add: serialize_segment_header_def segment_wf_def seg_consts bytes_at_put_other)

section \<open>Property\<close>

text \<open>
  C22: the header a receiver parses from a serialized and time-stamped segment is the header that
  was sent: numbers, length, flags and both times, and the payload arrives unchanged.
\<close>

theorem segment_header_roundtrip:
  assumes "segment_wf s"
  shows "parse_segment_header (r\<lparr>data := stamp_media_ts a b (data (serialize_segment_header s))\<rparr>)
    = \<lparr>seq_no = seq_no s, len = len s, flag = flag s,
       send_start_ts_sec = send_start_ts_sec s, send_start_ts_usec = send_start_ts_usec s,
       media_start_ts_sec = a, media_start_ts_usec = b,
       data = stamp_media_ts a b (data (serialize_segment_header s))\<rparr>
    \<and> bytes_at 28 512 (stamp_media_ts a b (data (serialize_segment_header s))) = bytes_at 28 512 (data s)"
proof -
  let ?d = "data (serialize_segment_header s)"
  have l: "length ?d = SEGMENT_DATA_SIZE"
    using serialize_wf [OF assms] by (simp add: segment_wf_def)
  have "bytes_at 20 4 (stamp_media_ts a b ?d) = be32 a" "bytes_at 24 4 (stamp_media_ts a b ?d) = be32 b"
    using l by (simp_all add: stamp_media_ts_def bytes_at_put_other SEGMENT_DATA_SIZE_eq)
  moreover have "bytes_at 28 512 (stamp_media_ts a b ?d) = bytes_at 28 512 (data s)"
    using l assms by (simp add: bytes_at_stamp bytes_at_serialize_payload SEGMENT_DATA_SIZE_eq)
  ultimately show ?thesis
    using l by (simp add: parse_segment_header_def Let_def bytes_at_stamp SEGMENT_DATA_SIZE_eq
        bytes_at_serialize [OF assms])
qed

theorem segment_header_roundtrip_witness:
  "parse_segment_header (zero_segment\<lparr>data := stamp_media_ts 7 8
       (data (serialize_segment_header (zero_segment\<lparr>seq_no := 5, flag := 3\<rparr>)))\<rparr>)
    = \<lparr>seq_no = 5, len = 0, flag = 3, send_start_ts_sec = 0, send_start_ts_usec = 0,
       media_start_ts_sec = 7, media_start_ts_usec = 8,
       data = stamp_media_ts 7 8 (data (serialize_segment_header (zero_segment\<lparr>seq_no := 5, flag := 3\<rparr>)))\<rparr>"
proof -
  have "segment_wf (zero_segment\<lparr>seq_no := 5, flag := 3\<rparr>)" by (simp add: segment_wf_def zero_segment_def)
  from segment_header_roundtrip [OF this, where r = zero_segment and a = 7 and b = 8] show ?thesis by (simp add: zero_segment_def)
qed

end
