(* ===== verification/SegmentQueue.thy ===== *)
theory SegmentQueue
  imports Counter Segment
begin

text \<open>
  \<open>sc::SegmentQueue\<close> (linux/core/inc/SegmentQueue.h): reassembly of a numbered stream. Segments
  that continue the stream go to the main queue, later ones wait in the pending queue, which is
  kept in order. The queue holds pointers and reads \<open>seg->seq_no\<close> through them: the elements are
  handles \<open>'p\<close> and \<open>sq\<close> is the sequence number behind a handle.
\<close>

section \<open>The code\<close>

record 'p squeue =
  mMainQueue :: "'p list"
  mPendingQueue :: "'p list"
  mQueueLength :: counter
  mExpectedSeqNo :: u32

definition squeue_ctor :: "counter \<Rightarrow> 'p squeue" where
  "squeue_ctor c = \<lparr>mMainQueue = [], mPendingQueue = [], mQueueLength = c, mExpectedSeqNo = 0\<rparr>"

text \<open>The walk over the pending queue: a duplicate fails the assertion inside the loop.\<close>

fun insert_pending :: "('p \<Rightarrow> u32) \<Rightarrow> 'p \<Rightarrow> 'p list \<Rightarrow> fault + 'p list" where
  "insert_pending sq seg [] = Inr [seg]"
| "insert_pending sq seg (walker # rest) =
     (if sq walker = sq seg then Inl Assertion_failure
      else if sq walker > sq seg then Inr (seg # walker # rest)
      else and_then (insert_pending sq seg rest) (\<lambda>ws. Inr (walker # ws)))"

definition push_main :: "'p \<Rightarrow> 'p squeue \<Rightarrow> 'p squeue" where
  "push_main seg q = q\<lparr>mExpectedSeqNo := mExpectedSeqNo q + 1,
     mMainQueue := mMainQueue q @ [seg],
     mQueueLength := counter_increase (mQueueLength q)\<rparr>"

text \<open>The loop that moves the segments that have become continuous; the list is the pending queue.\<close>

fun drain_pending :: "('p \<Rightarrow> u32) \<Rightarrow> 'p list \<Rightarrow> bool \<Rightarrow> 'p squeue \<Rightarrow> bool \<times> 'p squeue" where
  "drain_pending sq [] cont q = (cont, q\<lparr>mPendingQueue := []\<rparr>)"
| "drain_pending sq (p # ps) cont q =
     (if sq p = mExpectedSeqNo q then drain_pending sq ps True (push_main p q)
      else (cont, q\<lparr>mPendingQueue := p # ps\<rparr>))"

definition sq_enqueue :: "('p \<Rightarrow> u32) \<Rightarrow> 'p \<Rightarrow> 'p squeue \<Rightarrow> fault + bool \<times> 'p squeue" where
  "sq_enqueue sq seg q =
     (if sq seg = mExpectedSeqNo q
      then Inr (drain_pending sq (mPendingQueue q) True (push_main seg q))
      else and_then (require (sq seg > mExpectedSeqNo q) Assertion_failure) (\<lambda>_.
           and_then (insert_pending sq seg (mPendingQueue q)) (\<lambda>ps.
           Inr (drain_pending sq ps False q))))"

text \<open>\<open>front()\<close> of an empty list has no defined result.\<close>

definition sq_dequeue :: "'p squeue \<Rightarrow> fault + 'p \<times> 'p squeue" where
  "sq_dequeue q = (case mMainQueue q of
     [] \<Rightarrow> Inl Empty_front
   | p # ps \<Rightarrow> Inr (p, q\<lparr>mMainQueue := ps, mQueueLength := counter_decrease (mQueueLength q)\<rparr>))"

definition get_queue_length :: "'p squeue \<Rightarrow> i32" where
  "get_queue_length q = mValue (mQueueLength q)"

definition get_expected_seq_no :: "'p squeue \<Rightarrow> u32" where
  "get_expected_seq_no q = mExpectedSeqNo q"

section \<open>The contract of a reassembly queue\<close>

text \<open>Feeding a list of segments, and taking \<open>n\<close> segments, with any queue operations.\<close>

fun enq_all :: "('p \<Rightarrow> 'q \<Rightarrow> fault + bool \<times> 'q) \<Rightarrow> 'p list \<Rightarrow> 'q \<Rightarrow> fault + 'q" where
  "enq_all enq [] q = Inr q"
| "enq_all enq (p # ps) q = and_then (enq p q) (\<lambda>r. enq_all enq ps (snd r))"

fun deq_n :: "('q \<Rightarrow> fault + 'p \<times> 'q) \<Rightarrow> nat \<Rightarrow> 'q \<Rightarrow> fault + 'p list \<times> 'q" where
  "deq_n deq 0 q = Inr ([], q)"
| "deq_n deq (Suc n) q =
     and_then (deq q) (\<lambda>r. and_then (deq_n deq n (snd r)) (\<lambda>s. Inr (fst r # fst s, snd s)))"

text \<open>
  What the transport relies on: \<open>repr d R q\<close> says that the segments of the set \<open>R\<close> have been
  accepted so far and that the \<open>d\<close> first numbers have been handed out. A new number is always
  accepted; whenever the number \<open>d\<close> has arrived, the next segment handed out carries it.
\<close>

locale reassembly =
  fixes empty :: 'q
    and enq :: "'p \<Rightarrow> 'q \<Rightarrow> fault + bool \<times> 'q"
    and deq :: "'q \<Rightarrow> fault + 'p \<times> 'q"
    and num :: "'p \<Rightarrow> nat"
    and bound :: nat
    and repr :: "nat \<Rightarrow> 'p set \<Rightarrow> 'q \<Rightarrow> bool"
  assumes repr_empty: "repr 0 {} empty"
    and enq_new: "repr d R q \<Longrightarrow> num p \<notin> num ` R \<Longrightarrow> num p < bound \<Longrightarrow>
      \<exists>b q'. enq p q = Inr (b, q') \<and> repr d (insert p R) q'"
    and deq_next: "repr d R q \<Longrightarrow> d \<in> num ` R \<Longrightarrow>
      \<exists>p q'. deq q = Inr (p, q') \<and> p \<in> R \<and> num p = d \<and> repr (Suc d) R q'"
begin

lemma enq_all_ok:
  assumes "repr d R q" "distinct (map num ps)" "num ` set ps \<inter> num ` R = {}"
    and "\<forall>p\<in>set ps. num p < bound"
  shows "\<exists>q'. enq_all enq ps q = Inr q' \<and> repr d (set ps \<union> R) q'"
  using assms
proof (induction ps arbitrary: q R)
  case (Cons p ps)
  then have "num p \<notin> num ` R" "num p < bound" by auto
  with enq_new Cons.prems(1) obtain b q1
    where q1: "enq p q = Inr (b, q1)" "repr d (insert p R) q1" by blast
  have disj: "num ` set ps \<inter> num ` insert p R = {}"
    using Cons.prems(2,3) by auto
  from Cons.IH [OF q1(2) _ disj] Cons.prems(2,4) obtain q'
    where "enq_all enq ps q1 = Inr q'" "repr d (set ps \<union> insert p R) q'" by auto
  with q1 show ?case by (simp add: insert_is_Un [symmetric])
qed simp

lemma deq_n_ok:
  assumes "repr d R q" "{d..<d + n} \<subseteq> num ` R"
  shows "\<exists>ps q'. deq_n deq n q = Inr (ps, q') \<and> set ps \<subseteq> R \<and> map num ps = [d..<d + n] \<and> repr (d + n) R q'"
  using assms
proof (induction n arbitrary: d q)
  case (Suc n)
  then have "d \<in> num ` R" by auto
  with deq_next Suc.prems(1) obtain p q1
    where p: "deq q = Inr (p, q1)" "p \<in> R" "num p = d" "repr (Suc d) R q1" by blast
  have "{Suc d..<Suc d + n} \<subseteq> num ` R" using Suc.prems(2) by auto
  from Suc.IH [OF p(4) this] obtain ps q' where
    "deq_n deq n q1 = Inr (ps, q')" "set ps \<subseteq> R" "map num ps = [Suc d..<Suc d + n]"
    "repr (Suc d + n) R q'" by blast
  with p show ?case by (simp add: upt_conv_Cons)
qed simp

text \<open>In any order of arrival the whole stream comes out, in order, each segment once.\<close>

lemma in_order_delivery:
  assumes "distinct (map num ps)" "num ` set ps = {..<n}" "n \<le> bound"
  shows "\<exists>q ps' q'. enq_all enq ps empty = Inr q \<and> deq_n deq n q = Inr (ps', q')
    \<and> set ps' \<subseteq> set ps \<and> map num ps' = [0..<n]"
proof -
  have "num p < bound" if "p \<in> set ps" for p
    using assms(2,3) that by (metis image_eqI lessThan_iff less_le_trans)
  with assms(1) obtain q where q: "enq_all enq ps empty = Inr q" "repr 0 (set ps) q"
    using enq_all_ok [OF repr_empty, of ps] by auto
  from deq_n_ok [OF q(2), of n] assms(2) q(1) show ?thesis by (auto simp: atLeast0LessThan)
qed

end

section \<open>The queue meets the contract\<close>

abbreviation seqn :: "('p \<Rightarrow> u32) \<Rightarrow> 'p \<Rightarrow> nat" where
  "seqn sq p \<equiv> unat (sq p)"

text \<open>
  The representation: a number \<open>e\<close> (the expected one) such that everything below it has arrived, the
  main queue holds \<open>d\<close> to \<open>e - 1\<close>, and the pending queue holds, strictly sorted, the arrived
  segments above \<open>e\<close>. Numbers stay below the largest 32-bit value, so that the expected number does
  not wrap.
\<close>

definition queue_repr :: "('p \<Rightarrow> u32) \<Rightarrow> nat \<Rightarrow> 'p set \<Rightarrow> 'p squeue \<Rightarrow> bool" where
  "queue_repr sq d R q \<longleftrightarrow> (let e = unat (mExpectedSeqNo q) in
     d \<le> e \<and> {..<d} \<subseteq> seqn sq ` R \<and> e \<notin> seqn sq ` R
     \<and> map (seqn sq) (mMainQueue q) = [d..<e]
     \<and> sorted_wrt (<) (map (seqn sq) (mPendingQueue q))
     \<and> set (mMainQueue q) \<subseteq> R \<and> set (mPendingQueue q) = {p \<in> R. e < seqn sq p}
     \<and> (\<forall>p\<in>R. seqn sq p < 2 ^ 32 - 1)
     \<and> mValue (mQueueLength q) = of_nat (e - d))"

lemma insert_pending_new:
  assumes "sorted_wrt (<) (map (seqn sq) ws)" "seqn sq p \<notin> seqn sq ` set ws"
  shows "\<exists>ws'. insert_pending sq p ws = Inr ws' \<and> set ws' = insert p (set ws)
    \<and> sorted_wrt (<) (map (seqn sq) ws')"
  using assms
proof (induction ws)
  case (Cons w ws)
  have ne: "sq w \<noteq> sq p" using Cons.prems(2) by auto
  show ?case
  proof (cases "sq w > sq p")
    case True
    with ne Cons.prems show ?thesis
      by (auto simp: word_less_nat_alt intro: less_trans)
  next
    case False
    with ne have lt: "seqn sq w < seqn sq p"
      by (simp add: word_less_nat_alt word_unat_eq_iff)
    from Cons obtain ws' where "insert_pending sq p ws = Inr ws'" "set ws' = insert p (set ws)"
      "sorted_wrt (<) (map (seqn sq) ws')" by auto
    with False ne lt Cons.prems(1) show ?thesis by auto
  qed
qed simp

lemma insert_pending_duplicate:
  assumes "sorted_wrt (<) (map (seqn sq) ws)" "sq p \<in> sq ` set ws"
  shows "insert_pending sq p ws = Inl Assertion_failure"
  using assms
proof (induction ws)
  case (Cons w ws)
  show ?case
  proof (cases "sq w = sq p")
    case False
    with Cons.prems(2) obtain v where v: "v \<in> set ws" "sq v = sq p" by auto
    with Cons.prems(1) have "seqn sq w < seqn sq p" by auto
    then have "\<not> sq w > sq p" by (simp add: word_less_nat_alt)
    with False v Cons show ?thesis by force
  qed simp
qed simp

lemma drain_pending_moves:
  assumes "drain_pending sq ps cont q = (cont', q')"
    and "sorted_wrt (<) (map (seqn sq) ps)" "\<forall>p\<in>set ps. unat (mExpectedSeqNo q) \<le> seqn sq p"
    and "\<forall>p\<in>set ps. seqn sq p < 2 ^ 32 - 1"
  shows "\<exists>moved. ps = moved @ mPendingQueue q'
    \<and> mMainQueue q' = mMainQueue q @ moved
    \<and> map (seqn sq) moved = [unat (mExpectedSeqNo q)..<unat (mExpectedSeqNo q')]
    \<and> unat (mExpectedSeqNo q) \<le> unat (mExpectedSeqNo q')
    \<and> (\<forall>p\<in>set (mPendingQueue q'). unat (mExpectedSeqNo q') < seqn sq p)
    \<and> mValue (mQueueLength q') = mValue (mQueueLength q) + of_nat (length moved)
    \<and> (cont' \<longleftrightarrow> cont \<or> moved \<noteq> [])"
  using assms
proof (induction sq ps cont q rule: drain_pending.induct)
  case (1 sq cont q)
  then show ?case by auto
next
  case (2 sq p ps cont q)
  let ?e = "unat (mExpectedSeqNo q)"
  show ?case
  proof (cases "sq p = mExpectedSeqNo q")
    case True
    let ?q = "push_main p q"
    from True "2.prems"(4) have bnd: "?e < 2 ^ 32 - 1" by auto
    then have e: "unat (mExpectedSeqNo ?q) = Suc ?e"
      by (simp add: push_main_def unat_word_ariths)
    from "2.prems"(2) True have "\<forall>r\<in>set ps. unat (mExpectedSeqNo ?q) \<le> seqn sq r"
      by (auto simp: e Suc_le_eq)
    moreover from True "2.prems"(1) have "drain_pending sq ps True ?q = (cont', q')" by simp
    ultimately obtain moved where m: "ps = moved @ mPendingQueue q'"
      "mMainQueue q' = mMainQueue ?q @ moved"
      "map (seqn sq) moved = [Suc ?e..<unat (mExpectedSeqNo q')]"
      "Suc ?e \<le> unat (mExpectedSeqNo q')"
      "\<forall>p\<in>set (mPendingQueue q'). unat (mExpectedSeqNo q') < seqn sq p"
      "mValue (mQueueLength q') = mValue (mQueueLength ?q) + of_nat (length moved)" "cont'"
      using "2.IH" [OF True] "2.prems"(2,4) e by auto
    then have "?e < unat (mExpectedSeqNo q')" by simp
    with m True show ?thesis
      by (intro exI [of _ "p # moved"]) (auto simp: push_main_def upt_conv_Cons)
  next
    case False
    with "2.prems" have "?e < seqn sq p" by (auto simp: le_less word_unat_eq_iff)
    with "2.prems"(2) have "\<forall>r\<in>set (p # ps). ?e < seqn sq r" by (auto intro: less_trans)
    with "2.prems"(1) False show ?thesis by auto
  qed
qed

text \<open>Draining re-establishes the representation when everything waiting is at or above \<open>e\<close>.\<close>

lemma drain_repr:
  fixes q :: "'p squeue"
  assumes d: "drain_pending sq ps c q = (c', q')" and "sorted_wrt (<) (map (seqn sq) ps)"
    and "d \<le> unat (mExpectedSeqNo q)" "{..<d} \<subseteq> seqn sq ` R"
    and main: "map (seqn sq) (mMainQueue q) = [d..<unat (mExpectedSeqNo q)]" "set (mMainQueue q) \<subseteq> R"
    and ps: "set ps = {p \<in> R. unat (mExpectedSeqNo q) \<le> seqn sq p}"
    and "\<forall>p\<in>R. seqn sq p < 2 ^ 32 - 1"
    and cnt: "mValue (mQueueLength q) = of_nat (unat (mExpectedSeqNo q) - d)"
  shows "queue_repr sq d R q'"
proof -
  let ?e = "unat (mExpectedSeqNo q)" and ?e' = "unat (mExpectedSeqNo q')"
  have ge: "\<forall>p\<in>set ps. ?e \<le> seqn sq p" and lt: "\<forall>p\<in>set ps. seqn sq p < 2 ^ 32 - 1"
    using ps assms(8) by auto
  obtain moved where m: "ps = moved @ mPendingQueue q'" "mMainQueue q' = mMainQueue q @ moved"
    "map (seqn sq) moved = [?e..<?e']" "?e \<le> ?e'"
    "\<forall>p\<in>set (mPendingQueue q'). ?e' < seqn sq p"
    "mValue (mQueueLength q') = mValue (mQueueLength q) + of_nat (length moved)"
    using drain_pending_moves [OF d assms(2) ge lt] by blast
  have moved: "seqn sq ` set moved = {?e..<?e'}" "length moved = ?e' - ?e"
    using arg_cong [OF m(3), of set] arg_cong [OF m(3), of length] by simp_all
  have split: "set ps = set moved \<union> set (mPendingQueue q')" using m(1) by simp
  have "?e' \<notin> seqn sq ` R"
  proof
    assume "?e' \<in> seqn sq ` R"
    then obtain r where r: "r \<in> R" "seqn sq r = ?e'" by auto
    then have "r \<in> set ps" unfolding ps using m(4) by simp
    then have "r \<in> set moved \<or> r \<in> set (mPendingQueue q')" unfolding split by simp
    then show False
    proof
      assume "r \<in> set moved"
      then have "seqn sq r \<in> {?e..<?e'}" unfolding moved(1) [symmetric] by (rule imageI)
      with r(2) show False by simp
    qed (use m(5) r(2) in auto)
  qed
  moreover have "set (mPendingQueue q') = {p \<in> R. ?e' < seqn sq p}"
  proof (intro set_eqI iffI)
    fix p assume "p \<in> {p \<in> R. ?e' < seqn sq p}"
    then have p: "?e' < seqn sq p" "p \<in> set ps" using ps m(4) by auto
    have "p \<notin> set moved"
    proof
      assume "p \<in> set moved"
      then have "seqn sq p \<in> {?e..<?e'}" unfolding moved(1) [symmetric] by (rule imageI)
      with p(1) show False by simp
    qed
    with p(2) split show "p \<in> set (mPendingQueue q')" by blast
  next
    fix p assume "p \<in> set (mPendingQueue q')"
    with split ps m(5) show "p \<in> {p \<in> R. ?e' < seqn sq p}" by auto
  qed
  moreover have "map (seqn sq) (mMainQueue q') = [d..<?e']"
    using m(2-4) main(1) assms(3) upt_add_eq_append [of d ?e "?e' - ?e"] by simp
  moreover have "sorted_wrt (<) (map (seqn sq) (mPendingQueue q'))"
    using assms(2) m(1) by (simp add: sorted_wrt_append)
  moreover have "set (mMainQueue q') \<subseteq> R" using m(2) main(2) split ps by auto
  moreover have "mValue (mQueueLength q') = of_nat (?e' - d)"
    using m(4,6) cnt moved(2) assms(3) by (simp flip: of_nat_add)
  ultimately show ?thesis
    using assms(3,4,8) m(4) by (simp add: queue_repr_def Let_def)
qed

lemma queue_reprD:
  assumes "queue_repr sq d R q"
  shows "d \<le> unat (mExpectedSeqNo q)" "{..<d} \<subseteq> seqn sq ` R"
    "unat (mExpectedSeqNo q) \<notin> seqn sq ` R"
    "map (seqn sq) (mMainQueue q) = [d..<unat (mExpectedSeqNo q)]"
    "sorted_wrt (<) (map (seqn sq) (mPendingQueue q))"
    "set (mMainQueue q) \<subseteq> R" "set (mPendingQueue q) = {p \<in> R. unat (mExpectedSeqNo q) < seqn sq p}"
    "\<And>p. p \<in> R \<Longrightarrow> seqn sq p < 2 ^ 32 - 1"
    "mValue (mQueueLength q) = of_nat (unat (mExpectedSeqNo q) - d)"
  using assms unfolding queue_repr_def Let_def by blast+

lemma queue_repr_empty: "queue_repr sq 0 {} (squeue_ctor (counter_ctor ptr on tot cnt))"
  by (simp add: queue_repr_def squeue_ctor_def)

lemma queue_repr_below:
  assumes "queue_repr sq d R q"
  shows "{..<unat (mExpectedSeqNo q)} \<subseteq> seqn sq ` R"
proof
  fix k assume "k \<in> {..<unat (mExpectedSeqNo q)}"
  then consider "k < d" | "k \<in> {d..<unat (mExpectedSeqNo q)}" by fastforce
  then show "k \<in> seqn sq ` R"
  proof cases
    case 2
    then have "k \<in> seqn sq ` set (mMainQueue q)"
      using arg_cong [OF queue_reprD(4) [OF assms], of set] by simp
    with queue_reprD(6) [OF assms] show ?thesis by blast
  qed (use queue_reprD(2) [OF assms] in blast)
qed

lemma sq_enqueue_next:
  assumes q: "queue_repr sq d R q" and p: "sq p = mExpectedSeqNo q" "seqn sq p < 2 ^ 32 - 1"
  shows "\<exists>q'. sq_enqueue sq p q = Inr (True, q') \<and> queue_repr sq d (insert p R) q'"
proof -
  let ?e = "unat (mExpectedSeqNo q)" and ?q = "push_main p q"
  note r = queue_reprD [OF q]
  obtain c' q2 where dr: "drain_pending sq (mPendingQueue q) True ?q = (c', q2)" by fastforce
  have e: "unat (mExpectedSeqNo ?q) = Suc ?e"
    using p by (simp add: push_main_def unat_word_ariths)
  have ps: "set (mPendingQueue q) = {r \<in> insert p R. unat (mExpectedSeqNo ?q) \<le> seqn sq r}"
    unfolding r(7) e Suc_le_eq using p(1) by auto
  have sd: "Suc ?e - d = Suc (?e - d)" using r(1) by simp
  have "queue_repr sq d (insert p R) q2"
  proof (rule drain_repr [OF dr r(5) _ _ _ _ ps])
    show "map (seqn sq) (mMainQueue ?q) = [d..<unat (mExpectedSeqNo ?q)]"
      using r(1,4) p(1) unfolding e by (simp add: push_main_def)
    show "mValue (mQueueLength ?q) = of_nat (unat (mExpectedSeqNo ?q) - d)"
      unfolding e sd using r(9) by (simp add: push_main_def)
    show "{..<d} \<subseteq> seqn sq ` insert p R" using r(2) by blast
    show "set (mMainQueue ?q) \<subseteq> insert p R" using r(6) by (auto simp: push_main_def)
    show "\<forall>r\<in>insert p R. seqn sq r < 2 ^ 32 - 1" using r(8) p(2) by blast
    show "d \<le> unat (mExpectedSeqNo ?q)" unfolding e using r(1) by simp
  qed
  moreover have "c'"
    using drain_pending_moves [OF dr r(5)] ps r(8) p(2) by fastforce
  ultimately show ?thesis using dr p(1) by (simp add: sq_enqueue_def)
qed

lemma sq_enqueue_later:
  assumes q: "queue_repr sq d R q" and p: "sq p > mExpectedSeqNo q" "seqn sq p < 2 ^ 32 - 1"
    "seqn sq p \<notin> seqn sq ` R"
  shows "\<exists>q'. sq_enqueue sq p q = Inr (False, q') \<and> queue_repr sq d (insert p R) q'
    \<and> mMainQueue q' = mMainQueue q"
proof -
  let ?e = "unat (mExpectedSeqNo q)"
  note r = queue_reprD [OF q]
  have lt: "?e < seqn sq p" using p(1) by (simp add: word_less_nat_alt)
  have "seqn sq p \<notin> seqn sq ` set (mPendingQueue q)" unfolding r(7) using p(3) by blast
  then obtain ws where ws: "insert_pending sq p (mPendingQueue q) = Inr ws"
    "set ws = insert p (set (mPendingQueue q))" "sorted_wrt (<) (map (seqn sq) ws)"
    using insert_pending_new [OF r(5)] by blast
  have ne: "ws \<noteq> []" using ws(2) by auto
  have hd: "sq (hd ws) \<noteq> mExpectedSeqNo q"
  proof -
    have "hd ws \<in> set ws" using ne by simp
    then have "?e < seqn sq (hd ws)" unfolding ws(2) r(7) using lt by auto
    then show ?thesis by auto
  qed
  then have dr: "drain_pending sq ws False q = (False, q\<lparr>mPendingQueue := ws\<rparr>)"
    using ne by (cases ws) auto
  have "queue_repr sq d (insert p R) (q\<lparr>mPendingQueue := ws\<rparr>)"
  proof (rule drain_repr [OF dr ws(3)])
    have "?e \<noteq> seqn sq x" if "x \<in> R" for x using r(3) that by blast
    then show "set ws = {r \<in> insert p R. ?e \<le> seqn sq r}"
      unfolding ws(2) r(7) using lt by (auto simp: le_less)
    show "{..<d} \<subseteq> seqn sq ` insert p R" using r(2) by blast
    show "set (mMainQueue q) \<subseteq> insert p R" using r(6) by blast
    show "\<forall>r\<in>insert p R. seqn sq r < 2 ^ 32 - 1" using r(8) p(2) by blast
  qed (fact r)+
  moreover have "sq p \<noteq> mExpectedSeqNo q" using p(1) by auto
  ultimately show ?thesis using dr ws(1) p(1) by (simp add: sq_enqueue_def)
qed

lemma sq_enqueue_repr:
  assumes q: "queue_repr sq d R q" and new: "seqn sq p \<notin> seqn sq ` R" and b: "seqn sq p < 2 ^ 32 - 1"
  shows "\<exists>b q'. sq_enqueue sq p q = Inr (b, q') \<and> queue_repr sq d (insert p R) q'"
proof (cases "sq p = mExpectedSeqNo q")
  case True
  from sq_enqueue_next [OF q True b] show ?thesis by blast
next
  case False
  have "seqn sq p \<notin> {..<unat (mExpectedSeqNo q)}" using queue_repr_below [OF q] new by blast
  with False have "sq p > mExpectedSeqNo q"
    by (simp add: word_less_nat_alt le_less word_unat_eq_iff)
  from sq_enqueue_later [OF q this b new] show ?thesis by blast
qed

lemma sq_dequeue_repr:
  assumes q: "queue_repr sq d R q" and d: "d \<in> seqn sq ` R"
  shows "\<exists>p q'. sq_dequeue q = Inr (p, q') \<and> p \<in> R \<and> seqn sq p = d \<and> queue_repr sq (Suc d) R q'"
proof -
  let ?e = "unat (mExpectedSeqNo q)"
  note r = queue_reprD [OF q]
  have "d \<noteq> ?e" using r(3) d by metis
  with r(1) have e: "[d..<?e] = d # [Suc d..<?e]" "Suc d \<le> ?e" "?e - d = Suc (?e - Suc d)"
    by (simp_all add: upt_conv_Cons)
  then obtain p ps where m: "mMainQueue q = p # ps" "seqn sq p = d" "map (seqn sq) ps = [Suc d..<?e]"
    using r(4) by (cases "mMainQueue q") auto
  let ?q = "q\<lparr>mMainQueue := ps, mQueueLength := counter_decrease (mQueueLength q)\<rparr>"
  have "{..<Suc d} \<subseteq> seqn sq ` R" using r(2) d by (simp add: lessThan_Suc)
  moreover have "mValue (mQueueLength ?q) = of_nat (?e - Suc d)" using r(9) e(3) by simp
  ultimately have "queue_repr sq (Suc d) R ?q"
    unfolding queue_repr_def Let_def using r(3,5-8) e(2) m by simp
  moreover have "p \<in> R" using r(6) m(1) by simp
  ultimately show ?thesis using m(1,2) by (simp add: sq_dequeue_def)
qed

interpretation rq: reassembly "squeue_ctor (counter_ctor ptr on tot cnt)" "sq_enqueue sq"
    sq_dequeue "seqn sq" "2 ^ 32 - 1" "queue_repr sq" for ptr on tot cnt sq
  by unfold_locales (rule queue_repr_empty sq_enqueue_repr sq_dequeue_repr; assumption)+

section \<open>Properties\<close>

text \<open>
  C19: whatever the order in which the segments numbered 0 to n - 1 arrive, the queue accepts all of
  them and hands them out in the order of their numbers, each once.
\<close>

theorem out_of_order_arrival_reassembled:
  assumes "distinct (map (seqn sq) ps)" "seqn sq ` set ps = {..<n}" "n \<le> 2 ^ 32 - 1"
  shows "\<exists>q ps' q'. enq_all (sq_enqueue sq) ps (squeue_ctor (counter_ctor ptr on tot cnt)) = Inr q
    \<and> deq_n sq_dequeue n q = Inr (ps', q') \<and> set ps' \<subseteq> set ps \<and> map (seqn sq) ps' = [0..<n]"
  by (rule rq.in_order_delivery [OF assms])

theorem out_of_order_arrival_reassembled_witness:
  "\<exists>q ps' q'. enq_all (sq_enqueue id) [2, 0, 1] (squeue_ctor (counter_ctor 0 True 0 0)) = Inr q
    \<and> deq_n sq_dequeue 3 q = Inr (ps', q') \<and> set ps' \<subseteq> {2, 0, 1} \<and> map unat ps' = [0, 1, 2]"
proof -
  have "distinct (map (seqn id) [2, 0, 1 :: u32])" by simp
  moreover have "seqn id ` set [2, 0, 1 :: u32] = {..<3}" by auto
  moreover have "3 \<le> (2 ^ 32 - 1 :: nat)" by simp
  moreover have "[0..<3] = [0, 1, 2]" by (simp add: upt_rec)
  ultimately show ?thesis
    using out_of_order_arrival_reassembled [of id "[2, 0, 1 :: u32]" 3 0 True 0 0] by simp
qed

text \<open>
  A segment that comes again after the queue has moved past its number, as a retransmitted one
  can, fails the assertion of \<open>enqueue\<close> and stops the program.
\<close>

lemma late_duplicate_stops_program:
  assumes "sq p < mExpectedSeqNo q"
  shows "sq_enqueue sq p q = Inl Assertion_failure"
  using assms by (auto simp: sq_enqueue_def require_def)

end
