(* ===== verification/Protocol.thy ===== *)
theory Protocol
  imports Prelude
begin

text \<open>
  The packet format of \<open>sc::ProtocolManager\<close> (linux/core/src/ProtocolManager.cpp): a 6-byte header,
  the packet id and the payload length in network byte order, in front of the payload. The part of
  the class that talks to the segment manager is in theory \<open>Transport\<close>.
\<close>

definition kProtHeaderSize :: nat where "kProtHeaderSize = 6"

record protocol_data =
  pd_id :: u16
  pd_len :: u32
  pd_data :: "u8 list"

text \<open>The packet counter \<open>sPacketId\<close> is static; it is passed in and the next value returned.\<close>

definition data_to_protocol_data :: "u8 list \<Rightarrow> u32 \<Rightarrow> u16 \<Rightarrow> protocol_data \<times> u16" where
  "data_to_protocol_data dat dat_size sPacketId =
     (\<lparr>pd_id = sPacketId, pd_len = dat_size, pd_data = dat\<rparr>, sPacketId + 1)"

definition serialize_header :: "protocol_data \<Rightarrow> u8 list \<Rightarrow> fault + u8 list" where
  "serialize_header pd vec =
     and_then (write_mem 0 (be16 (pd_id pd)) vec) (write_mem 2 (be32 (pd_len pd)))"

definition serialize_data :: "u8 list \<Rightarrow> nat \<Rightarrow> u8 list \<Rightarrow> fault + u8 list" where
  "serialize_data bytes off vec = write_mem off bytes vec"

text \<open>
  The size of the vector is computed in 32 bits; the header and \<open>payload_size\<close> bytes of the buffer,
  from \<open>offset\<close> on, are copied into it.
\<close>

definition serialize :: "protocol_data \<Rightarrow> u8 list \<Rightarrow> u32 \<Rightarrow> u32 \<Rightarrow> fault + u8 list" where
  "serialize pd buf offset payload_size =
     (let data_offset = of_nat kProtHeaderSize;
          vector_size = data_offset + payload_size;
          vec = replicate (unat (vector_size :: u32)) 0
      in and_then (serialize_header pd vec) (\<lambda>vec1.
         and_then (read_mem (unat offset) (unat payload_size) buf) (\<lambda>bytes.
         serialize_data bytes (unat data_offset) vec1)))"

definition parse_header :: "u8 list \<Rightarrow> fault + protocol_data" where
  "parse_header serialized =
     and_then (read_mem 0 2 serialized) (\<lambda>net_id.
     and_then (read_mem 2 4 serialized) (\<lambda>net_len.
     Inr \<lparr>pd_id = of_be16 net_id, pd_len = of_be32 net_len, pd_data = []\<rparr>))"

section \<open>The packet is the header followed by the payload\<close>

lemma serialize_eq:
  assumes "length buf < 2 ^ 32 - 6" "pd_len pd = of_nat (length buf)"
  shows "serialize pd buf 0 (of_nat (length buf)) =
    Inr (be16 (pd_id pd) @ be32 (pd_len pd) @ buf)"
proof -
  have n: "unat (of_nat (length buf) :: u32) = length buf"
    using assms(1) by (simp add: unat_of_nat)
  have v: "unat (of_nat kProtHeaderSize + of_nat (length buf) :: u32) = 6 + length buf"
    using assms(1) by (simp add: kProtHeaderSize_def unat_word_ariths n)
  have r: "replicate (6 + length buf) (0::u8) = replicate 2 0 @ replicate 4 0 @ replicate (length buf) 0"
    by (simp add: replicate_add [symmetric])
  show ?thesis
    unfolding serialize_def Let_def v serialize_header_def serialize_data_def r
    by (simp add: n kProtHeaderSize_def read_mem_def write_mem_def bytes_at_def put_bytes_def)
qed

lemma parse_serialized:
  "parse_header (be16 i @ be32 n @ rest) = Inr \<lparr>pd_id = i, pd_len = n, pd_data = []\<rparr>"
  by (simp add: parse_header_def read_mem_def bytes_at_def)

lemma parse_header_take:
  assumes "6 \<le> length bs" "take 6 bs = take 6 cs" "6 \<le> length cs"
  shows "parse_header bs = parse_header cs"
proof -
  have "take 2 bs = take 2 cs" "take 4 (drop 2 bs) = take 4 (drop 2 cs)"
    using arg_cong [OF assms(2), of "take 2"] arg_cong [OF assms(2), of "drop 2"]
    by (simp_all add: drop_take)
  with assms(1,3) show ?thesis by (simp add: parse_header_def read_mem_def bytes_at_def)
qed

text \<open>
  A packet of less than \<open>2 ^ 32 - 6\<close> bytes is serialized without a fault into six bytes more, from
  which the header parser reads the identifier and the length back; the payload follows the header.
\<close>

lemma packet_header_roundtrip:
  assumes "length dat < 2 ^ 32 - 6" and "pd = fst (data_to_protocol_data dat (of_nat (length dat)) sid)"
  shows "\<exists>bs. serialize pd dat 0 (of_nat (length dat)) = Inr bs \<and> length bs = length dat + 6
    \<and> drop 6 bs = dat \<and> parse_header bs = Inr \<lparr>pd_id = pd_id pd, pd_len = of_nat (length dat), pd_data = []\<rparr>"
proof -
  have l: "pd_len pd = of_nat (length dat)" using assms(2) by (simp add: data_to_protocol_data_def)
  have "parse_header (be16 (pd_id pd) @ be32 (pd_len pd) @ dat)
      = Inr \<lparr>pd_id = pd_id pd, pd_len = of_nat (length dat), pd_data = []\<rparr>"
    unfolding parse_serialized l ..
  then show ?thesis using serialize_eq [OF assms(1) l] by simp
qed

end
