(* ===== verification/SegmentManager.thy ===== *)
theory SegmentManager
  imports SegmentQueue Protocol "HOL-Library.Multiset"
begin

text \<open>
  \<open>sc::SegmentManager\<close> (linux/core/src/SegmentManager.cpp and inc/SegmentManager.h): the four
  segment queues, the free list, the lists of failed and of sent segments, the sequence number
  counters. Segments live on the heap and the lists hold pointers; \<open>free\<close> ends the life of a
  segment, an address is never handed out twice and \<open>calloc\<close> succeeds. Each public operation runs
  under the mutex of the list it touches and is one atomic function here; a wait on a condition
  variable is the outcome \<open>Would_block\<close>. The condition variables that were notified are recorded.
\<close>

section \<open>Types and state\<close>

datatype queue_type = kSQSendData | kSQRecvData | kSQSendControl | kSQRecvControl | kSQUnknown
datatype deq_type = kDeqSendControlData | kDeqRecvData | kDeqRecvControl | kDeqUnknown
datatype sn_type = kSNData | kSNControl

datatype signal = Dequeue_cond deq_type | Wait_receiving_cond

type_synonym addr = nat

record seg_mgr =
  mem :: "addr \<Rightarrow> segment"
  live :: "addr set"
  next_addr :: addr
  mNextSeqNo :: "sn_type \<Rightarrow> u32"
  mSegmentQueues :: "queue_type \<Rightarrow> addr squeue"
  mFailedSegmentList :: "addr list"
  mSentSegmentLists :: "sn_type \<Rightarrow> addr list"
  mSendRequest :: counter
  mQueueArrivalSpeed :: counter
  mFailedSegmentListLength :: counter
  mFreeList :: "addr list"
  mFreeSegmentListSize :: u32
  mIsWaitReceiving :: bool
  mWaitSeqNoControl :: u32
  mWaitSeqNoData :: u32
  signals :: "signal list"

definition kSegFreeThreshold :: u32 where "kSegFreeThreshold = 256"

text \<open>The constructor; \<open>c\<close> is a freshly constructed counter.\<close>

definition seg_mgr_ctor :: "counter \<Rightarrow> seg_mgr" where
  "seg_mgr_ctor c = \<lparr>
     mem = (\<lambda>_. zero_segment), live = {}, next_addr = 0,
     mNextSeqNo = (\<lambda>_. 0),
     mSegmentQueues = (\<lambda>_. squeue_ctor c),
     mFailedSegmentList = [],
     mSentSegmentLists = (\<lambda>_. []),
     mSendRequest = fst (start_measure_speed c), mQueueArrivalSpeed = c, mFailedSegmentListLength = c,
     mFreeList = [], mFreeSegmentListSize = 0,
     mIsWaitReceiving = False, mWaitSeqNoControl = 0, mWaitSeqNoData = 0,
     signals = []\<rparr>"

abbreviation sqn :: "seg_mgr \<Rightarrow> addr \<Rightarrow> u32" where
  "sqn sm p \<equiv> seq_no (mem sm p)"

definition set_seg :: "addr \<Rightarrow> segment \<Rightarrow> seg_mgr \<Rightarrow> seg_mgr" where
  "set_seg p s sm = sm\<lparr>mem := (mem sm)(p := s)\<rparr>"

definition set_queue :: "queue_type \<Rightarrow> addr squeue \<Rightarrow> seg_mgr \<Rightarrow> seg_mgr" where
  "set_queue qt q sm = sm\<lparr>mSegmentQueues := (mSegmentQueues sm)(qt := q)\<rparr>"

definition notify :: "signal \<Rightarrow> seg_mgr \<Rightarrow> seg_mgr" where
  "notify sg sm = sm\<lparr>signals := signals sm @ [sg]\<rparr>"

definition wake_up_dequeue_waiting :: "deq_type \<Rightarrow> seg_mgr \<Rightarrow> seg_mgr" where
  "wake_up_dequeue_waiting dt sm = notify (Dequeue_cond dt) sm"

section \<open>Sequence numbers\<close>

definition get_next_seq_no :: "sn_type \<Rightarrow> u32 \<Rightarrow> seg_mgr \<Rightarrow> u32 \<times> seg_mgr" where
  "get_next_seq_no sn num_segments sm =
     (mNextSeqNo sm sn,
      sm\<lparr>mNextSeqNo := (mNextSeqNo sm)(sn := mNextSeqNo sm sn + num_segments)\<rparr>)"

section \<open>Free segments\<close>

text \<open>
  A recycled segment keeps its data and timestamps; only the three header fields are cleared.
\<close>

definition clear_header :: "segment \<Rightarrow> segment" where
  "clear_header s = s\<lparr>seq_no := 0, len := 0, flag := 0\<rparr>"

definition calloc_segment :: "seg_mgr \<Rightarrow> addr \<times> seg_mgr" where
  "calloc_segment sm = (let p = next_addr sm in
     (p, sm\<lparr>mem := (mem sm)(p := zero_segment), live := insert p (live sm), next_addr := Suc p\<rparr>))"

definition pop_free_segment :: "seg_mgr \<Rightarrow> fault + addr \<times> seg_mgr" where
  "pop_free_segment sm =
     (if mFreeSegmentListSize sm = 0
      then (case calloc_segment sm of (p, sm1) \<Rightarrow> Inr (p, set_seg p (clear_header (mem sm1 p)) sm1))
      else (case mFreeList sm of
              [] \<Rightarrow> Inl Empty_front
            | p # ps \<Rightarrow>
                Inr (p, set_seg p (clear_header (mem sm p))
                     (sm\<lparr>mFreeList := ps, mFreeSegmentListSize := mFreeSegmentListSize sm - 1\<rparr>))))"

text \<open>The list argument is the free list that is left.\<close>

fun shrink_loop :: "u32 \<Rightarrow> addr list \<Rightarrow> seg_mgr \<Rightarrow> fault + seg_mgr" where
  "shrink_loop threshold [] sm =
     (if mFreeSegmentListSize sm > threshold then Inl Empty_front else Inr (sm\<lparr>mFreeList := []\<rparr>))"
| "shrink_loop threshold (to_free # rest) sm =
     (if mFreeSegmentListSize sm > threshold
      then shrink_loop threshold rest
             (sm\<lparr>live := live sm - {to_free}, mFreeSegmentListSize := mFreeSegmentListSize sm - 1\<rparr>)
      else Inr (sm\<lparr>mFreeList := to_free # rest\<rparr>))"

definition shrink_free_segment_list :: "u32 \<Rightarrow> seg_mgr \<Rightarrow> fault + seg_mgr" where
  "shrink_free_segment_list threshold sm = shrink_loop threshold (mFreeList sm) sm"

definition shrink_if_big :: "seg_mgr \<Rightarrow> fault + seg_mgr" where
  "shrink_if_big sm =
     (if mFreeSegmentListSize sm > kSegFreeThreshold
      then shrink_free_segment_list (kSegFreeThreshold div 2) sm else Inr sm)"

definition add_free_segment_to_list :: "addr \<Rightarrow> seg_mgr \<Rightarrow> fault + seg_mgr" where
  "add_free_segment_to_list seg sm =
     shrink_if_big (sm\<lparr>mFreeList := seg # mFreeList sm,
                       mFreeSegmentListSize := mFreeSegmentListSize sm + 1\<rparr>)"

definition deallocate_all_the_free_segments :: "seg_mgr \<Rightarrow> fault + seg_mgr" where
  "deallocate_all_the_free_segments sm = shrink_free_segment_list 0 sm"

section \<open>Enqueue\<close>

definition queue_type_to_dequeue_type :: "queue_type \<Rightarrow> deq_type" where
  "queue_type_to_dequeue_type qt = (case qt of
     kSQRecvControl \<Rightarrow> kDeqRecvControl
   | kSQRecvData \<Rightarrow> kDeqRecvData
   | kSQSendControl \<Rightarrow> kDeqSendControlData
   | kSQSendData \<Rightarrow> kDeqSendControlData
   | kSQUnknown \<Rightarrow> kDeqUnknown)"

definition wait_receiving :: "u32 \<Rightarrow> u32 \<Rightarrow> seg_mgr \<Rightarrow> seg_mgr" where
  \<comment> \<open>the state in which the caller starts to wait for \<open>Wait_receiving_cond\<close>\<close>
  "wait_receiving wait_seq_no_control wait_seq_no_data sm =
     sm\<lparr>mIsWaitReceiving := True, mWaitSeqNoControl := wait_seq_no_control,
        mWaitSeqNoData := wait_seq_no_data\<rparr>"

definition check_receiving_done :: "seg_mgr \<Rightarrow> seg_mgr" where
  "check_receiving_done sm =
     (let expected_seq_no_control = get_expected_seq_no (mSegmentQueues sm kSQRecvControl);
          expected_seq_no_data = get_expected_seq_no (mSegmentQueues sm kSQRecvData)
      in if mIsWaitReceiving sm \<and> expected_seq_no_control \<ge> mWaitSeqNoControl sm
            \<and> expected_seq_no_data \<ge> mWaitSeqNoData sm
         then (notify Wait_receiving_cond sm)\<lparr>mIsWaitReceiving := False\<rparr> else sm)"

definition enqueue :: "queue_type \<Rightarrow> addr \<Rightarrow> seg_mgr \<Rightarrow> fault + seg_mgr" where
  "enqueue qt seg sm =
     and_then (require (qt \<noteq> kSQUnknown) Assertion_failure) (\<lambda>_.
     let dt = queue_type_to_dequeue_type qt in
     and_then (require (dt \<noteq> kDeqUnknown) Assertion_failure) (\<lambda>_.
     and_then (sq_enqueue (sqn sm) seg (mSegmentQueues sm qt)) (\<lambda>(continuous, q).
     let sm1 = set_queue qt q sm;
         sm2 = (if continuous then wake_up_dequeue_waiting dt sm1 else sm1);
         sm3 = (if qt = kSQSendControl \<or> qt = kSQSendData
                then sm2\<lparr>mSendRequest := counter_add (of_nat SEGMENT_DATA_SIZE) (mSendRequest sm2)\<rparr>
                else sm2)
     in Inr (check_receiving_done sm3))))"

section \<open>Dequeue\<close>

definition wait_for_dequeue_required :: "deq_type \<Rightarrow> seg_mgr \<Rightarrow> bool" where
  "wait_for_dequeue_required dt sm = (let n = (\<lambda>qt. get_queue_length (mSegmentQueues sm qt)) in
     case dt of
       kDeqSendControlData \<Rightarrow> n kSQSendControl = 0 \<and> n kSQSendData = 0
     | kDeqRecvControl \<Rightarrow> n kSQRecvControl = 0
     | kDeqRecvData \<Rightarrow> n kSQRecvData = 0
     | kDeqUnknown \<Rightarrow> False)"

definition get_target_queue_type :: "deq_type \<Rightarrow> seg_mgr \<Rightarrow> queue_type" where
  "get_target_queue_type dt sm = (case dt of
     kDeqSendControlData \<Rightarrow>
       if get_queue_length (mSegmentQueues sm kSQSendControl) \<noteq> 0 then kSQSendControl
       else if get_queue_length (mSegmentQueues sm kSQSendData) \<noteq> 0 then kSQSendData
       else kSQUnknown
   | kDeqRecvControl \<Rightarrow> kSQRecvControl
   | kDeqRecvData \<Rightarrow> kSQRecvData
   | kDeqUnknown \<Rightarrow> kSQUnknown)"

text \<open>The part after the wait, which also runs when the waiter is woken with nothing to dequeue.\<close>

definition dequeue_woken :: "deq_type \<Rightarrow> seg_mgr \<Rightarrow> fault + addr option \<times> seg_mgr" where
  "dequeue_woken dt sm =
     (let target = get_target_queue_type dt sm in
      if target = kSQUnknown then Inr (None, sm)
      else and_then (sq_dequeue (mSegmentQueues sm target)) (\<lambda>(seg, q).
           Inr (Some seg, set_queue target q sm)))"

definition dequeue :: "deq_type \<Rightarrow> seg_mgr \<Rightarrow> fault + addr option \<times> seg_mgr" where
  "dequeue dt sm =
     and_then (require (dt \<noteq> kDeqUnknown) Assertion_failure) (\<lambda>_.
     if wait_for_dequeue_required dt sm then Inl Would_block else dequeue_woken dt sm)"

section \<open>Sending\<close>

text \<open>One segment of a packet: the fields, then the header, then the payload bytes.\<close>

definition fill_segment ::
    "u8 list \<Rightarrow> u32 \<Rightarrow> nat \<Rightarrow> u32 \<Rightarrow> bool \<Rightarrow> i32 \<Rightarrow> i32 \<Rightarrow> segment \<Rightarrow> fault + segment" where
  "fill_segment bytes offset seg_len number is_control sec usec seg =
     (let fl = (if unat offset + seg_len < length bytes then kSegFlagMF else 0);
          fl = (if is_control then fl OR kSegFlagControl else fl);
          seg1 = serialize_segment_header (seg\<lparr>seq_no := number, len := of_nat seg_len, flag := fl,
                   send_start_ts_sec := sec, send_start_ts_usec := usec\<rparr>)
      in and_then (read_mem (unat offset) seg_len bytes) (\<lambda>chunk.
         and_then (write_mem kSegHeaderSize chunk (data seg1)) (\<lambda>d.
         Inr (seg1\<lparr>data := d\<rparr>))))"

text \<open>The loop over the segments; the first argument is the number of segments left.\<close>

fun send_loop ::
    "nat \<Rightarrow> u8 list \<Rightarrow> u32 \<Rightarrow> u32 \<Rightarrow> bool \<Rightarrow> i32 \<Rightarrow> i32 \<Rightarrow> seg_mgr \<Rightarrow> fault + seg_mgr" where
  "send_loop 0 bytes offset number is_control sec usec sm = Inr sm"
| "send_loop (Suc n) bytes offset number is_control sec usec sm =
     (let seg_len = (if length bytes - unat offset < kSegSize then length bytes - unat offset
                     else kSegSize)
      in and_then (pop_free_segment sm) (\<lambda>(p, sm1).
         and_then (fill_segment bytes offset seg_len number is_control sec usec (mem sm1 p)) (\<lambda>seg.
         and_then (enqueue (if is_control then kSQSendControl else kSQSendData) p (set_seg p seg sm1))
         (send_loop n bytes (offset + of_nat seg_len) (number + 1) is_control sec usec))))"

definition send_to_segment_manager ::
    "u8 list \<Rightarrow> bool \<Rightarrow> i32 \<Rightarrow> i32 \<Rightarrow> seg_mgr \<Rightarrow> fault + i32 \<times> seg_mgr" where
  "send_to_segment_manager bytes is_control sec usec sm =
     and_then (require (length bytes > 0) Assertion_failure) (\<lambda>_.
     let num_of_segments = of_nat ((length bytes + kSegSize - 1) div kSegSize) :: u32 in
     and_then (require ((length bytes + kSegSize - 1) div kSegSize < 2 ^ 32 - 1) Assertion_failure) (\<lambda>_.
     (case get_next_seq_no (if is_control then kSNControl else kSNData) num_of_segments sm of
        (allocated_seq_no, sm1) \<Rightarrow>
          and_then (send_loop (unat num_of_segments) bytes 0 allocated_seq_no is_control sec usec sm1)
          (\<lambda>sm2. Inr (0, sm2)))))"

section \<open>Receiving\<close>

text \<open>
  The continuation loop of \<open>recv_from_segment_manager\<close>. The offset is a \<open>uint16_t\<close>. Every round takes a
  segment from the main queue of \<open>dt\<close> or blocks when it is empty, so the length of that queue
  bounds the number of rounds; with no rounds left the queue is empty.
\<close>

fun recv_loop :: "nat \<Rightarrow> deq_type \<Rightarrow> u16 \<Rightarrow> u8 list \<Rightarrow> seg_mgr \<Rightarrow> fault + u8 list \<times> seg_mgr" where
  "recv_loop 0 dt offset serialized sm = Inl Would_block"
| "recv_loop (Suc n) dt offset serialized sm =
     and_then (dequeue dt sm) (\<lambda>(r, sm1). case r of
       None \<Rightarrow> Inl Null_dereference
     | Some p \<Rightarrow>
        (let seg = mem sm1 p; data_size = unat (len seg) in
         and_then (read_mem kSegHeaderSize data_size (data seg)) (\<lambda>chunk.
         and_then (write_mem (unat offset) chunk serialized) (\<lambda>serialized1.
         and_then (add_free_segment_to_list p sm1) (\<lambda>sm2.
         if has_more_fragments seg
         then recv_loop n dt (offset + of_nat data_size) serialized1 sm2
         else Inr (serialized1, sm2))))))"

definition recv_queue :: "bool \<Rightarrow> queue_type" where
  "recv_queue is_control = (if is_control then kSQRecvControl else kSQRecvData)"

definition recv_from_segment_manager ::
    "bool \<Rightarrow> seg_mgr \<Rightarrow> fault + (protocol_data \<times> u8 list option) \<times> seg_mgr" where
  "recv_from_segment_manager is_control sm =
     (let dt = (if is_control then kDeqRecvControl else kDeqRecvData) in
      and_then (dequeue dt sm) (\<lambda>(r, sm1). case r of
        None \<Rightarrow> Inl Would_block
      | Some p \<Rightarrow>
        (let seg = mem sm1 p in
         and_then (parse_header (drop kSegHeaderSize (data seg))) (\<lambda>pd.
         if pd_len pd = 0 then Inr ((pd, None), sm1)
         else
          (let serialized = replicate (unat (pd_len pd)) 0;
               data_size = unat (len seg - of_nat kProtHeaderSize) in
           and_then (read_mem (kSegHeaderSize + kProtHeaderSize) data_size (data seg)) (\<lambda>chunk.
           and_then (write_mem 0 chunk serialized) (\<lambda>serialized1.
           and_then (add_free_segment_to_list p sm1) (\<lambda>sm2.
           if has_more_fragments seg
           then and_then (recv_loop (length (mMainQueue (mSegmentQueues sm2 (recv_queue is_control))))
                            dt (of_nat data_size) serialized1 sm2)
                (\<lambda>(buf, sm3). Inr ((pd, Some buf), sm3))
           else Inr ((pd, Some serialized1), sm2)))))))))"

section \<open>Failed segments\<close>

definition add_failed_segment_to_list :: "addr \<Rightarrow> seg_mgr \<Rightarrow> seg_mgr" where
  "add_failed_segment_to_list seg sm =
     sm\<lparr>mFailedSegmentList := mFailedSegmentList sm @ [seg],
        mFailedSegmentListLength := counter_increase (mFailedSegmentListLength sm)\<rparr>"

definition pop_failed_segment :: "seg_mgr \<Rightarrow> addr option \<times> seg_mgr" where
  "pop_failed_segment sm = (case mFailedSegmentList sm of
     [] \<Rightarrow> (None, sm)
   | p # ps \<Rightarrow> (Some p, sm\<lparr>mFailedSegmentList := ps,
       mFailedSegmentListLength := counter_decrease (mFailedSegmentListLength sm)\<rparr>))"

section \<open>Sent segments and retransmission\<close>

text \<open>
  One sent list: \<open>todo\<close> is the part not yet visited, \<open>kept\<close> the visited part that stays. Everything up
  to the acknowledged number goes to the free list.
\<close>

definition set_sent :: "sn_type \<Rightarrow> addr list \<Rightarrow> seg_mgr \<Rightarrow> seg_mgr" where
  "set_sent sn ps sm = sm\<lparr>mSentSegmentLists := (mSentSegmentLists sm)(sn := ps)\<rparr>"

fun dealloc_sent :: "sn_type \<Rightarrow> u32 \<Rightarrow> addr list \<Rightarrow> addr list \<Rightarrow> seg_mgr \<Rightarrow> fault + seg_mgr" where
  "dealloc_sent sn last_seq kept [] sm = Inr sm"
| "dealloc_sent sn last_seq kept (p # todo) sm =
     (if sqn sm p \<le> last_seq
      then and_then (add_free_segment_to_list p sm) (\<lambda>sm1.
           dealloc_sent sn last_seq kept todo (set_sent sn (kept @ todo) sm1))
      else dealloc_sent sn last_seq (kept @ [p]) todo sm)"

definition deallocate_sent_segments_by_peer :: "u32 \<Rightarrow> u32 \<Rightarrow> seg_mgr \<Rightarrow> fault + seg_mgr" where
  "deallocate_sent_segments_by_peer last_seq_no_control last_seq_no_data sm =
     and_then (dealloc_sent kSNControl last_seq_no_control [] (mSentSegmentLists sm kSNControl) sm) (\<lambda>sm1.
     and_then (dealloc_sent kSNData last_seq_no_data [] (mSentSegmentLists sm1 kSNData) sm1)
     shrink_if_big)"

fun retransmit_loop :: "u32 \<Rightarrow> u32 \<Rightarrow> addr list \<Rightarrow> seg_mgr \<Rightarrow> seg_mgr" where
  "retransmit_loop seq_no_start seq_no_end [] sm = sm"
| "retransmit_loop seq_no_start seq_no_end (p # ps) sm =
     retransmit_loop seq_no_start seq_no_end ps
       (if sqn sm p \<ge> seq_no_start \<and> sqn sm p \<le> seq_no_end
        then add_failed_segment_to_list p sm else sm)"

definition retransmit_missing_segments_by_peer :: "i32 \<Rightarrow> u32 \<Rightarrow> u32 \<Rightarrow> seg_mgr \<Rightarrow> seg_mgr" where
  "retransmit_missing_segments_by_peer seg_type seq_no_start seq_no_end sm =
     (if sint seg_type < 0 \<or> sint seg_type \<ge> 2 then sm
      else retransmit_loop seq_no_start seq_no_end
             (mSentSegmentLists sm (if seg_type = 0 then kSNData else kSNControl)) sm)"

text \<open>The walk goes from the back of the list to the front: the argument is the reversed list.\<close>

fun insert_sent :: "(addr \<Rightarrow> u32) \<Rightarrow> addr \<Rightarrow> addr list \<Rightarrow> addr list" where
  "insert_sent sq seg [] = [seg]"
| "insert_sent sq seg (w # rest) =
     (if sq w < sq seg then seg # w # rest
      else if sq w > sq seg then w # insert_sent sq seg rest
      else w # rest)"

definition add_sent_segment_to_list :: "sn_type \<Rightarrow> addr \<Rightarrow> seg_mgr \<Rightarrow> seg_mgr" where
  "add_sent_segment_to_list sn seg sm =
     set_sent sn (rev (insert_sent (sqn sm) seg (rev (mSentSegmentLists sm sn)))) sm"

section \<open>Statistics\<close>

definition get_queue_data_size :: "queue_type \<Rightarrow> seg_mgr \<Rightarrow> i32" where
  "get_queue_data_size qt sm = get_queue_length (mSegmentQueues sm qt) * of_nat SEGMENT_DATA_SIZE"

definition get_failed_sending_queue_data_size :: "seg_mgr \<Rightarrow> i32" where
  "get_failed_sending_queue_data_size sm =
     mValue (mFailedSegmentListLength sm) * of_nat SEGMENT_DATA_SIZE"

definition update_queue_arrival_speed :: "u64 \<Rightarrow> seg_mgr \<Rightarrow> fault + seg_mgr" where
  "update_queue_arrival_speed now_us sm =
     and_then (get_speed_locked now_us (mSendRequest sm)) (\<lambda>send_request_per_sec.
     Inr (sm\<lparr>mQueueArrivalSpeed := set_value send_request_per_sec (mQueueArrivalSpeed sm)\<rparr>))"

text \<open>The exponential average is a \<open>float\<close> that the getter returns as an \<open>int\<close>.\<close>

definition get_ema_queue_arrival_speed :: "seg_mgr \<Rightarrow> fault + i32" where
  "get_ema_queue_arrival_speed sm = float_to_int (get_em_average (mQueueArrivalSpeed sm))"

end
