(* ===== verification/SegmentOwnership.thy ===== *)
theory SegmentOwnership
  imports SegmentManager
begin

text \<open>
  Ownership of segments. Every live segment is in at most one place: one of the lists of the
  segment manager, or in the hands of a thread that has popped it. The operations move a segment
  from one place to the next, so no list ever holds a freed segment and none is freed twice. The
  exception is retransmission, which puts the segments of the sent list on the failed list as well.
\<close>

section \<open>The invariant\<close>

definition queue_ptrs :: "addr squeue \<Rightarrow> addr multiset" where
  "queue_ptrs q = mset (mMainQueue q) + mset (mPendingQueue q)"

definition owned :: "seg_mgr \<Rightarrow> addr multiset" where
  "owned sm = mset (mFreeList sm) + mset (mFailedSegmentList sm)
     + mset (mSentSegmentLists sm kSNData) + mset (mSentSegmentLists sm kSNControl)
     + queue_ptrs (mSegmentQueues sm kSQSendData) + queue_ptrs (mSegmentQueues sm kSQRecvData)
     + queue_ptrs (mSegmentQueues sm kSQSendControl) + queue_ptrs (mSegmentQueues sm kSQRecvControl)"

text \<open>\<open>held\<close> are the segments in the hands of threads.\<close>

definition heap_wf :: "addr multiset \<Rightarrow> seg_mgr \<Rightarrow> bool" where
  "heap_wf held sm \<longleftrightarrow>
     (\<forall>p. count (held + owned sm) p \<le> 1)
     \<and> set_mset (held + owned sm) \<subseteq> live sm
     \<and> (\<forall>p\<in>live sm. p < next_addr sm \<and> segment_wf (mem sm p))
     \<and> unat (mFreeSegmentListSize sm) = length (mFreeList sm)"

text \<open>Between operations the free list is also within the threshold.\<close>

definition sm_wf :: "addr multiset \<Rightarrow> seg_mgr \<Rightarrow> bool" where
  "sm_wf held sm \<longleftrightarrow> heap_wf held sm \<and> length (mFreeList sm) \<le> 256"

lemma sm_wf_ctor: "sm_wf {#} (seg_mgr_ctor c)"
  by (simp add: sm_wf_def heap_wf_def seg_mgr_ctor_def owned_def queue_ptrs_def squeue_ctor_def)

lemma heap_wfD:
  assumes "heap_wf held sm"
  shows "unat (mFreeSegmentListSize sm) = length (mFreeList sm)"
    "p \<in># held + owned sm \<Longrightarrow> p \<in> live sm" "p \<in> live sm \<Longrightarrow> segment_wf (mem sm p)"
    "p \<in> live sm \<Longrightarrow> p < next_addr sm" "count (held + owned sm) p \<le> 1"
  using assms by (auto simp: heap_wf_def)

lemma sm_wfD:
  assumes "sm_wf held sm"
  shows "heap_wf held sm" "length (mFreeList sm) \<le> 256"
  using assms by (simp_all add: sm_wf_def)

text \<open>
  The shape most operations have: the heap keeps its addresses, every live segment stays a
  segment, and what is held and owned together does not grow.
\<close>

lemma sm_wf_step:
  assumes "sm_wf held sm" and "held' + owned sm' \<subseteq># held + owned sm"
    and "live sm' = live sm" "next_addr sm' = next_addr sm"
    and "\<And>p. p \<in> live sm \<Longrightarrow> segment_wf (mem sm p) \<Longrightarrow> segment_wf (mem sm' p)"
    and "unat (mFreeSegmentListSize sm') = length (mFreeList sm')" "length (mFreeList sm') \<le> 256"
  shows "sm_wf held' sm'"
proof -
  note d = heap_wfD [OF sm_wfD(1) [OF assms(1)]]
  have "count (held' + owned sm') p \<le> 1" for p
    using d(5) [of p] mset_subset_eq_count [OF assms(2), of p] by linarith
  moreover have "set_mset (held' + owned sm') \<subseteq> live sm'"
    using set_mset_mono [OF assms(2)] d(2) unfolding assms(3) by blast
  ultimately show ?thesis using assms(3-) d(3,4) by (simp add: sm_wf_def heap_wf_def)
qed

section \<open>Queues\<close>

lemma insert_pending_mset:
  "insert_pending sq p ws = Inr ws' \<Longrightarrow> mset ws' = add_mset p (mset ws)"
  by (induction ws arbitrary: ws') (auto simp: and_then_eq_Inr split: if_splits)

lemma drain_pending_ptrs:
  "drain_pending sq ps c q = (c', q') \<Longrightarrow> queue_ptrs q' = mset (mMainQueue q) + mset ps"
  by (induction sq ps c q rule: drain_pending.induct)
    (auto simp: queue_ptrs_def push_main_def split: if_splits)

lemma sq_enqueue_ptrs:
  assumes "sq_enqueue sq p q = Inr (c, q')"
  shows "queue_ptrs q' = add_mset p (queue_ptrs q)"
  using assms
  by (auto simp: sq_enqueue_def and_then_eq_Inr queue_ptrs_def push_main_def
      dest!: drain_pending_ptrs insert_pending_mset split: if_splits)

lemma sq_dequeue_ptrs:
  "sq_dequeue q = Inr (p, q') \<Longrightarrow> queue_ptrs q = add_mset p (queue_ptrs q')"
  by (auto simp: sq_dequeue_def queue_ptrs_def split: list.splits)

lemma owned_set_queue:
  assumes "qt \<noteq> kSQUnknown"
  shows "owned (set_queue qt q sm) + queue_ptrs (mSegmentQueues sm qt) = owned sm + queue_ptrs q"
  using assms by (cases qt) (simp_all add: owned_def set_queue_def ac_simps)

lemma owned_frame [simp]:
  "owned (set_seg p s sm) = owned sm"
  "owned (notify sg sm) = owned sm"
  "owned (sm\<lparr>mSendRequest := c\<rparr>) = owned sm"
  "owned (sm\<lparr>mIsWaitReceiving := b\<rparr>) = owned sm"
  "owned (sm\<lparr>mNextSeqNo := f\<rparr>) = owned sm"
  "owned (sm\<lparr>mQueueArrivalSpeed := c\<rparr>) = owned sm"
  by (simp_all add: owned_def set_seg_def notify_def)

section \<open>What the helpers leave alone\<close>

lemma set_queue_frame [simp]:
  "mem (set_queue qt q sm) = mem sm" "live (set_queue qt q sm) = live sm"
  "next_addr (set_queue qt q sm) = next_addr sm" "mFreeList (set_queue qt q sm) = mFreeList sm"
  "mFreeSegmentListSize (set_queue qt q sm) = mFreeSegmentListSize sm"
  "mSentSegmentLists (set_queue qt q sm) = mSentSegmentLists sm"
  "mFailedSegmentList (set_queue qt q sm) = mFailedSegmentList sm"
  "mNextSeqNo (set_queue qt q sm) = mNextSeqNo sm"
  "mSegmentQueues (set_queue qt q sm) = (mSegmentQueues sm)(qt := q)"
  by (simp_all add: set_queue_def)

lemma set_seg_frame [simp]:
  "mem (set_seg p s sm) = (mem sm)(p := s)" "live (set_seg p s sm) = live sm"
  "next_addr (set_seg p s sm) = next_addr sm" "mFreeList (set_seg p s sm) = mFreeList sm"
  "mFreeSegmentListSize (set_seg p s sm) = mFreeSegmentListSize sm"
  "mSentSegmentLists (set_seg p s sm) = mSentSegmentLists sm"
  "mFailedSegmentList (set_seg p s sm) = mFailedSegmentList sm"
  "mNextSeqNo (set_seg p s sm) = mNextSeqNo sm"
  "mSegmentQueues (set_seg p s sm) = mSegmentQueues sm"
  by (simp_all add: set_seg_def)

lemma notify_frame [simp]:
  "mem (notify sg sm) = mem sm" "live (notify sg sm) = live sm"
  "next_addr (notify sg sm) = next_addr sm" "mFreeList (notify sg sm) = mFreeList sm"
  "mFreeSegmentListSize (notify sg sm) = mFreeSegmentListSize sm"
  "mSegmentQueues (notify sg sm) = mSegmentQueues sm"
  "mSentSegmentLists (notify sg sm) = mSentSegmentLists sm"
  "mFailedSegmentList (notify sg sm) = mFailedSegmentList sm"
  "mNextSeqNo (notify sg sm) = mNextSeqNo sm"
  by (simp_all add: notify_def)

lemma check_receiving_done_frame [simp]:
  "mem (check_receiving_done sm) = mem sm" "live (check_receiving_done sm) = live sm"
  "next_addr (check_receiving_done sm) = next_addr sm" "mFreeList (check_receiving_done sm) = mFreeList sm"
  "mFreeSegmentListSize (check_receiving_done sm) = mFreeSegmentListSize sm"
  "mSegmentQueues (check_receiving_done sm) = mSegmentQueues sm"
  "mSentSegmentLists (check_receiving_done sm) = mSentSegmentLists sm"
  "mFailedSegmentList (check_receiving_done sm) = mFailedSegmentList sm"
  "mNextSeqNo (check_receiving_done sm) = mNextSeqNo sm"
  "owned (check_receiving_done sm) = owned sm"
  by (simp_all add: check_receiving_done_def Let_def)

text \<open>Enqueueing changes one queue and nothing else of the memory.\<close>

lemma enqueue_effect:
  assumes "enqueue qt p sm = Inr sm'"
  shows "\<exists>c q. sq_enqueue (sqn sm) p (mSegmentQueues sm qt) = Inr (c, q) \<and> qt \<noteq> kSQUnknown
    \<and> mSegmentQueues sm' = (mSegmentQueues sm)(qt := q) \<and> mem sm' = mem sm \<and> live sm' = live sm
    \<and> next_addr sm' = next_addr sm \<and> mFreeList sm' = mFreeList sm
    \<and> mFreeSegmentListSize sm' = mFreeSegmentListSize sm
    \<and> mSentSegmentLists sm' = mSentSegmentLists sm \<and> mFailedSegmentList sm' = mFailedSegmentList sm
    \<and> mNextSeqNo sm' = mNextSeqNo sm \<and> owned sm' = owned (set_queue qt q sm)"
  using assms
  by (auto simp: enqueue_def and_then_eq_Inr Let_def wake_up_dequeue_waiting_def)

lemma enqueue_ok:
  assumes "sq_enqueue (sqn sm) p (mSegmentQueues sm qt) = Inr (c, q)" "qt \<noteq> kSQUnknown"
  shows "\<exists>sm'. enqueue qt p sm = Inr sm'"
  using assms
  by (cases qt) (simp_all add: enqueue_def queue_type_to_dequeue_type_def Let_def)

section \<open>Every operation keeps ownership\<close>

lemma mem_countD: "count M p \<le> 1 \<Longrightarrow> M = add_mset p N \<Longrightarrow> p \<notin># N"
  by (auto simp: count_eq_zero_iff)

lemma word_minus_of_nat:
  "unat w = n \<Longrightarrow> k \<le> n \<Longrightarrow> unat (w - of_nat k) = n - k" for w :: u32
proof -
  assume "unat w = n" "k \<le> n"
  then have "w = of_nat n" by auto
  then have "w - of_nat k = of_nat (n - k)" using \<open>k \<le> n\<close> by (simp add: of_nat_diff)
  moreover have "unat w < 2 ^ LENGTH(32)" by (rule unsigned_less)
  then have "n - k < 2 ^ 32" using \<open>unat w = n\<close> by simp
  ultimately show ?thesis by (simp add: unat_of_nat take_bit_eq_mod)
qed

lemma shrink_loop_eq:
  assumes "unat (mFreeSegmentListSize sm) = length fl" "k = length fl - unat t"
  shows "shrink_loop t fl sm = Inr (sm\<lparr>mFreeList := drop k fl, live := live sm - set (take k fl),
    mFreeSegmentListSize := mFreeSegmentListSize sm - of_nat k\<rparr>)"
  using assms
proof (induction t fl sm arbitrary: k rule: shrink_loop.induct)
  case (1 t sm)
  then have "mFreeSegmentListSize sm = 0" by (simp add: unat_eq_0)
  with 1 show ?case by simp
next
  case (2 t p rest sm)
  let ?sm = "sm\<lparr>live := live sm - {p}, mFreeSegmentListSize := mFreeSegmentListSize sm - 1\<rparr>"
  show ?case
  proof (cases "mFreeSegmentListSize sm > t")
    case True
    then have "unat t < Suc (length rest)" using "2.prems"(1) by (simp only: word_less_nat_alt length_Cons)
    then have k: "k = Suc (length rest - unat t)" unfolding "2.prems"(2) by (simp add: Suc_diff_le)
    have "unat (mFreeSegmentListSize ?sm) = length rest"
      using word_minus_of_nat [OF "2.prems"(1), of 1] by simp
    from "2.IH" [OF True this refl]
    have ih: "shrink_loop t (p # rest) sm = Inr (?sm\<lparr>mFreeList := drop (length rest - unat t) rest,
      live := live ?sm - set (take (length rest - unat t) rest),
      mFreeSegmentListSize := mFreeSegmentListSize ?sm - of_nat (length rest - unat t)\<rparr>)"
      using True by (simp only: shrink_loop.simps if_True)
    have "live sm - {p} - A = live sm - insert p A" for A by blast
    moreover have "mFreeSegmentListSize sm - 1 - w = mFreeSegmentListSize sm - (1 + w)" for w
      by simp
    ultimately show ?thesis unfolding ih k by simp
  next
    case False
    then have "k = 0" using "2.prems" by (simp add: word_less_nat_alt not_less)
    with False show ?thesis by simp
  qed
qed

text \<open>The frame shared by the operations on free segments.\<close>

definition same_lists :: "seg_mgr \<Rightarrow> seg_mgr \<Rightarrow> bool" where
  "same_lists sm sm' \<longleftrightarrow> mSegmentQueues sm' = mSegmentQueues sm
     \<and> mSentSegmentLists sm' = mSentSegmentLists sm \<and> mFailedSegmentList sm' = mFailedSegmentList sm
     \<and> mNextSeqNo sm' = mNextSeqNo sm"

lemma same_listsD:
  assumes "same_lists sm sm'"
  shows "mSegmentQueues sm' = mSegmentQueues sm" "mSentSegmentLists sm' = mSentSegmentLists sm"
    "mFailedSegmentList sm' = mFailedSegmentList sm" "mNextSeqNo sm' = mNextSeqNo sm"
  using assms by (simp_all add: same_lists_def)

lemma same_lists_refl [simp]: "same_lists sm sm"
  by (simp add: same_lists_def)

lemma heap_wf_shrink:
  assumes wf: "heap_wf held sm"
  shows "\<exists>sm'. shrink_free_segment_list t sm = Inr sm' \<and> heap_wf held sm' \<and> mem sm' = mem sm
    \<and> same_lists sm sm' \<and> length (mFreeList sm') = min (unat t) (length (mFreeList sm))"
proof -
  define fl where "fl = mFreeList sm"
  define k where "k = length fl - unat t"
  let ?sm = "sm\<lparr>mFreeList := drop k fl, live := live sm - set (take k fl),
    mFreeSegmentListSize := mFreeSegmentListSize sm - of_nat k\<rparr>"
  note d = heap_wfD [OF wf]
  have step: "shrink_free_segment_list t sm = Inr ?sm"
    using shrink_loop_eq [OF d(1)] by (simp add: shrink_free_segment_list_def fl_def k_def)
  have "mset fl = mset (take k fl) + mset (drop k fl)"
    by (simp flip: mset_append)
  then have split: "held + owned sm = mset (take k fl) + (held + owned ?sm)"
    by (simp add: owned_def fl_def)
  have "unat (mFreeSegmentListSize sm - of_nat k) = length fl - k"
    using d(1) by (simp add: word_minus_of_nat fl_def k_def)
  moreover have "p \<in> live sm - set (take k fl)" if p: "p \<in># held + owned ?sm" for p
  proof -
    have "p \<in># held + owned sm" unfolding split using p by simp
    then have "p \<in> live sm" by (rule d(2))
    moreover have "p \<notin> set (take k fl)"
    proof
      assume "p \<in> set (take k fl)"
      then have "1 \<le> count (mset (take k fl)) p" "1 \<le> count (held + owned ?sm) p"
        using p by (metis Suc_leI One_nat_def count_greater_zero_iff set_mset_mset)+
      with d(5) [of p] show False unfolding split count_union by linarith
    qed
    ultimately show ?thesis by simp
  qed
  moreover have "count (held + owned ?sm) p \<le> 1" for p
    using d(5) [of p] unfolding split by simp
  ultimately have "heap_wf held ?sm"
    unfolding heap_wf_def using d(3,4) by (auto simp: fl_def)
  with step show ?thesis by (auto simp: fl_def k_def same_lists_def)
qed

lemma segment_wf_clear_header [simp]: "segment_wf (clear_header s) = segment_wf s"
  by (simp add: segment_wf_def clear_header_def)

lemma add_free_wf:
  assumes wf: "sm_wf (add_mset p held) sm"
  shows "\<exists>sm'. add_free_segment_to_list p sm = Inr sm' \<and> sm_wf held sm' \<and> mem sm' = mem sm
    \<and> same_lists sm sm'"
proof -
  let ?sm = "sm\<lparr>mFreeList := p # mFreeList sm, mFreeSegmentListSize := mFreeSegmentListSize sm + 1\<rparr>"
  note d = heap_wfD [OF sm_wfD(1) [OF wf]] and b = sm_wfD(2) [OF wf]
  have n: "unat (mFreeSegmentListSize ?sm) = Suc (length (mFreeList sm))"
    using d(1) b by (simp add: unat_word_ariths)
  have ow: "held + owned ?sm = add_mset p held + owned sm" by (simp add: owned_def)
  have h: "heap_wf held ?sm"
    using d n unfolding heap_wf_def ow by auto
  have thr: "mFreeSegmentListSize ?sm > kSegFreeThreshold \<longleftrightarrow> \<not> length (mFreeList sm) < 256"
    using n by (simp add: word_less_nat_alt kSegFreeThreshold_def) linarith
  show ?thesis
  proof (cases "length (mFreeList sm) < 256")
    case True
    with h thr show ?thesis
      by (simp add: add_free_segment_to_list_def shrink_if_big_def sm_wf_def same_lists_def)
  next
    case False
    \<comment> \<open>above the threshold the list is cut to 128 segments\<close>
    obtain sm' where "shrink_free_segment_list (kSegFreeThreshold div 2) ?sm = Inr sm'"
      "heap_wf held sm'" "mem sm' = mem ?sm" "same_lists ?sm sm'"
      "length (mFreeList sm') = min (unat (kSegFreeThreshold div 2)) (length (mFreeList ?sm))"
      using heap_wf_shrink [OF h, of "kSegFreeThreshold div 2"] by blast
    with False thr show ?thesis
      by (simp add: add_free_segment_to_list_def shrink_if_big_def sm_wf_def same_lists_def
          kSegFreeThreshold_def)
  qed
qed

lemma pop_free_wf:
  assumes wf: "sm_wf held sm"
  shows "\<exists>p sm'. pop_free_segment sm = Inr (p, sm') \<and> sm_wf (add_mset p held) sm' \<and> same_lists sm sm'
    \<and> (\<forall>a. a \<noteq> p \<longrightarrow> mem sm' a = mem sm a) \<and> p \<notin># held + (owned sm - mset (mFreeList sm))
    \<and> segment_wf (mem sm' p)"
proof (cases "mFreeList sm")
  case Nil
  note d = heap_wfD [OF sm_wfD(1) [OF wf]]
  let ?p = "next_addr sm"
  let ?sm = "set_seg ?p (clear_header zero_segment)
    (sm\<lparr>mem := (mem sm)(?p := zero_segment), live := insert ?p (live sm), next_addr := Suc ?p\<rparr>)"
  have z: "mFreeSegmentListSize sm = 0" using d(1) Nil by (simp add: unat_eq_0)
  have ow: "owned ?sm = owned sm" by (simp add: owned_def)
  have fresh: "?p \<notin> live sm" using d(4) by blast
  then have new: "?p \<notin># held + owned sm" using d(2) by blast
  have "count (add_mset ?p held + owned ?sm) a \<le> 1" for a
    unfolding ow using d(5) [of a] new by (auto simp: not_in_iff)
  moreover have "set_mset (add_mset ?p held + owned ?sm) \<subseteq> live ?sm"
    unfolding ow using d(2) by auto
  moreover have "a < next_addr ?sm \<and> segment_wf (mem ?sm a)" if "a \<in> live ?sm" for a
    using that d(3,4) by (auto simp: segment_wf_def zero_segment_def clear_header_def less_SucI)
  ultimately have "sm_wf (add_mset ?p held) ?sm"
    using d(1) Nil unfolding sm_wf_def heap_wf_def by auto
  moreover have "segment_wf (mem ?sm ?p)"
    by (simp add: segment_wf_def zero_segment_def clear_header_def)
  ultimately show ?thesis
    using z new Nil by (simp add: pop_free_segment_def calloc_segment_def Let_def same_lists_def)
next
  case (Cons p ps)
  note d = heap_wfD [OF sm_wfD(1) [OF wf]]
  let ?sm = "set_seg p (clear_header (mem sm p))
    (sm\<lparr>mFreeList := ps, mFreeSegmentListSize := mFreeSegmentListSize sm - 1\<rparr>)"
  have nz: "mFreeSegmentListSize sm \<noteq> 0" using d(1) Cons by auto
  have ow: "add_mset p held + owned ?sm = held + owned sm" by (simp add: owned_def Cons)
  have "sm_wf (add_mset p held) ?sm"
  proof (rule sm_wf_step [OF wf])
    show "unat (mFreeSegmentListSize ?sm) = length (mFreeList ?sm)"
      using word_minus_of_nat [OF d(1), of 1] Cons by simp
    show "length (mFreeList ?sm) \<le> 256" using sm_wfD(2) [OF wf] Cons by simp
  qed (auto simp: ow [simplified])
  moreover have "p \<notin># held + (owned sm - mset (mFreeList sm))"
    using d(5) [of p] Cons by (auto simp: owned_def not_in_iff)
  moreover have "segment_wf (mem sm p)" using d(2,3) [of p] Cons by (simp add: owned_def)
  ultimately show ?thesis
    using nz Cons by (simp add: pop_free_segment_def same_lists_def)
qed

lemma set_seg_wf:
  assumes "sm_wf held sm" "segment_wf s"
  shows "sm_wf held (set_seg p s sm)"
  using assms by (auto simp: sm_wf_def heap_wf_def)

lemma enqueue_wf:
  assumes wf: "sm_wf (add_mset p held) sm" and e: "enqueue qt p sm = Inr sm'"
  shows "sm_wf held sm'"
proof -
  obtain c q where q: "sq_enqueue (sqn sm) p (mSegmentQueues sm qt) = Inr (c, q)" "qt \<noteq> kSQUnknown"
    and fr: "mem sm' = mem sm" "live sm' = live sm" "next_addr sm' = next_addr sm"
      "mFreeList sm' = mFreeList sm" "mFreeSegmentListSize sm' = mFreeSegmentListSize sm"
      "owned sm' = owned (set_queue qt q sm)"
    using enqueue_effect [OF e] by blast
  have "owned sm' + queue_ptrs (mSegmentQueues sm qt)
      = add_mset p (owned sm) + queue_ptrs (mSegmentQueues sm qt)"
    using owned_set_queue [OF q(2), of q sm] sq_enqueue_ptrs [OF q(1)] unfolding fr(6) by simp
  then have "owned sm' = add_mset p (owned sm)" by (simp only: add_right_cancel)
  then show ?thesis
    using heap_wfD(1) [OF sm_wfD(1) [OF wf]] sm_wfD(2) [OF wf]
    by (intro sm_wf_step [OF wf]) (simp_all add: fr(1-5))
qed

lemma dequeue_wf:
  assumes wf: "sm_wf held sm" and e: "dequeue dt sm = Inr (Some p, sm')"
  shows "sm_wf (add_mset p held) sm' \<and> mem sm' = mem sm"
proof -
  obtain q where q: "sq_dequeue (mSegmentQueues sm (get_target_queue_type dt sm)) = Inr (p, q)"
    and qt: "get_target_queue_type dt sm \<noteq> kSQUnknown"
    and sm': "sm' = set_queue (get_target_queue_type dt sm) q sm"
    using e by (auto simp: dequeue_def dequeue_woken_def and_then_eq_Inr Let_def split: if_splits)
  have "owned sm' + add_mset p (queue_ptrs q) = owned sm + queue_ptrs q"
    using owned_set_queue [OF qt, of q sm] sq_dequeue_ptrs [OF q] unfolding sm' by simp
  then have "add_mset p (owned sm') + queue_ptrs q = owned sm + queue_ptrs q" by simp
  then have "owned sm = add_mset p (owned sm')" by (simp only: add_right_cancel)
  then have "sm_wf (add_mset p held) sm'"
    using heap_wfD(1) [OF sm_wfD(1) [OF wf]] sm_wfD(2) [OF wf]
    by (intro sm_wf_step [OF wf]) (simp_all add: sm')
  then show ?thesis by (simp add: sm')
qed

lemma dequeue_None_wf:
  "dequeue dt sm = Inr (None, sm') \<Longrightarrow> sm' = sm"
  by (auto simp: dequeue_def dequeue_woken_def and_then_eq_Inr Let_def split: if_splits)

text \<open>Failed segments: the retry of a send moves a segment to the failed list and back.\<close>

lemma add_failed_wf:
  assumes wf: "sm_wf (add_mset p held) sm"
  shows "sm_wf held (add_failed_segment_to_list p sm)"
proof -
  have "owned (add_failed_segment_to_list p sm) = add_mset p (owned sm)"
    by (simp add: owned_def add_failed_segment_to_list_def)
  then show ?thesis
    using heap_wfD(1) [OF sm_wfD(1) [OF wf]] sm_wfD(2) [OF wf]
    by (intro sm_wf_step [OF wf]) (simp_all add: add_failed_segment_to_list_def)
qed

lemma pop_failed_wf:
  assumes wf: "sm_wf held sm" and e: "pop_failed_segment sm = (Some p, sm')"
  shows "sm_wf (add_mset p held) sm'"
proof -
  have "owned sm = add_mset p (owned sm')"
    using e by (auto simp: owned_def pop_failed_segment_def split: list.splits)
  then show ?thesis
    using e heap_wfD(1) [OF sm_wfD(1) [OF wf]] sm_wfD(2) [OF wf]
    by (intro sm_wf_step [OF wf]) (auto simp: pop_failed_segment_def split: list.splits)
qed

section \<open>Sent segments\<close>

lemma set_sent_frame [simp]:
  "mem (set_sent sn ps sm) = mem sm" "live (set_sent sn ps sm) = live sm"
  "next_addr (set_sent sn ps sm) = next_addr sm" "mFreeList (set_sent sn ps sm) = mFreeList sm"
  "mFreeSegmentListSize (set_sent sn ps sm) = mFreeSegmentListSize sm"
  "mSegmentQueues (set_sent sn ps sm) = mSegmentQueues sm"
  "mFailedSegmentList (set_sent sn ps sm) = mFailedSegmentList sm"
  "mNextSeqNo (set_sent sn ps sm) = mNextSeqNo sm"
  "mSentSegmentLists (set_sent sn ps sm) = (mSentSegmentLists sm)(sn := ps)"
  by (simp_all add: set_sent_def)

lemma owned_set_sent:
  "owned (set_sent sn ps sm) + mset (mSentSegmentLists sm sn) = owned sm + mset ps"
  by (cases sn) (simp_all add: owned_def set_sent_def ac_simps)

lemma set_sent_wf:
  assumes wf: "sm_wf held sm" and sub: "held' + mset ps \<subseteq># held + mset (mSentSegmentLists sm sn)"
  shows "sm_wf held' (set_sent sn ps sm)"
proof (rule sm_wf_step [OF wf])
  have "held' + owned (set_sent sn ps sm) + mset (mSentSegmentLists sm sn) = held' + mset ps + owned sm"
    using owned_set_sent [of sn ps sm] by (simp add: ac_simps)
  also have "\<dots> \<subseteq># held + mset (mSentSegmentLists sm sn) + owned sm"
    using sub by (rule subset_mset.add_right_mono)
  finally show "held' + owned (set_sent sn ps sm) \<subseteq># held + owned sm"
    by (simp add: ac_simps)
qed (use heap_wfD(1) [OF sm_wfD(1) [OF wf]] sm_wfD(2) [OF wf] in simp_all)

lemma set_sent_commute:
  "(set_sent sn ps sm)\<lparr>mFreeList := fl\<rparr> = set_sent sn ps (sm\<lparr>mFreeList := fl\<rparr>)"
  "(set_sent sn ps sm)\<lparr>live := L, mFreeSegmentListSize := n\<rparr>
    = set_sent sn ps (sm\<lparr>live := L, mFreeSegmentListSize := n\<rparr>)"
  "(set_sent sn ps sm)\<lparr>mFreeList := fl, mFreeSegmentListSize := n\<rparr>
    = set_sent sn ps (sm\<lparr>mFreeList := fl, mFreeSegmentListSize := n\<rparr>)"
  by (simp_all add: set_sent_def)

lemma shrink_loop_set_sent:
  "shrink_loop t fl (set_sent sn ps sm) = map_sum id (set_sent sn ps) (shrink_loop t fl sm)"
  by (induction t fl sm rule: shrink_loop.induct) (auto simp: set_sent_commute)

lemma add_free_set_sent:
  "add_free_segment_to_list p (set_sent sn ps sm) = map_sum id (set_sent sn ps) (add_free_segment_to_list p sm)"
  by (simp add: add_free_segment_to_list_def shrink_if_big_def shrink_free_segment_list_def
      set_sent_commute(3) shrink_loop_set_sent)

text \<open>
  An acknowledgement moves exactly the segments up to the acknowledged number from the sent list
  to the free list, and keeps the others in their order.
\<close>

lemma dealloc_sent_ok:
  assumes "sm_wf held sm" "mSentSegmentLists sm sn = kept @ todo"
  shows "\<exists>sm'. dealloc_sent sn last_seq kept todo sm = Inr sm' \<and> sm_wf held sm' \<and> mem sm' = mem sm
    \<and> same_lists (set_sent sn (kept @ filter (\<lambda>p. sqn sm p > last_seq) todo) sm) sm'"
  using assms
proof (induction sn last_seq kept todo sm rule: dealloc_sent.induct)
  case (1 sn last_seq kept sm)
  then have "same_lists (set_sent sn kept sm) sm" by (auto simp: same_lists_def)
  with 1 show ?case by simp
next
  case (2 sn last_seq kept p todo sm)
  show ?case
  proof (cases "sqn sm p \<le> last_seq")
    case True
    have "sm_wf (add_mset p held) (set_sent sn (kept @ todo) sm)"
      by (rule set_sent_wf [OF "2.prems"(1)]) (simp add: "2.prems"(2))
    from add_free_wf [OF this] obtain t where
      t: "add_free_segment_to_list p (set_sent sn (kept @ todo) sm) = Inr t" "sm_wf held t"
        "mem t = mem sm" "same_lists (set_sent sn (kept @ todo) sm) t" by auto
    then obtain sm1 where sm1: "add_free_segment_to_list p sm = Inr sm1" "t = set_sent sn (kept @ todo) sm1"
      unfolding add_free_set_sent by (cases "add_free_segment_to_list p sm") auto
    note f = same_listsD [OF t(4)]
    from "2.IH"(1) [OF True, of sm1] obtain sm' where
      sm': "dealloc_sent sn last_seq kept todo t = Inr sm'" "sm_wf held sm'" "mem sm' = mem t"
        "same_lists (set_sent sn (kept @ filter (\<lambda>p. sqn t p > last_seq) todo) t) sm'"
      using t(2) f(2) unfolding sm1(2) by auto
    have "same_lists (set_sent sn (kept @ filter (\<lambda>p. sqn sm p > last_seq) (p # todo)) sm) sm'"
      using sm'(4) leD [OF True] f t(3) by (simp add: same_lists_def)
    with sm' sm1 t(3) True show ?thesis by auto
  next
    case False
    then have gt: "last_seq < sqn sm p" by simp
    with "2.IH"(2) [OF False "2.prems"(1)] "2.prems"(2) False show ?thesis by simp
  qed
qed

lemma insert_sent_mset:
  "mset (insert_sent sq p ws) = (if sq p \<in> sq ` set ws then mset ws else add_mset p (mset ws))"
  if "sorted_wrt (\<lambda>a b. sq a > sq b) ws" for sq :: "addr \<Rightarrow> u32"
  using that by (induction ws) (auto simp: not_less_iff_gr_or_eq)

lemma insert_sent_sorted:
  assumes "sorted_wrt (\<lambda>a b. sq a > sq b) ws"
  shows "sorted_wrt (\<lambda>a b. sq a > sq b) (insert_sent sq p ws)
    \<and> set (insert_sent sq p ws) \<subseteq> insert p (set ws)"
  using assms
proof (induction ws)
  case (Cons w ws)
  then show ?case by (force intro: less_trans)
qed simp

lemma deallocate_sent_segments_by_peer_wf:
  assumes wf: "sm_wf held sm"
  shows "\<exists>sm'. deallocate_sent_segments_by_peer last_control last_data sm = Inr sm' \<and> sm_wf held sm'
    \<and> mem sm' = mem sm \<and> mSegmentQueues sm' = mSegmentQueues sm
    \<and> mFailedSegmentList sm' = mFailedSegmentList sm
    \<and> mSentSegmentLists sm' kSNControl = filter (\<lambda>p. sqn sm p > last_control) (mSentSegmentLists sm kSNControl)
    \<and> mSentSegmentLists sm' kSNData = filter (\<lambda>p. sqn sm p > last_data) (mSentSegmentLists sm kSNData)"
proof -
  obtain sm1 where 1: "dealloc_sent kSNControl last_control [] (mSentSegmentLists sm kSNControl) sm = Inr sm1"
    "sm_wf held sm1" "mem sm1 = mem sm" "same_lists (set_sent kSNControl
      ([] @ filter (\<lambda>p. sqn sm p > last_control) (mSentSegmentLists sm kSNControl)) sm) sm1"
    using dealloc_sent_ok [OF wf, of kSNControl "[]"] by auto
  obtain sm2 where 2: "dealloc_sent kSNData last_data [] (mSentSegmentLists sm1 kSNData) sm1 = Inr sm2"
    "sm_wf held sm2" "mem sm2 = mem sm1" "same_lists (set_sent kSNData
      ([] @ filter (\<lambda>p. sqn sm1 p > last_data) (mSentSegmentLists sm1 kSNData)) sm1) sm2"
    using dealloc_sent_ok [OF 1(2), of kSNData "[]"] by auto
  have "unat (mFreeSegmentListSize sm2) \<le> 256"
    using sm_wfD(2) [OF 2(2)] heap_wfD(1) [OF sm_wfD(1) [OF 2(2)]] by simp
  then have "shrink_if_big sm2 = Inr sm2"
    by (simp add: shrink_if_big_def kSegFreeThreshold_def word_less_nat_alt)
  with 1 2 show ?thesis
    by (simp add: deallocate_sent_segments_by_peer_def same_lists_def)
qed

text \<open>The sent lists are sorted by sequence number, without duplicates.\<close>

definition sent_sorted :: "seg_mgr \<Rightarrow> sn_type \<Rightarrow> bool" where
  "sent_sorted sm sn \<longleftrightarrow> sorted_wrt (\<lambda>a b. sqn sm a < sqn sm b) (mSentSegmentLists sm sn)"

lemma add_sent_wf:
  assumes wf: "sm_wf (add_mset p held) sm" and srt: "sent_sorted sm sn"
  shows "sm_wf held (add_sent_segment_to_list sn p sm)"
  unfolding add_sent_segment_to_list_def
proof (rule set_sent_wf [OF wf])
  have "sorted_wrt (\<lambda>a b. sqn sm a > sqn sm b) (rev (mSentSegmentLists sm sn))"
    using srt by (simp add: sent_sorted_def sorted_wrt_rev)
  from insert_sent_mset [OF this, of p]
  show "held + mset (rev (insert_sent (sqn sm) p (rev (mSentSegmentLists sm sn))))
      \<subseteq># add_mset p held + mset (mSentSegmentLists sm sn)"
    by (auto split: if_splits)
qed

lemma add_sent_sorted:
  assumes srt: "sent_sorted sm sn'"
  shows "sent_sorted (add_sent_segment_to_list sn p sm) sn'"
proof (cases "sn' = sn")
  case True
  have "sorted_wrt (\<lambda>a b. sqn sm a > sqn sm b) (rev (mSentSegmentLists sm sn))"
    using srt True by (simp add: sent_sorted_def sorted_wrt_rev)
  from insert_sent_sorted [OF this, of p] True show ?thesis
    by (simp add: sent_sorted_def add_sent_segment_to_list_def sorted_wrt_rev)
qed (use srt in \<open>simp add: sent_sorted_def add_sent_segment_to_list_def\<close>)

section \<open>All interleavings of the operations\<close>

text \<open>
  The threads of the program call the operations in any order. A configuration is the multiset
  of segments the threads hold and the state. A thread writes only into a segment that it
  holds, and it gives away only such a segment. Retransmission is not among these steps.
\<close>

inductive sm_step :: "addr multiset \<times> seg_mgr \<Rightarrow> addr multiset \<times> seg_mgr \<Rightarrow> bool" where
  pop_free: "pop_free_segment sm = Inr (p, sm') \<Longrightarrow> sm_step (held, sm) (add_mset p held, sm')"
| write_segment: "p \<in># held \<Longrightarrow> segment_wf s \<Longrightarrow> sm_step (held, sm) (held, set_seg p s sm)"
| put_free: "add_free_segment_to_list p sm = Inr sm' \<Longrightarrow> sm_step (add_mset p held, sm) (held, sm')"
| enq: "enqueue qt p sm = Inr sm' \<Longrightarrow> sm_step (add_mset p held, sm) (held, sm')"
| deq: "dequeue dt sm = Inr (Some p, sm') \<Longrightarrow> sm_step (held, sm) (add_mset p held, sm')"
| deq_none: "dequeue dt sm = Inr (None, sm') \<Longrightarrow> sm_step (held, sm) (held, sm')"
| fail: "sm_step (add_mset p held, sm) (held, add_failed_segment_to_list p sm)"
| retry: "pop_failed_segment sm = (Some p, sm') \<Longrightarrow> sm_step (held, sm) (add_mset p held, sm')"
| sent: "sm_step (add_mset p held, sm) (held, add_sent_segment_to_list sn p sm)"
| ack: "deallocate_sent_segments_by_peer c d sm = Inr sm' \<Longrightarrow> sm_step (held, sm) (held, sm')"
| release: "deallocate_all_the_free_segments sm = Inr sm' \<Longrightarrow> sm_step (held, sm) (held, sm')"

inductive_cases sm_stepE: "sm_step (held, sm) c"

definition sm_inv :: "addr multiset \<times> seg_mgr \<Rightarrow> bool" where
  "sm_inv c \<longleftrightarrow> sm_wf (fst c) (snd c) \<and> (\<forall>sn. sent_sorted (snd c) sn)"

text \<open>A segment on a sent list is not held, and not on any other list.\<close>

lemma sent_not_held:
  assumes "sm_wf held sm" "p \<in># held"
  shows "p \<notin> set (mSentSegmentLists sm sn)"
proof
  assume "p \<in> set (mSentSegmentLists sm sn)"
  then have "1 \<le> count (owned sm) p" by (cases sn) (simp_all add: owned_def Suc_le_eq)
  moreover have "1 \<le> count held p" using assms(2) by (simp add: Suc_le_eq)
  ultimately show False
    using heap_wfD(5) [OF sm_wfD(1) [OF assms(1)], of p] unfolding count_union by linarith
qed

lemma pop_free_not_sent:
  assumes wf: "sm_wf held sm" and "pop_free_segment sm = Inr (p, sm')"
  shows "p \<notin> set (mSentSegmentLists sm sn)"
proof -
  have "p \<notin># held + (owned sm - mset (mFreeList sm))"
    using pop_free_wf [OF wf] assms(2) by auto
  then show ?thesis by (cases sn) (simp_all add: owned_def)
qed

lemma sent_sorted_cong:
  assumes "mSentSegmentLists sm' sn = mSentSegmentLists sm sn"
    and "\<And>p. p \<in> set (mSentSegmentLists sm sn) \<Longrightarrow> sqn sm' p = sqn sm p"
  shows "sent_sorted sm' sn = sent_sorted sm sn"
proof -
  have "map (sqn sm') (mSentSegmentLists sm sn) = map (sqn sm) (mSentSegmentLists sm sn)"
    using assms(2) by simp
  moreover have "sent_sorted s sn = sorted_wrt (<) (map (sqn s) (mSentSegmentLists s sn))" for s
    by (simp add: sent_sorted_def sorted_wrt_map)
  ultimately show ?thesis by (simp only: assms(1))
qed

lemma enqueue_sent: "enqueue qt p sm = Inr sm' \<Longrightarrow> mem sm' = mem sm \<and> mSentSegmentLists sm' = mSentSegmentLists sm"
  using enqueue_effect by blast

lemma dequeue_sent: "dequeue dt sm = Inr (r, sm') \<Longrightarrow> mem sm' = mem sm \<and> mSentSegmentLists sm' = mSentSegmentLists sm"
  by (auto simp: dequeue_def dequeue_woken_def and_then_eq_Inr Let_def split: if_splits)

lemma sm_step_sorted:
  assumes "sm_step c c'" "sm_inv c"
  shows "sent_sorted (snd c') sn"
  using assms
proof cases
  case (pop_free sm p sm' held)
  then have wf: "sm_wf held sm" "sent_sorted sm sn" using assms(2) by (auto simp: sm_inv_def)
  obtain p1 sm1 where "pop_free_segment sm = Inr (p1, sm1)" "same_lists sm sm1"
    "\<forall>a. a \<noteq> p1 \<longrightarrow> mem sm1 a = mem sm a"
    using pop_free_wf [OF wf(1)] by blast
  moreover have "p \<notin> set (mSentSegmentLists sm sn)" by (rule pop_free_not_sent [OF wf(1) pop_free(3)])
  ultimately have "sent_sorted sm' sn = sent_sorted sm sn"
    using pop_free(3) by (intro sent_sorted_cong) (auto simp: same_lists_def)
  with wf pop_free show ?thesis by simp
next
  case (write_segment p held s sm)
  then have wf: "sm_wf held sm" "sent_sorted sm sn" using assms(2) by (auto simp: sm_inv_def)
  have "p \<notin> set (mSentSegmentLists sm sn)" by (rule sent_not_held [OF wf(1) write_segment(3)])
  then have "sent_sorted (set_seg p s sm) sn = sent_sorted sm sn"
    by (intro sent_sorted_cong) auto
  with wf write_segment show ?thesis by simp
next
  case (put_free p sm sm' held)
  then have wf: "sm_wf (add_mset p held) sm" "sent_sorted sm sn" using assms(2) by (auto simp: sm_inv_def)
  then show ?thesis using add_free_wf [OF wf(1)] put_free
    by (auto simp: same_lists_def sent_sorted_def)
next
  case (enq qt p sm sm' held)
  then show ?thesis using assms(2) enqueue_sent by (fastforce simp: sm_inv_def sent_sorted_def)
next
  case (deq dt sm p sm' held)
  then show ?thesis using assms(2) dequeue_sent by (fastforce simp: sm_inv_def sent_sorted_def)
next
  case (deq_none dt sm sm' held)
  then show ?thesis using assms(2) dequeue_None_wf by (auto simp: sm_inv_def)
next
  case (fail p held sm)
  then show ?thesis using assms(2) by (simp add: sm_inv_def sent_sorted_def add_failed_segment_to_list_def)
next
  case (retry sm p sm' held)
  then show ?thesis using assms(2)
    by (auto simp: sm_inv_def sent_sorted_def pop_failed_segment_def split: list.splits)
next
  case (sent p held sm sn')
  then show ?thesis using assms(2) add_sent_sorted by (auto simp: sm_inv_def)
next
  case (ack c d sm sm' held)
  then have wf: "sm_wf held sm" "\<forall>sn. sent_sorted sm sn" using assms(2) by (auto simp: sm_inv_def)
  with deallocate_sent_segments_by_peer_wf [OF wf(1), of c d] ack show ?thesis
    by (cases sn) (auto simp: sent_sorted_def sorted_wrt_filter)
next
  case (release sm sm' held)
  then have wf: "sm_wf held sm" "sent_sorted sm sn" using assms(2) by (auto simp: sm_inv_def)
  with heap_wf_shrink [OF sm_wfD(1) [OF wf(1)], of 0] release show ?thesis
    by (auto simp: deallocate_all_the_free_segments_def sent_sorted_def same_lists_def)
qed

lemma sm_step_wf:
  assumes "sm_step c c'" "sm_inv c"
  shows "sm_wf (fst c') (snd c')"
  using assms
proof cases
  case (pop_free sm p sm' held)
  then show ?thesis using pop_free_wf [of held sm] assms(2) by (auto simp: sm_inv_def)
next
  case (write_segment p held s sm)
  then show ?thesis using set_seg_wf assms(2) by (auto simp: sm_inv_def)
next
  case (put_free p sm sm' held)
  then show ?thesis using add_free_wf [of p held sm] assms(2) by (auto simp: sm_inv_def)
next
  case (enq qt p sm sm' held)
  then show ?thesis using enqueue_wf assms(2) by (auto simp: sm_inv_def)
next
  case (deq dt sm p sm' held)
  then show ?thesis using dequeue_wf assms(2) by (auto simp: sm_inv_def)
next
  case (deq_none dt sm sm' held)
  then show ?thesis using dequeue_None_wf assms(2) by (auto simp: sm_inv_def)
next
  case (fail p held sm)
  then show ?thesis using add_failed_wf assms(2) by (auto simp: sm_inv_def)
next
  case (retry sm p sm' held)
  then show ?thesis using pop_failed_wf assms(2) by (auto simp: sm_inv_def)
next
  case (sent p held sm sn)
  then show ?thesis using add_sent_wf assms(2) by (auto simp: sm_inv_def)
next
  case (ack c d sm sm' held)
  then show ?thesis
    using deallocate_sent_segments_by_peer_wf [of held sm c d] assms(2) by (auto simp: sm_inv_def)
next
  case (release sm sm' held)
  then have wf: "sm_wf held sm" using assms(2) by (auto simp: sm_inv_def)
  then show ?thesis
    using heap_wf_shrink [OF sm_wfD(1) [OF wf], of 0] release
    by (auto simp: deallocate_all_the_free_segments_def sm_wf_def)
qed

lemma sm_reachable_inv:
  assumes "sm_step\<^sup>*\<^sup>* ({#}, seg_mgr_ctor cnt) c"
  shows "sm_inv c"
  using assms
proof (induction rule: rtranclp_induct)
  case base
  show ?case using sm_wf_ctor by (simp add: sm_inv_def sent_sorted_def seg_mgr_ctor_def)
next
  case (step c c')
  with sm_step_wf sm_step_sorted show ?case by (simp add: sm_inv_def)
qed

section \<open>Retransmission breaks ownership\<close>

text \<open>
  \<open>retransmit_missing_segments_by_peer\<close> appends pointers of the sent list to the failed list without
  taking them off the sent list. What follows needs only that the free list is counted right.
\<close>

definition freed :: "addr \<Rightarrow> seg_mgr \<Rightarrow> bool" where
  "freed p sm \<longleftrightarrow> p \<in> set (mFreeList sm) \<or> p \<notin> live sm"

definition free_counted :: "seg_mgr \<Rightarrow> bool" where
  "free_counted sm \<longleftrightarrow> unat (mFreeSegmentListSize sm) = length (mFreeList sm) \<and> length (mFreeList sm) \<le> 256"

lemma retransmit_loop_effect:
  "mFailedSegmentList (retransmit_loop a b ps sm)
     = mFailedSegmentList sm @ filter (\<lambda>p. a \<le> sqn sm p \<and> sqn sm p \<le> b) ps"
  "mem (retransmit_loop a b ps sm) = mem sm"
  "mSentSegmentLists (retransmit_loop a b ps sm) = mSentSegmentLists sm"
  "mFreeList (retransmit_loop a b ps sm) = mFreeList sm"
  "mFreeSegmentListSize (retransmit_loop a b ps sm) = mFreeSegmentListSize sm"
  by (induction a b ps sm rule: retransmit_loop.induct) (simp_all add: add_failed_segment_to_list_def)

lemma add_free_freed:
  assumes fc: "free_counted sm"
  shows "\<exists>sm'. add_free_segment_to_list p sm = Inr sm' \<and> free_counted sm' \<and> mem sm' = mem sm
    \<and> same_lists sm sm' \<and> (\<forall>a. a = p \<or> freed a sm \<longrightarrow> freed a sm')"
proof -
  let ?sm = "sm\<lparr>mFreeList := p # mFreeList sm, mFreeSegmentListSize := mFreeSegmentListSize sm + 1\<rparr>"
  define k where "k = length (mFreeList ?sm) - unat (kSegFreeThreshold div 2)"
  have n: "unat (mFreeSegmentListSize ?sm) = length (mFreeList ?sm)"
    using fc by (simp add: free_counted_def unat_word_ariths)
  show ?thesis
  proof (cases "mFreeSegmentListSize ?sm > kSegFreeThreshold")
    case False
    then have "length (mFreeList ?sm) \<le> 256"
      using n by (simp add: word_less_nat_alt kSegFreeThreshold_def)
    with False n show ?thesis
      by (auto simp: add_free_segment_to_list_def shrink_if_big_def free_counted_def same_lists_def freed_def)
  next
    case True
    let ?s2 = "?sm\<lparr>mFreeList := drop k (mFreeList ?sm), live := live ?sm - set (take k (mFreeList ?sm)),
      mFreeSegmentListSize := mFreeSegmentListSize ?sm - of_nat k\<rparr>"
    have st: "add_free_segment_to_list p sm = Inr ?s2"
      using True shrink_loop_eq [OF n k_def]
      by (simp add: add_free_segment_to_list_def shrink_if_big_def shrink_free_segment_list_def)
    have "set (mFreeList ?sm) = set (take k (mFreeList ?sm)) \<union> set (drop k (mFreeList ?sm))"
      by (simp flip: set_append)
    then have "freed a ?s2" if "a = p \<or> freed a sm" for a
      using that unfolding freed_def by auto
    moreover have "free_counted ?s2"
      using word_minus_of_nat [OF n, of k] fc
      by (simp add: free_counted_def k_def kSegFreeThreshold_def)
    ultimately show ?thesis using st by (simp add: same_lists_def)
  qed
qed

lemma dealloc_sent_freed:
  assumes "free_counted sm" "mSentSegmentLists sm sn = kept @ todo"
  shows "\<exists>sm'. dealloc_sent sn last_seq kept todo sm = Inr sm' \<and> free_counted sm' \<and> mem sm' = mem sm
    \<and> mFailedSegmentList sm' = mFailedSegmentList sm
    \<and> (\<forall>sn'. sn' \<noteq> sn \<longrightarrow> mSentSegmentLists sm' sn' = mSentSegmentLists sm sn')
    \<and> (\<forall>p\<in>set todo. sqn sm p \<le> last_seq \<longrightarrow> freed p sm') \<and> (\<forall>a. freed a sm \<longrightarrow> freed a sm')"
  using assms
proof (induction sn last_seq kept todo sm rule: dealloc_sent.induct)
  case (2 sn last_seq kept p todo sm)
  show ?case
  proof (cases "sqn sm p \<le> last_seq")
    case True
    obtain sm1 where sm1: "add_free_segment_to_list p sm = Inr sm1" "free_counted sm1" "mem sm1 = mem sm"
      "same_lists sm sm1" "freed p sm1" "\<forall>a. freed a sm \<longrightarrow> freed a sm1"
      using add_free_freed [OF "2.prems"(1), of p] by blast
    let ?t = "set_sent sn (kept @ todo) sm1"
    have fr: "freed a ?t = freed a sm1" for a by (simp add: freed_def)
    from "2.IH"(1) [OF True, of sm1] sm1(2) obtain sm' where
      "dealloc_sent sn last_seq kept todo ?t = Inr sm'" "free_counted sm'" "mem sm' = mem ?t"
      "mFailedSegmentList sm' = mFailedSegmentList ?t"
      "\<forall>sn'. sn' \<noteq> sn \<longrightarrow> mSentSegmentLists sm' sn' = mSentSegmentLists ?t sn'"
      "\<forall>p\<in>set todo. sqn ?t p \<le> last_seq \<longrightarrow> freed p sm'" "\<forall>a. freed a ?t \<longrightarrow> freed a sm'"
      by (auto simp: free_counted_def)
    with sm1 True show ?thesis by (simp add: fr same_listsD [OF sm1(4)])
  next
    case False
    with "2.IH"(2) [OF False "2.prems"(1)] "2.prems"(2) show ?thesis by simp
  qed
qed simp

section \<open>Properties\<close>



text \<open>
  C27: a segment that the peer asks to be retransmitted and acknowledges before the retry ends up
  on the failed list although it has been given back: it is on the free list at the same time, or
  its memory has been released. The next sender thread transmits a segment that another
  thread may already be filling.
\<close>

theorem retransmit_then_ack_aliases:
  assumes wf: "sm_wf held sm" and p: "p \<in> set (mSentSegmentLists sm kSNData)"
    and rng: "a \<le> sqn sm p" "sqn sm p \<le> b" and ack: "sqn sm p \<le> last_data"
  shows "\<exists>sm'. deallocate_sent_segments_by_peer last_control last_data
        (retransmit_missing_segments_by_peer 0 a b sm) = Inr sm'
      \<and> p \<in> set (mFailedSegmentList sm') \<and> (p \<in> set (mFreeList sm') \<or> p \<notin> live sm')"
proof -
  let ?r = "retransmit_missing_segments_by_peer 0 a b sm"
  have r: "?r = retransmit_loop a b (mSentSegmentLists sm kSNData) sm"
    by (simp add: retransmit_missing_segments_by_peer_def)
  note eff = retransmit_loop_effect [of a b "mSentSegmentLists sm kSNData" sm, folded r]
  have fc: "free_counted ?r"
    using heap_wfD(1) [OF sm_wfD(1) [OF wf]] sm_wfD(2) [OF wf] by (simp add: free_counted_def eff)
  obtain s1 where s1: "dealloc_sent kSNControl last_control [] (mSentSegmentLists ?r kSNControl) ?r = Inr s1"
    "free_counted s1" "mem s1 = mem ?r" "mFailedSegmentList s1 = mFailedSegmentList ?r"
    "mSentSegmentLists s1 kSNData = mSentSegmentLists ?r kSNData"
    using dealloc_sent_freed [OF fc, of kSNControl "[]" "mSentSegmentLists ?r kSNControl" last_control] by auto
  obtain s2 where s2: "dealloc_sent kSNData last_data [] (mSentSegmentLists s1 kSNData) s1 = Inr s2"
    "free_counted s2" "mFailedSegmentList s2 = mFailedSegmentList s1"
    "\<forall>p\<in>set (mSentSegmentLists s1 kSNData). sqn s1 p \<le> last_data \<longrightarrow> freed p s2"
    using dealloc_sent_freed [OF s1(2), of kSNData "[]" "mSentSegmentLists s1 kSNData" last_data] by auto
  have "shrink_if_big s2 = Inr s2"
    using s2(2) by (simp add: free_counted_def shrink_if_big_def kSegFreeThreshold_def word_less_nat_alt)
  then have res: "deallocate_sent_segments_by_peer last_control last_data ?r = Inr s2"
    using s1(1) s2(1) by (simp add: deallocate_sent_segments_by_peer_def)
  moreover have "p \<in> set (mFailedSegmentList s2)" using p rng by (simp add: s2(3) s1(4) eff)
  moreover have "freed p s2" using s2(4) p ack by (simp add: s1(3,5) eff)
  ultimately show ?thesis by (auto simp: freed_def)
qed

text \<open>The state after one data segment, number 0, has been sent.\<close>

definition one_sent :: seg_mgr where
  "one_sent = (seg_mgr_ctor (counter_ctor 0 True 0 0))
     \<lparr>live := {0}, next_addr := 1, mSentSegmentLists := (\<lambda>_. [])(kSNData := [0])\<rparr>"

theorem retransmit_then_ack_aliases_witness:
  "sm_wf {#} one_sent \<and> (\<exists>sm'. deallocate_sent_segments_by_peer 0 0
        (retransmit_missing_segments_by_peer 0 0 0 one_sent) = Inr sm'
      \<and> 0 \<in> set (mFailedSegmentList sm') \<and> (0 \<in> set (mFreeList sm') \<or> 0 \<notin> live sm'))"
proof -
  have wf: "sm_wf {#} one_sent"
    by (auto simp: sm_wf_def heap_wf_def one_sent_def seg_mgr_ctor_def owned_def queue_ptrs_def
        squeue_ctor_def segment_wf_def zero_segment_def)
  have p: "0 \<in> set (mSentSegmentLists one_sent kSNData)" "sqn one_sent 0 = 0"
    by (simp_all add: one_sent_def seg_mgr_ctor_def zero_segment_def)
  with wf retransmit_then_ack_aliases [OF wf p(1), of 0 0 0 0] show ?thesis by simp
qed

end
