(* ===== verification/NetDevice.thy ===== *)
theory NetDevice
  imports Prelude
begin

text \<open>
  The parts of an adapter that talk to the hardware: \<open>sc::Device\<close>, \<open>sc::P2PServer\<close> and
  \<open>sc::ServerSocket\<close> (linux/core/src). Each is a small state machine around virtual functions of the
  device plugins; the results of these are arguments. The common contract is the locale \<open>switchable\<close>.
\<close>

section \<open>Device\<close>

datatype device_state = kOff | kTurningOn | kOn | kTurningOff

text \<open>\<open>turn_on_impl\<close> and \<open>turn_off_impl\<close> run in the intermediate state and return \<open>res\<close>.\<close>

definition turn_on :: "bool \<Rightarrow> device_state \<Rightarrow> bool \<times> device_state" where
  "turn_on res state =
     (if state = kOn \<or> state = kTurningOn then (False, state)
      else if \<not> res then (res, kOff) else (res, kOn))"

definition turn_off :: "bool \<Rightarrow> device_state \<Rightarrow> bool \<times> device_state" where
  "turn_off res state =
     (if state = kOff \<or> state = kTurningOff then (False, state)
      else if \<not> res then (res, kOn) else (res, kOff))"

section \<open>P2P server\<close>

datatype p2p_server_state = kDisallowed | kAllowed

definition allow_discover :: "bool \<Rightarrow> p2p_server_state \<Rightarrow> bool \<times> p2p_server_state" where
  "allow_discover res state =
     (if state = kAllowed then (False, state)
      else if \<not> res then (res, kDisallowed) else (res, kAllowed))"

definition disallow_discover :: "bool \<Rightarrow> p2p_server_state \<Rightarrow> bool \<times> p2p_server_state" where
  "disallow_discover res state =
     (if state = kDisallowed then (False, state)
      else if \<not> res then (res, kAllowed) else (res, kDisallowed))"

section \<open>Server socket\<close>

datatype server_socket_state = kClosed | kOpening | kOpened | kClosing

definition socket_open :: "bool \<Rightarrow> server_socket_state \<Rightarrow> bool \<times> server_socket_state" where
  "socket_open res state =
     (if state \<noteq> kClosed then (False, state)
      else if \<not> res then (res, kClosed) else (res, kOpened))"

definition socket_close :: "bool \<Rightarrow> server_socket_state \<Rightarrow> bool \<times> server_socket_state" where
  "socket_close res state = (if state \<noteq> kOpened then (False, state) else (res, kClosed))"

text \<open>
  \<open>res\<close> and \<open>errno\<close> are what \<open>send_impl\<close> or \<open>receive_impl\<close> returned and left behind. The constants are
  those of Linux.
\<close>

definition EINTR :: int where "EINTR = 4"
definition EAGAIN :: int where "EAGAIN = 11"
definition EINPROGRESS :: int where "EINPROGRESS = 115"

definition socket_send :: "int \<Rightarrow> int \<Rightarrow> server_socket_state \<Rightarrow> int \<times> server_socket_state" where
  "socket_send res errno state =
     (if state \<noteq> kOpened then (- 1, state)
      else if errno \<noteq> EINTR \<and> errno \<noteq> EAGAIN \<and> errno \<noteq> 0 \<and> res < 0 then (res, kClosed)
      else (res, state))"

definition socket_receive :: "int \<Rightarrow> int \<Rightarrow> server_socket_state \<Rightarrow> int \<times> server_socket_state" where
  "socket_receive res errno state =
     (if state \<noteq> kOpened then (- 1, state)
      else if errno \<noteq> EINTR \<and> errno \<noteq> EAGAIN \<and> errno \<noteq> 0 \<and> res \<noteq> - 999 \<and> res < 0 then (res, kClosed)
      else (res, state))"

section \<open>The contract\<close>

text \<open>
  What an adapter relies on when it brings a part up and down: from the down state the attempt
  succeeds exactly if the implementation does, and a failed attempt leaves the part down; a part
  that is up refuses to come up again and a part that is down refuses to go down; from the up
  state a successful attempt leads down.
\<close>

locale switchable =
  fixes up :: "bool \<Rightarrow> 's \<Rightarrow> bool \<times> 's"
    and down :: "bool \<Rightarrow> 's \<Rightarrow> bool \<times> 's"
    and on :: 's
    and off :: 's
  assumes distinct: "on \<noteq> off"
    and up_off: "up r off = (r, if r then on else off)"
    and up_on: "up r on = (False, on)"
    and down_on: "fst (down r on) = r" "r \<Longrightarrow> snd (down r on) = off"
    and down_off: "down r off = (False, off)"
    and down_stable: "snd (down r on) \<in> {on, off}"
begin

text \<open>A list of attempts: \<open>(True, r)\<close> brings the part up with implementation result \<open>r\<close>.\<close>

primrec attempts :: "(bool \<times> bool) list \<Rightarrow> 's \<Rightarrow> 's" where
  "attempts [] s = s"
| "attempts (a # as) s = attempts as (snd (if fst a then up (snd a) s else down (snd a) s))"

text \<open>The part is never left in an intermediate state.\<close>

lemma attempts_stable: "s \<in> {on, off} \<Longrightarrow> attempts as s \<in> {on, off}"
proof (induction as arbitrary: s)
  case (Cons a as)
  from Cons.prems have "snd (if fst a then up (snd a) s else down (snd a) s) \<in> {on, off}"
    using up_off [of "snd a"] up_on [of "snd a"] down_off [of "snd a"] down_stable [of "snd a"] by auto
  from Cons.IH [OF this] show ?case by simp
qed simp

lemma drive_stable:
  "s \<in> {on, off} \<Longrightarrow> foldl (\<lambda>s (b, r). snd (if b then up r s else down r s)) s as \<in> {on, off}"
proof -
  have "foldl (\<lambda>s (b, r). snd (if b then up r s else down r s)) s as = attempts as s"
    by (induction as arbitrary: s) (auto split: prod.splits)
  then show "s \<in> {on, off} \<Longrightarrow> ?thesis" using attempts_stable by simp
qed

text \<open>An attempt to come up that reports success leaves the part up.\<close>

lemma up_reports: "s \<in> {on, off} \<Longrightarrow> fst (up r s) \<Longrightarrow> snd (up r s) = on"
  using up_off [of r] up_on [of r] by auto

lemma down_reports: "s \<in> {on, off} \<Longrightarrow> fst (down r s) \<Longrightarrow> snd (down r s) = off"
  using down_on [of r] down_off [of r] by auto

text \<open>Undoing an attempt that started in the off state ends in the off state.\<close>

lemma undo: "snd (down True (snd (up r off))) = off"
  using up_off [of r] down_on [of True] down_off [of True] by (cases r) simp_all

end

interpretation dev: switchable turn_on turn_off kOn kOff
  by unfold_locales (auto simp: turn_on_def turn_off_def)

interpretation p2p: switchable allow_discover disallow_discover kAllowed kDisallowed
  by unfold_locales (auto simp: allow_discover_def disallow_discover_def)

interpretation sock: switchable socket_open socket_close kOpened kClosed
  by unfold_locales (auto simp: socket_open_def socket_close_def)

text \<open>What the socket's state says about an error: only a hard error closes it.\<close>

lemma socket_receive_closed:
  "snd (socket_receive res errno kOpened) = kClosed \<longleftrightarrow>
     errno \<notin> {0, EINTR, EAGAIN} \<and> res < 0 \<and> res \<noteq> - 999"
  by (auto simp: socket_receive_def)

section \<open>Property\<close>


end
