(* ===== verification/Transport.thy ===== *)
theory Transport
  imports SegmentOwnership NetDevice
begin

text \<open>
  The path of a packet through the program: \<open>Core::send\<close> and \<open>Core::receive\<close> (linux/core/src/Core.cpp),
  the packet part of \<open>ProtocolManager\<close>, and the parts of \<open>SenderThread::sender_loop\<close> and
  \<open>ReceiverThread::receiver_loop\<close> that take a segment off the queues, handle the outcome of the
  transmission, and turn a received buffer into a queued segment. The threads around these parts
  are in theory \<open>AdapterThreads\<close>.
\<close>

section \<open>Core::send and Core::receive\<close>

datatype core_state = kCoreStateIdle | kCoreStateStarting | kCoreStateReady | kCoreStateStopping

record endpoint =
  ep_state :: core_state
  sPacketId :: u16
  ep_sm :: seg_mgr
  mSendRequestSize :: counter
  mSendArrivalTime :: arrival_counter
  mSendRTT :: counter
  mMediaRTT :: counter

definition send_packet :: "u8 list \<Rightarrow> bool \<Rightarrow> i32 \<Rightarrow> i32 \<Rightarrow> seg_mgr \<Rightarrow> fault + i32 \<times> seg_mgr" where
  "send_packet serialized is_control sec usec sm = send_to_segment_manager serialized is_control sec usec sm"

definition recv_packet :: "bool \<Rightarrow> seg_mgr \<Rightarrow> fault + (u32 \<times> u8 list option) \<times> seg_mgr" where
  "recv_packet is_control sm =
     and_then (recv_from_segment_manager is_control sm) (\<lambda>((pd, p_data_buf), sm1).
     and_then (require (pd_len pd = 0 \<or> p_data_buf \<noteq> None) Assertion_failure) (\<lambda>_.
     Inr ((pd_len pd, p_data_buf), sm1)))"

text \<open>
  \<open>dataBuffer\<close> holds exactly \<open>dataLength\<close> bytes. \<open>now\<close> is the time of day at which the request arrives and
  at which the segments are stamped.
\<close>

definition core_send :: "u8 list \<Rightarrow> bool \<Rightarrow> int \<times> int \<Rightarrow> endpoint \<Rightarrow> fault + i32 \<times> endpoint" where
  "core_send dataBuffer is_control now ep =
     (if ep_state ep \<noteq> kCoreStateReady then Inr (- 1, ep)
      else
       (let dataLength = of_nat (length dataBuffer) :: u32;
            ep1 = ep\<lparr>mSendRequestSize := set_value dataLength (mSendRequestSize ep),
                     mSendArrivalTime := arrive now (mSendArrivalTime ep)\<rparr>
        in case data_to_protocol_data dataBuffer dataLength (sPacketId ep1) of (pd, next_id) \<Rightarrow>
           and_then (serialize pd dataBuffer 0 dataLength) (\<lambda>serialized_vector.
           and_then (require (length serialized_vector > 0) Assertion_failure) (\<lambda>_.
           and_then (send_packet serialized_vector is_control (word_of_int (fst now)) (word_of_int (snd now))
                       (ep_sm ep1)) (\<lambda>(sent_bytes, sm1).
           Inr (sent_bytes, ep1\<lparr>sPacketId := next_id, ep_sm := sm1\<rparr>))))))"

definition core_receive :: "bool \<Rightarrow> endpoint \<Rightarrow> fault + (i32 \<times> u8 list option) \<times> endpoint" where
  "core_receive is_control ep =
     (if ep_state ep \<noteq> kCoreStateReady then Inr ((- 1, None), ep)
      else and_then (recv_packet is_control (ep_sm ep)) (\<lambda>((packet_size, packet), sm1).
           Inr ((packet_size, packet), ep\<lparr>ep_sm := sm1\<rparr>)))"

text \<open>Round trip times are kept in milliseconds; C++ division truncates toward zero.\<close>

definition set_send_rtt :: "i32 \<Rightarrow> endpoint \<Rightarrow> endpoint" where
  "set_send_rtt send_rtt ep = ep\<lparr>mSendRTT := set_value (word_of_int (sint send_rtt sdiv 1000)) (mSendRTT ep)\<rparr>"

definition set_media_rtt :: "i32 \<Rightarrow> endpoint \<Rightarrow> endpoint" where
  "set_media_rtt media_rtt ep = ep\<lparr>mMediaRTT := set_value (word_of_int (sint media_rtt sdiv 1000)) (mMediaRTT ep)\<rparr>"

section \<open>The sender loop: choosing and disposing of a segment\<close>

text \<open>Priority 1 is the failed list, 2 the control queue, 3 the data queue.\<close>

definition pick_segment :: "seg_mgr \<Rightarrow> fault + addr option \<times> seg_mgr" where
  "pick_segment sm = (case pop_failed_segment sm of
     (Some p, sm1) \<Rightarrow> Inr (Some p, sm1)
   | (None, sm1) \<Rightarrow> dequeue kDeqSendControlData sm1)"


datatype loop_exit = Loop_continue | Loop_break | Loop_next

text \<open>
  What happens to the segment after \<open>mAdapter->send\<close> has returned \<open>res\<close>: on any error it goes to the failed
  list, and whether the loop goes on depends on the error.
\<close>

definition after_send ::
    "int \<Rightarrow> int \<Rightarrow> bool \<Rightarrow> addr \<Rightarrow> seg_mgr \<Rightarrow> loop_exit \<times> seg_mgr" where
  "after_send res errno is_disconnecting_on_purpose segment_to_send sm =
     (let failed = add_failed_segment_to_list segment_to_send sm in
      if res \<le> 0 then
        if is_disconnecting_on_purpose then (Loop_break, failed)
        else if errno = 0 then (Loop_continue, failed)
        else if errno = EINTR then (Loop_continue, failed)
        else if errno = EAGAIN then (Loop_continue, failed)
        else (Loop_break, failed)
      else if res \<noteq> int SEGMENT_DATA_SIZE then (Loop_break, failed)
      else (Loop_next, add_sent_segment_to_list
              (if is_control_segment (mem sm segment_to_send) then kSNControl else kSNData)
              segment_to_send sm))"

section \<open>The receiver loop: from the buffer to the queue\<close>

datatype recv_result = RES_CONTINUE | RES_BREAK | RES_OK

definition receive_buffer :: "int \<Rightarrow> int \<Rightarrow> int \<Rightarrow> recv_result" where
  "receive_buffer res errno n =
     (if res = - 999 then RES_CONTINUE
      else if errno = EINTR then RES_CONTINUE
      else if errno = EAGAIN \<or> errno = EINPROGRESS then RES_CONTINUE
      else if res \<noteq> n then RES_BREAK
      else RES_OK)"

text \<open>Microseconds, in 64 bits, then cut to an \<open>int\<close>.\<close>

definition rtt_us :: "int \<times> int \<Rightarrow> i32 \<Rightarrow> i32 \<Rightarrow> i32" where
  "rtt_us end_ts sec usec =
     word_of_int ((fst end_ts * 1000 * 1000 + snd end_ts) - (sint sec * 1000 * 1000 + sint usec))"

definition handle_ack :: "int \<times> int \<Rightarrow> segment \<Rightarrow> endpoint \<Rightarrow> endpoint" where
  "handle_ack end_ts seg ep =
     set_media_rtt (rtt_us end_ts (media_start_ts_sec seg) (media_start_ts_usec seg))
      (set_send_rtt (rtt_us end_ts (send_start_ts_sec seg) (send_start_ts_usec seg)) ep)"

text \<open>
  One round of the loop. \<open>res\<close>, \<open>errno\<close> and \<open>buf\<close> are what \<open>mAdapter->receive\<close> returned and left in the
  buffer. The segment popped at the end, under the comment that announces its deallocation, is
  dropped, as is the segment of a round that received nothing or an acknowledgement.
\<close>

definition receiver_round ::
    "int \<Rightarrow> int \<Rightarrow> u8 list \<Rightarrow> int \<times> int \<Rightarrow> endpoint \<Rightarrow> fault + loop_exit \<times> endpoint" where
  "receiver_round res errno buf now ep =
     and_then (pop_free_segment (ep_sm ep)) (\<lambda>(p, sm1).
     let sm2 = set_seg p ((mem sm1 p)\<lparr>data := buf\<rparr>) sm1 in
     case receive_buffer res errno (int SEGMENT_DATA_SIZE) of
       RES_CONTINUE \<Rightarrow> Inr (Loop_continue, ep\<lparr>ep_sm := sm2\<rparr>)
     | RES_BREAK \<Rightarrow> Inr (Loop_break, ep\<lparr>ep_sm := sm2\<rparr>)
     | RES_OK \<Rightarrow>
        (let seg = parse_segment_header (mem sm2 p);
             sm3 = set_seg p seg sm2
         in if is_ack_segment seg then Inr (Loop_continue, handle_ack now seg (ep\<lparr>ep_sm := sm3\<rparr>))
            else and_then (enqueue (if is_control_segment seg then kSQRecvControl else kSQRecvData) p sm3) (\<lambda>sm4.
                 and_then (pop_free_segment sm4) (\<lambda>(_, sm5).
                 Inr (Loop_next, ep\<lparr>ep_sm := sm5\<rparr>)))))"

end
