(* ===== verification/ServerAdapter.thy ===== *)
theory ServerAdapter
  imports Transport
begin

text \<open>
  \<open>sc::ServerAdapter\<close> (linux/core/src/ServerAdapter.cpp, inc/ServerAdapter.h): one network interface
  with its device, P2P server and socket, its connection state, and the flags through which it
  controls its sender and receiver threads (inc/SenderThread.h, inc/ReceiverThread.h). What an
  operation causes elsewhere (callbacks, control messages, calls of the segment manager, notified
  listeners) is appended to the list \<open>events\<close> in the order of the calls. The results of the device
  plugins and the progress of the other threads during an operation are arguments; the timestamps
  taken for the event log are left out.
\<close>

section \<open>State\<close>

datatype adapter_state =
    kDisconnected | kConnecting | kActive | kDisconnecting | kGoingSleeping | kSleeping | kWakingUp

datatype 'cb event =
    Listener_notified nat adapter_state adapter_state
  | Callback 'cb bool
  | Request_sleep i32
  | Request_wake_up i32
  | Request_disconnect i32 u32 u32
  | Request_disconnect_ack i32
  | Wait_receiving u32 u32
  | Wake_up_dequeue deq_type
  | Disconnect_start_stamped

text \<open>The flags of the two threads. The constructor sets only some of them.\<close>

record loop_thread =
  launched :: bool
  is_thread_running :: bool
  is_loop_ends :: bool
  is_loop_enabled :: bool

record sender_thread = loop_thread +
  is_loop_paused :: bool
  last_seq_no_control :: u32
  last_seq_no_data :: u32

record 'cb adapter =
  mId :: i32
  mState :: adapter_state
  mIsDisconnectingOnPurpose :: bool
  mIsDisconnectingOnPurposePeer :: bool
  mDevice :: "device_state option"
  mP2PServer :: "p2p_server_state option"
  mServerSocket :: "server_socket_state option"
  mSenderThread :: "sender_thread option"
  mReceiverThread :: "loop_thread option"
  mConnectCallback :: "'cb option"
  mDisconnectCallback :: "'cb option"
  mStateListeners :: "nat list"
  mSendDataSize :: counter
  mReceiveDataSize :: counter
  events :: "'cb event list"

text \<open>
  What the world contributes to one operation: the results of the plugins; whether the sender
  thread puts the adapter to sleep while a disconnection polls for it; whether the loops end
  while the disconnection waits for them; whether a switch transaction is under way.
\<close>

record impl =
  turn_on_ok :: bool
  turn_off_ok :: bool
  allow_ok :: bool
  disallow_ok :: bool
  open_ok :: bool
  close_ok :: bool
  falls_asleep :: bool
  sender_loop_ends :: bool
  receiver_loop_ends :: bool
  switch_ongoing :: bool

definition adapter_ctor :: "i32 \<Rightarrow> counter \<Rightarrow> 'cb adapter" where
  "adapter_ctor i c = \<lparr>mId = i, mState = kDisconnected, mIsDisconnectingOnPurpose = False,
     mIsDisconnectingOnPurposePeer = False, mDevice = None, mP2PServer = None, mServerSocket = None,
     mSenderThread = None, mReceiverThread = None, mConnectCallback = None, mDisconnectCallback = None,
     mStateListeners = [], mSendDataSize = fst (start_measure_speed c),
     mReceiveDataSize = fst (start_measure_speed c), events = []\<rparr>"

definition initialize ::
    "device_state option \<Rightarrow> p2p_server_state option \<Rightarrow> server_socket_state option \<Rightarrow> 'cb adapter \<Rightarrow> 'cb adapter"
  where
  "initialize device p2pServer serverSocket a =
     a\<lparr>mDevice := device, mP2PServer := p2pServer, mServerSocket := serverSocket\<rparr>"

definition emit :: "'cb event \<Rightarrow> 'cb adapter \<Rightarrow> 'cb adapter" where
  "emit e a = a\<lparr>events := events a @ [e]\<rparr>"

definition set_state :: "adapter_state \<Rightarrow> 'cb adapter \<Rightarrow> 'cb adapter" where
  "set_state new_state a =
     a\<lparr>mState := new_state,
       events := events a @ map (\<lambda>l. Listener_notified l (mState a) new_state) (mStateListeners a)\<rparr>"

definition listen_state :: "nat option \<Rightarrow> 'cb adapter \<Rightarrow> 'cb adapter" where
  "listen_state listener a = (case listener of None \<Rightarrow> a
     | Some l \<Rightarrow> a\<lparr>mStateListeners := mStateListeners a @ [l]\<rparr>)"

definition call :: "'cb option \<Rightarrow> bool \<Rightarrow> 'cb adapter \<Rightarrow> fault + 'cb adapter" where
  "call callback is_success a = (case callback of
     None \<Rightarrow> Inl Null_dereference | Some cb \<Rightarrow> Inr (emit (Callback cb is_success) a))"

definition call_if_set :: "'cb option \<Rightarrow> bool \<Rightarrow> 'cb adapter \<Rightarrow> 'cb adapter" where
  "call_if_set callback is_success a = (case callback of
     None \<Rightarrow> a | Some cb \<Rightarrow> emit (Callback cb is_success) a)"

section \<open>The threads' flags\<close>

text \<open>
  The members a constructor leaves unset hold what the memory held: \<open>u\<close>. A launched thread sets its
  flags itself when it starts to run (theory \<open>AdapterThreads\<close>).
\<close>

definition sender_thread_ctor :: "sender_thread \<Rightarrow> sender_thread" where
  "sender_thread_ctor u = u\<lparr>launched := False, is_loop_enabled := False, is_loop_paused := False\<rparr>"

definition receiver_thread_ctor :: "loop_thread \<Rightarrow> loop_thread" where
  "receiver_thread_ctor u = u\<lparr>launched := False, is_loop_enabled := False\<rparr>"

definition launch_threads :: "sender_thread \<Rightarrow> loop_thread \<Rightarrow> 'cb adapter \<Rightarrow> 'cb adapter" where
  "launch_threads u v a =
     (let s = (case mSenderThread a of None \<Rightarrow> sender_thread_ctor u | Some s \<Rightarrow> s);
          r = (case mReceiverThread a of None \<Rightarrow> receiver_thread_ctor v | Some r \<Rightarrow> r)
      in a\<lparr>mSenderThread := Some (s\<lparr>launched := True\<rparr>), mReceiverThread := Some (r\<lparr>launched := True\<rparr>)\<rparr>)"

definition finish_thread :: "'cb adapter \<Rightarrow> fault + 'cb adapter" where
  "finish_thread a = (case (mSenderThread a, mReceiverThread a) of
     (Some s, Some r) \<Rightarrow> Inr (a\<lparr>mSenderThread := Some (s\<lparr>is_thread_running := False\<rparr>),
                               mReceiverThread := Some (r\<lparr>is_thread_running := False\<rparr>)\<rparr>)
   | _ \<Rightarrow> Inl Null_dereference)"

definition update_sender :: "(sender_thread \<Rightarrow> sender_thread) \<Rightarrow> 'cb adapter \<Rightarrow> fault + 'cb adapter" where
  "update_sender f a = (case mSenderThread a of
     None \<Rightarrow> Inl Null_dereference | Some s \<Rightarrow> Inr (a\<lparr>mSenderThread := Some (f s)\<rparr>))"

definition update_receiver :: "(loop_thread \<Rightarrow> loop_thread) \<Rightarrow> 'cb adapter \<Rightarrow> fault + 'cb adapter" where
  "update_receiver f a = (case mReceiverThread a of
     None \<Rightarrow> Inl Null_dereference | Some r \<Rightarrow> Inr (a\<lparr>mReceiverThread := Some (f r)\<rparr>))"

definition pause_loop :: "sender_thread \<Rightarrow> sender_thread" where
  "pause_loop s = s\<lparr>is_loop_paused := True\<rparr>"

definition resume_loop :: "sender_thread \<Rightarrow> sender_thread" where
  "resume_loop s = s\<lparr>is_loop_paused := False\<rparr>"

section \<open>Connecting\<close>

text \<open>
  The three parts are brought up one after the other; if one fails, those before it are taken
  down again. \<open>\<lambda>\<close>-bound names are the states after the previous stage.
\<close>

definition bring_up ::
    "impl \<Rightarrow> device_state \<Rightarrow> p2p_server_state \<Rightarrow> server_socket_state
     \<Rightarrow> bool \<times> device_state \<times> p2p_server_state \<times> server_socket_state" where
  "bring_up w dev p2p sock =
     (let (dev_ok, dev1) =
        (if dev \<noteq> kOn \<and> dev \<noteq> kTurningOn
         then (let (res, d) = turn_on (turn_on_ok w) dev in (res \<and> d = kOn, d)) else (True, dev))
      in if \<not> dev_ok then (False, dev1, p2p, sock)
      else let (p2p_ok, p2p1) =
        (if p2p \<noteq> kAllowed
         then (let (res, p) = allow_discover (allow_ok w) p2p in (res \<and> p = kAllowed, p)) else (True, p2p))
      in if \<not> p2p_ok then (False, snd (turn_off (turn_off_ok w) dev1), p2p1, sock)
      else let (sock_ok, sock1) =
        (if sock \<noteq> kOpened \<and> sock \<noteq> kOpening
         then (let (res, s) = socket_open (open_ok w) sock in (res \<and> s = kOpened, s)) else (True, sock))
      in if \<not> sock_ok
         then (False, snd (turn_off (turn_off_ok w) dev1), snd (disallow_discover (disallow_ok w) p2p1), sock1)
      else (True, dev1, p2p1, sock1))"

definition connect_stages :: "impl \<Rightarrow> 'cb adapter \<Rightarrow> fault + bool \<times> 'cb adapter" where
  "connect_stages w a = (case (mDevice a, mP2PServer a, mServerSocket a) of
     (Some dev, Some p2p, Some sock) \<Rightarrow>
       (case bring_up w dev p2p sock of (ok, dev1, p2p1, sock1) \<Rightarrow>
         (let a1 = a\<lparr>mDevice := Some dev1, mP2PServer := Some p2p1, mServerSocket := Some sock1\<rparr>
          in if \<not> ok then Inr (False, a1)
             else and_then (update_sender (\<lambda>s. s\<lparr>is_loop_enabled := True\<rparr>) a1) (\<lambda>a2.
                  and_then (update_receiver (\<lambda>r. r\<lparr>is_loop_enabled := True\<rparr>) a2) (\<lambda>a3.
                  Inr (True, a3)))))
   | _ \<Rightarrow> Inr (False, a))"

definition connect_internal :: "'cb option \<Rightarrow> impl \<Rightarrow> 'cb adapter \<Rightarrow> fault + 'cb adapter" where
  "connect_internal callback w a =
     and_then (connect_stages w (set_state kConnecting (a\<lparr>mConnectCallback := callback\<rparr>))) (\<lambda>(res, a1).
     let a2 = set_state (if res then kActive else kDisconnected) a1
     in Inr ((call_if_set (mConnectCallback a2) res a2)\<lparr>mConnectCallback := None\<rparr>))"

definition connect :: "'cb option \<Rightarrow> impl \<Rightarrow> 'cb adapter \<Rightarrow> fault + 'cb adapter" where
  "connect callback w a =
     (if mState a \<noteq> kDisconnected then call callback False a else connect_internal callback w a)"

section \<open>Disconnecting\<close>

text \<open>
  Taking the parts down stops at the first that fails. A stage tells whether to go on.
\<close>

definition take_down_socket :: "impl \<Rightarrow> 'cb adapter \<Rightarrow> bool \<times> 'cb adapter" where
  "take_down_socket w a = (case mServerSocket a of None \<Rightarrow> (False, a)
     | Some sock \<Rightarrow>
        if sock \<noteq> kClosed \<and> sock \<noteq> kClosing
        then (case socket_close (close_ok w) sock of (res, sock1) \<Rightarrow>
               (res \<and> sock1 = kClosed, a\<lparr>mServerSocket := Some sock1\<rparr>))
        else (True, a))"

definition take_down_p2p :: "impl \<Rightarrow> 'cb adapter \<Rightarrow> bool \<times> 'cb adapter" where
  "take_down_p2p w a = (case mP2PServer a of None \<Rightarrow> (False, a)
     | Some p2p \<Rightarrow>
        if p2p \<noteq> kDisallowed
        then (case disallow_discover (disallow_ok w) p2p of (res, p2p1) \<Rightarrow> (res, a\<lparr>mP2PServer := Some p2p1\<rparr>))
        else (True, a))"

definition take_down_device :: "impl \<Rightarrow> 'cb adapter \<Rightarrow> bool \<times> 'cb adapter" where
  "take_down_device w a = (case mDevice a of None \<Rightarrow> (False, a)
     | Some dev \<Rightarrow>
        if dev \<noteq> kOff \<and> dev \<noteq> kTurningOff
        then (case turn_off (turn_off_ok w) dev of (res, dev1) \<Rightarrow> (res, a\<lparr>mDevice := Some dev1\<rparr>))
        else (True, a))"

text \<open>\<open>wait_until_loop_ends\<close>: waits unless the flag is set; the loop sets the flag when it ends.\<close>

definition wait_sender_loop_ends :: "impl \<Rightarrow> 'cb adapter \<Rightarrow> fault + 'cb adapter" where
  "wait_sender_loop_ends w a = (case mSenderThread a of None \<Rightarrow> Inr a
     | Some s \<Rightarrow> if is_loop_ends s then Inr a
         else if sender_loop_ends w
         then Inr (a\<lparr>mSenderThread := Some (s\<lparr>is_loop_enabled := False, is_loop_paused := False, is_loop_ends := True\<rparr>)\<rparr>)
         else Inl Would_block)"

definition wait_receiver_loop_ends :: "impl \<Rightarrow> 'cb adapter \<Rightarrow> fault + 'cb adapter" where
  "wait_receiver_loop_ends w a = (case mReceiverThread a of None \<Rightarrow> Inr a
     | Some r \<Rightarrow> if is_loop_ends r then Inr a
         else if receiver_loop_ends w
         then Inr (a\<lparr>mReceiverThread := Some (r\<lparr>is_loop_enabled := False, is_loop_ends := True\<rparr>)\<rparr>)
         else Inl Would_block)"

definition disable_loops :: "adapter_state \<Rightarrow> 'cb adapter \<Rightarrow> 'cb adapter" where
  "disable_loops oldState a =
     a\<lparr>mSenderThread := map_option (\<lambda>s. (if oldState = kSleeping then resume_loop else id)
                            (s\<lparr>is_loop_enabled := False\<rparr>)) (mSenderThread a),
       mReceiverThread := map_option (\<lambda>r. r\<lparr>is_loop_enabled := False\<rparr>) (mReceiverThread a)\<rparr>"

definition disconnect_stages :: "adapter_state \<Rightarrow> impl \<Rightarrow> 'cb adapter \<Rightarrow> fault + bool \<times> 'cb adapter" where
  "disconnect_stages oldState w a =
     (case take_down_socket w (disable_loops oldState a) of (ok1, a1) \<Rightarrow>
        if \<not> ok1 then Inr (False, a1)
        else case take_down_p2p w a1 of (ok2, a2) \<Rightarrow>
        if \<not> ok2 then Inr (False, a2)
        else case take_down_device w a2 of (ok3, a3) \<Rightarrow>
        if \<not> ok3 then Inr (False, a3)
        else and_then (wait_sender_loop_ends w a3) (\<lambda>a4.
             and_then (wait_receiver_loop_ends w a4) (\<lambda>a5. Inr (True, a5))))"

definition disconnect_internal :: "'cb option \<Rightarrow> impl \<Rightarrow> 'cb adapter \<Rightarrow> fault + 'cb adapter" where
  "disconnect_internal callback w a =
     (let oldState = mState a;
          a1 = set_state kDisconnecting (a\<lparr>mDisconnectCallback := callback\<rparr>)
      in and_then (require (switch_ongoing w) Null_dereference) (\<lambda>_.
         and_then (disconnect_stages oldState w (emit Disconnect_start_stamped a1)) (\<lambda>(res, a2).
         let a3 = a2\<lparr>mIsDisconnectingOnPurpose := False, mIsDisconnectingOnPurposePeer := False\<rparr>;
             a4 = set_state (if res then kDisconnected else oldState) a3
         in Inr ((call_if_set (mDisconnectCallback a4) res a4)\<lparr>mDisconnectCallback := None\<rparr>))))"

text \<open>
  The common guard of the two commanded disconnections: an adapter that is about to sleep is polled
  until it sleeps, any other that does not sleep is refused.
\<close>

definition wait_for_sleeping :: "impl \<Rightarrow> 'cb adapter \<Rightarrow> fault + bool \<times> 'cb adapter" where
  "wait_for_sleeping w a =
     (if mState a = kGoingSleeping
      then (if falls_asleep w then Inr (True, set_state kSleeping a) else Inl Would_block)
      else Inr (mState a = kSleeping, a))"

definition disconnect_on_command :: "'cb option \<Rightarrow> impl \<Rightarrow> 'cb adapter \<Rightarrow> fault + 'cb adapter" where
  "disconnect_on_command callback w a =
     and_then (wait_for_sleeping w a) (\<lambda>(sleeping, a1).
     if \<not> sleeping then call callback False a1
     else (case mSenderThread a1 of None \<Rightarrow> Inl Null_dereference
       | Some s \<Rightarrow> disconnect_internal callback w
           (emit (Request_disconnect (mId a1) (last_seq_no_control s) (last_seq_no_data s))
             (a1\<lparr>mIsDisconnectingOnPurpose := True\<rparr>))))"

definition disconnect_on_peer_command ::
    "'cb option \<Rightarrow> u32 \<Rightarrow> u32 \<Rightarrow> impl \<Rightarrow> 'cb adapter \<Rightarrow> fault + 'cb adapter" where
  "disconnect_on_peer_command callback peer_final_seq_no_control peer_final_seq_no_data w a =
     and_then (wait_for_sleeping w a) (\<lambda>(sleeping, a1).
     if \<not> sleeping then call callback False a1
     else disconnect_internal callback w
       (emit (Request_disconnect_ack (mId a1))
         (emit (Wait_receiving peer_final_seq_no_control peer_final_seq_no_data)
           (a1\<lparr>mIsDisconnectingOnPurpose := True\<rparr>))))"

definition disconnect_on_failure :: "'cb option \<Rightarrow> impl \<Rightarrow> 'cb adapter \<Rightarrow> fault + 'cb adapter" where
  "disconnect_on_failure callback w a =
     (if mState a = kDisconnected \<or> mState a = kDisconnecting then call callback False a
      else disconnect_internal callback w a)"

definition peer_knows_disconnecting_on_purpose :: "'cb adapter \<Rightarrow> 'cb adapter" where
  "peer_knows_disconnecting_on_purpose a = a\<lparr>mIsDisconnectingOnPurposePeer := True\<rparr>"

section \<open>Sleeping and waking up\<close>

definition sleep :: "'cb option \<Rightarrow> bool \<Rightarrow> 'cb adapter \<Rightarrow> fault + 'cb adapter" where
  "sleep callback is_send_request a =
     (if mState a \<noteq> kActive then Inr (call_if_set callback False a)
      else case mSenderThread a of None \<Rightarrow> Inl Null_dereference
      | Some s \<Rightarrow>
        (let a1 = (if is_loop_paused s then call_if_set callback False a
                   else emit (Wake_up_dequeue kDeqSendControlData)
                     ((set_state kGoingSleeping
                        (if is_send_request then emit (Request_sleep (mId a)) a else a))
                      \<lparr>mSenderThread := Some (pause_loop s)\<rparr>))
         in Inr (call_if_set callback True a1)))"

definition wake_up :: "'cb option \<Rightarrow> bool \<Rightarrow> 'cb adapter \<Rightarrow> fault + 'cb adapter" where
  "wake_up callback is_send_request a =
     (if mState a \<noteq> kSleeping then Inr (call_if_set callback False a)
      else case mSenderThread a of None \<Rightarrow> Inl Null_dereference
      | Some s \<Rightarrow>
        if is_loop_paused s
        then Inr (call_if_set callback True
               ((set_state kWakingUp
                  (if is_send_request then emit (Request_wake_up (mId a)) a else a))
                \<lparr>mSenderThread := Some (resume_loop s)\<rparr>))
        else Inr (call_if_set callback False a))"

definition connect_or_wake_up :: "'cb option \<Rightarrow> bool \<Rightarrow> impl \<Rightarrow> 'cb adapter \<Rightarrow> fault + 'cb adapter" where
  "connect_or_wake_up callback is_send_request w a =
     (if mState a = kDisconnected then connect callback w a
      else if mState a = kSleeping then wake_up callback is_send_request a
      else Inr a)"

section \<open>Sending and receiving\<close>

text \<open>
  A caller that finds the adapter connecting polls until it is active. \<open>res\<close>, \<open>errno\<close> are those of the
  socket plugin; \<open>now\<close> is the time of transmission, written into the buffer.
\<close>

definition adapter_send ::
    "u8 list \<Rightarrow> int \<times> int \<Rightarrow> int \<Rightarrow> int \<Rightarrow> 'cb adapter \<Rightarrow> fault + int \<times> u8 list \<times> 'cb adapter" where
  "adapter_send buf now res errno a =
     (if mState a = kConnecting then Inl Would_block
      else if mState a \<noteq> kActive then Inr (- 1, buf, a)
      else case mServerSocket a of None \<Rightarrow> Inr (- 2, buf, a)
      | Some sock \<Rightarrow>
        (let buf1 = stamp_media_ts (word_of_int (fst now)) (word_of_int (snd now)) buf in
         case socket_send res errno sock of (ret, sock1) \<Rightarrow>
           (let a1 = a\<lparr>mServerSocket := Some sock1\<rparr>
            in Inr (ret, buf1, if ret > 0
                 then a1\<lparr>mSendDataSize := counter_add (of_nat (length buf)) (mSendDataSize a1)\<rparr> else a1))))"

definition adapter_receive :: "nat \<Rightarrow> int \<Rightarrow> int \<Rightarrow> 'cb adapter \<Rightarrow> fault + int \<times> 'cb adapter" where
  "adapter_receive n res errno a =
     (if mState a = kConnecting then Inl Would_block
      else if mState a \<notin> {kActive, kGoingSleeping, kSleeping, kWakingUp} then Inr (- 1, a)
      else case mServerSocket a of None \<Rightarrow> Inr (- 2, a)
      | Some sock \<Rightarrow>
        (case socket_receive res errno sock of (ret, sock1) \<Rightarrow>
           (let a1 = a\<lparr>mServerSocket := Some sock1\<rparr>
            in Inr (ret, if ret > 0
                 then a1\<lparr>mReceiveDataSize := counter_add (of_nat n) (mReceiveDataSize a1)\<rparr> else a1))))"

end
