(* ===== verification/AdapterContract.thy ===== *)
theory AdapterContract
  imports ServerAdapter
begin

text \<open>
  What the operations of an adapter guarantee: connecting is all or nothing, a commanded
  disconnection takes everything down or is refused, and every listener is told an unbroken chain
  of legal state changes.
\<close>

section \<open>Frame rules\<close>

lemma emit_frame [simp]:
  "mId (emit e a) = mId a" "mState (emit e a) = mState a" "mDevice (emit e a) = mDevice a"
  "mP2PServer (emit e a) = mP2PServer a" "mServerSocket (emit e a) = mServerSocket a"
  "mSenderThread (emit e a) = mSenderThread a" "mReceiverThread (emit e a) = mReceiverThread a"
  "mStateListeners (emit e a) = mStateListeners a" "mConnectCallback (emit e a) = mConnectCallback a"
  "mDisconnectCallback (emit e a) = mDisconnectCallback a" "events (emit e a) = events a @ [e]"
  "mIsDisconnectingOnPurpose (emit e a) = mIsDisconnectingOnPurpose a"
  by (simp_all add: emit_def)

lemma set_state_frame [simp]:
  "mId (set_state s a) = mId a" "mState (set_state s a) = s" "mDevice (set_state s a) = mDevice a"
  "mP2PServer (set_state s a) = mP2PServer a" "mServerSocket (set_state s a) = mServerSocket a"
  "mSenderThread (set_state s a) = mSenderThread a" "mReceiverThread (set_state s a) = mReceiverThread a"
  "mStateListeners (set_state s a) = mStateListeners a" "mConnectCallback (set_state s a) = mConnectCallback a"
  "mDisconnectCallback (set_state s a) = mDisconnectCallback a"
  "mIsDisconnectingOnPurpose (set_state s a) = mIsDisconnectingOnPurpose a"
  by (simp_all add: set_state_def)

lemma call_if_set_simps [simp]:
  "call_if_set None b a = a" "call_if_set (Some cb) b a = emit (Callback cb b) a"
  by (simp_all add: call_if_set_def)

lemma call_simps [simp]:
  "call None b a = Inl Null_dereference" "call (Some cb) b a = Inr (emit (Callback cb b) a)"
  by (simp_all add: call_def)

text \<open>Everything down, both threads present.\<close>

definition all_down :: "'cb adapter \<Rightarrow> bool" where
  "all_down a \<longleftrightarrow> mDevice a = Some kOff \<and> mP2PServer a = Some kDisallowed \<and> mServerSocket a = Some kClosed"

definition all_up :: "'cb adapter \<Rightarrow> bool" where
  "all_up a \<longleftrightarrow> mDevice a = Some kOn \<and> mP2PServer a = Some kAllowed \<and> mServerSocket a = Some kOpened"

definition loops_enabled :: "'cb adapter \<Rightarrow> bool" where
  "loops_enabled a \<longleftrightarrow> (\<exists>s r. mSenderThread a = Some s \<and> mReceiverThread a = Some r
     \<and> is_loop_enabled s \<and> is_loop_enabled r)"

definition has_threads :: "'cb adapter \<Rightarrow> bool" where
  "has_threads a \<longleftrightarrow> mSenderThread a \<noteq> None \<and> mReceiverThread a \<noteq> None"

section \<open>Bringing up is all or nothing\<close>

lemma bring_up_from_down:
  "bring_up w kOff kDisallowed kClosed =
    (if turn_on_ok w \<and> allow_ok w \<and> open_ok w then (True, kOn, kAllowed, kOpened)
     else (False,
       if turn_on_ok w \<and> \<not> turn_off_ok w then kOn else kOff,
       if turn_on_ok w \<and> allow_ok w \<and> \<not> disallow_ok w then kAllowed else kDisallowed,
       kClosed))"
  by (cases "turn_on_ok w"; cases "allow_ok w"; cases "open_ok w")
    (simp_all add: bring_up_def dev.up_off p2p.up_off sock.up_off turn_off_def disallow_discover_def
      dev.down_off p2p.down_off)

lemma connect_stages_from_down:
  assumes "all_down a" "has_threads a"
  shows "\<exists>a'. connect_stages w a = Inr (turn_on_ok w \<and> allow_ok w \<and> open_ok w, a')
    \<and> (turn_on_ok w \<and> allow_ok w \<and> open_ok w \<longrightarrow> all_up a' \<and> loops_enabled a'
        \<and> mSenderThread a' = map_option (\<lambda>s. s\<lparr>is_loop_enabled := True\<rparr>) (mSenderThread a))
    \<and> (\<not> (turn_on_ok w \<and> allow_ok w \<and> open_ok w) \<longrightarrow> mServerSocket a' = Some kClosed
        \<and> mSenderThread a' = mSenderThread a \<and> mReceiverThread a' = mReceiverThread a
        \<and> (turn_off_ok w \<and> disallow_ok w \<longrightarrow> all_down a'))
    \<and> mState a' = mState a \<and> mConnectCallback a' = mConnectCallback a \<and> events a' = events a
    \<and> mStateListeners a' = mStateListeners a"
  using assms
  by (auto simp: connect_stages_def bring_up_from_down all_down_def all_up_def loops_enabled_def has_threads_def
      update_sender_def update_receiver_def Let_def)

text \<open>What the listeners of an adapter are told about one change of its state.\<close>

definition notices :: "adapter_state \<Rightarrow> adapter_state \<Rightarrow> 'cb adapter \<Rightarrow> 'cb event list" where
  "notices old_state new_state a = map (\<lambda>l. Listener_notified l old_state new_state) (mStateListeners a)"

lemma set_state_events [simp]: "events (set_state s a) = events a @ notices (mState a) s a"
  by (simp add: set_state_def notices_def)

lemma notices_cong: "mStateListeners a' = mStateListeners a \<Longrightarrow> notices s s' a' = notices s s' a"
  by (simp add: notices_def)

lemma connect_outcome:
  assumes "mState a = kDisconnected" "all_down a" "has_threads a"
  shows "\<exists>a'. connect (Some cb) w a = Inr a' \<and> mStateListeners a' = mStateListeners a \<and>
    (if turn_on_ok w \<and> allow_ok w \<and> open_ok w
     then mState a' = kActive \<and> all_up a' \<and> loops_enabled a'
       \<and> mSenderThread a' = map_option (\<lambda>s. s\<lparr>is_loop_enabled := True\<rparr>) (mSenderThread a)
       \<and> events a' = events a @ notices kDisconnected kConnecting a @ notices kConnecting kActive a @ [Callback cb True]
     else mState a' = kDisconnected \<and> mServerSocket a' = Some kClosed
       \<and> mSenderThread a' = mSenderThread a \<and> mReceiverThread a' = mReceiverThread a
       \<and> (turn_off_ok w \<and> disallow_ok w \<longrightarrow> all_down a')
       \<and> events a' = events a @ notices kDisconnected kConnecting a @ notices kConnecting kDisconnected a @ [Callback cb False])"
proof -
  let ?a0 = "set_state kConnecting (a\<lparr>mConnectCallback := Some cb\<rparr>)"
  let ?up = "turn_on_ok w \<and> allow_ok w \<and> open_ok w"
  have "all_down ?a0" "has_threads ?a0"
    using assms(2,3) by (simp_all add: all_down_def has_threads_def)
  from connect_stages_from_down [OF this, of w] obtain a1 where
    a1: "connect_stages w ?a0 = Inr (?up, a1)"
    "?up \<longrightarrow> all_up a1 \<and> loops_enabled a1 \<and> mSenderThread a1 = map_option (\<lambda>s. s\<lparr>is_loop_enabled := True\<rparr>) (mSenderThread ?a0)"
    "\<not> ?up \<longrightarrow> mServerSocket a1 = Some kClosed
        \<and> mSenderThread a1 = mSenderThread ?a0 \<and> mReceiverThread a1 = mReceiverThread ?a0
        \<and> (turn_off_ok w \<and> disallow_ok w \<longrightarrow> all_down a1)"
    "mState a1 = mState ?a0" "mConnectCallback a1 = mConnectCallback ?a0" "events a1 = events ?a0"
    "mStateListeners a1 = mStateListeners ?a0" by blast
  define st where "st = (if ?up then kActive else kDisconnected)"
  define a' where "a' = (emit (Callback cb ?up) (set_state st a1))\<lparr>mConnectCallback := None\<rparr>"
  have "connect (Some cb) w a = Inr a'"
    using assms(1) a1(1,5) by (simp add: connect_def connect_internal_def Let_def st_def a'_def call_if_set_def)
  moreover have "events a' = events a @ notices kDisconnected kConnecting a @ notices kConnecting st a @ [Callback cb ?up]"
    using a1(4,6,7) assms(1) by (simp add: a'_def notices_def)
  moreover have "mStateListeners a' = mStateListeners a" "mState a' = st"
    using a1(7) by (simp_all add: a'_def)
  moreover have "all_up a' = all_up a1" "all_down a' = all_down a1" "loops_enabled a' = loops_enabled a1"
    "mSenderThread a' = mSenderThread a1" "mReceiverThread a' = mReceiverThread a1" "mServerSocket a' = mServerSocket a1"
    by (simp_all add: a'_def all_up_def all_down_def loops_enabled_def)
  ultimately show ?thesis
    using a1(2,3) by (cases ?up) (auto simp: st_def)
qed

text \<open>
  C15: connecting is all or nothing. An adapter whose parts are all down becomes active exactly if
  the device, the P2P server and the socket all come up; then all are up, both loops are enabled and
  the callback is called once, with true, after the listeners were told of the two changes of the state. Otherwise the adapter is disconnected again, the socket is
  closed, the loops are as before and the callback is called once, with false; and if the undo steps
  succeed everything is down again.
\<close>

theorem connect_all_or_nothing:
  assumes "mState a = kDisconnected" "all_down a" "has_threads a"
  shows "\<exists>a'. connect (Some cb) w a = Inr a' \<and> mStateListeners a' = mStateListeners a \<and>
    (if turn_on_ok w \<and> allow_ok w \<and> open_ok w
     then mState a' = kActive \<and> all_up a' \<and> loops_enabled a'
       \<and> mSenderThread a' = map_option (\<lambda>s. s\<lparr>is_loop_enabled := True\<rparr>) (mSenderThread a)
       \<and> events a' = events a @ notices kDisconnected kConnecting a @ notices kConnecting kActive a @ [Callback cb True]
     else mState a' = kDisconnected \<and> mServerSocket a' = Some kClosed
       \<and> mSenderThread a' = mSenderThread a \<and> mReceiverThread a' = mReceiverThread a
       \<and> (turn_off_ok w \<and> disallow_ok w \<longrightarrow> all_down a')
       \<and> events a' = events a @ notices kDisconnected kConnecting a @ notices kConnecting kDisconnected a @ [Callback cb False])"
  using assms by (rule connect_outcome)

text \<open>A fresh adapter with two launched threads; the unset members hold \<open>True\<close> and 7.\<close>

definition example_thread :: sender_thread where
  "example_thread = \<lparr>launched = True, is_thread_running = True, is_loop_ends = True, is_loop_enabled = True,
     is_loop_paused = True, last_seq_no_control = 7, last_seq_no_data = 7\<rparr>"

definition example_adapter :: "nat adapter" where
  "example_adapter = launch_threads example_thread (loop_thread.truncate example_thread)
     (initialize (Some kOff) (Some kDisallowed) (Some kClosed) (adapter_ctor 1 (counter_ctor 0 True 0 0)))"

definition all_fine :: impl where
  "all_fine = \<lparr>turn_on_ok = True, turn_off_ok = True, allow_ok = True, disallow_ok = True, open_ok = True,
     close_ok = True, falls_asleep = True, sender_loop_ends = True, receiver_loop_ends = True,
     switch_ongoing = True\<rparr>"

lemmas example_defs = example_adapter_def example_thread_def launch_threads_def initialize_def adapter_ctor_def
  sender_thread_ctor_def receiver_thread_ctor_def loop_thread.defs

theorem connect_all_or_nothing_witness:
  "\<exists>a'. connect (Some 5) (all_fine\<lparr>open_ok := False\<rparr>) example_adapter = Inr a'
    \<and> mState a' = kDisconnected \<and> all_down a' \<and> events a' = [Callback 5 False]"
proof -
  have a: "mState example_adapter = kDisconnected" "all_down example_adapter" "has_threads example_adapter"
    by (simp_all add: example_defs all_down_def has_threads_def Let_def)
  have "events example_adapter = []" "notices s s' example_adapter = []" for s s'
    by (simp_all add: example_defs notices_def Let_def)
  with connect_all_or_nothing [OF a, of 5 "all_fine\<lparr>open_ok := False\<rparr>"] show ?thesis
    by (auto simp: all_fine_def)
qed

section \<open>Commanded disconnection\<close>

definition loops_disabled :: "'cb adapter \<Rightarrow> bool" where
  "loops_disabled a \<longleftrightarrow> (\<exists>s r. mSenderThread a = Some s \<and> mReceiverThread a = Some r
     \<and> \<not> is_loop_enabled s \<and> \<not> is_loop_enabled r \<and> \<not> is_loop_paused s)"

lemma disable_loops_sleeping:
  assumes "has_threads a"
  shows "loops_disabled (disable_loops kSleeping a)" "has_threads (disable_loops kSleeping a)"
    "all_up (disable_loops kSleeping a) = all_up a"
    "events (disable_loops kSleeping a) = events a" "mStateListeners (disable_loops kSleeping a) = mStateListeners a"
    "mDisconnectCallback (disable_loops kSleeping a) = mDisconnectCallback a"
    "mState (disable_loops kSleeping a) = mState a"
  using assms by (auto simp: disable_loops_def loops_disabled_def has_threads_def all_up_def resume_loop_def)

text \<open>Taking the parts down from the up state, with threads whose loops end.\<close>

lemma disconnect_stages_outcome:
  assumes "all_up a" "has_threads a" "sender_loop_ends w" "receiver_loop_ends w"
  shows "\<exists>a'. disconnect_stages kSleeping w a = Inr (close_ok w \<and> disallow_ok w \<and> turn_off_ok w, a')
    \<and> loops_disabled a' \<and> mServerSocket a' = Some kClosed \<and> has_threads a'
    \<and> (close_ok w \<and> disallow_ok w \<and> turn_off_ok w \<longrightarrow> all_down a')
    \<and> events a' = events a \<and> mStateListeners a' = mStateListeners a
    \<and> mDisconnectCallback a' = mDisconnectCallback a \<and> mState a' = mState a"
proof -
  let ?d = "disable_loops kSleeping a"
  note d = disable_loops_sleeping [OF assms(2)]
  have up: "mDevice ?d = Some kOn" "mP2PServer ?d = Some kAllowed" "mServerSocket ?d = Some kOpened"
    using assms(1) d(3) by (simp_all add: all_up_def)
  obtain s r where th: "mSenderThread ?d = Some s" "mReceiverThread ?d = Some r"
    "\<not> is_loop_enabled s" "\<not> is_loop_enabled r" "\<not> is_loop_paused s"
    using d(1) by (auto simp: loops_disabled_def)
  have s1: "take_down_socket w ?d = (close_ok w, ?d\<lparr>mServerSocket := Some kClosed\<rparr>)"
    using up(3) by (simp add: take_down_socket_def socket_close_def)
  show ?thesis
    using up th d(4-7) assms(3,4)
    by (cases "close_ok w"; cases "disallow_ok w"; cases "turn_off_ok w")
      (simp_all add: disconnect_stages_def s1 take_down_p2p_def take_down_device_def disallow_discover_def
        turn_off_def wait_sender_loop_ends_def wait_receiver_loop_ends_def loops_disabled_def all_down_def
        has_threads_def)
qed

lemma disconnect_outcome:
  assumes "mState a = kSleeping" "all_up a" "has_threads a"
    and "mSenderThread a = Some s" "switch_ongoing w" "sender_loop_ends w" "receiver_loop_ends w"
  shows "\<exists>a'. disconnect_on_command (Some cb) w a = Inr a' \<and> loops_disabled a' \<and> mServerSocket a' = Some kClosed
    \<and> mStateListeners a' = mStateListeners a
    \<and> (if close_ok w \<and> disallow_ok w \<and> turn_off_ok w
       then mState a' = kDisconnected \<and> all_down a'
         \<and> events a' = events a @ [Request_disconnect (mId a) (last_seq_no_control s) (last_seq_no_data s)]
           @ notices kSleeping kDisconnecting a @ [Disconnect_start_stamped] @ notices kDisconnecting kDisconnected a @ [Callback cb True]
       else mState a' = kSleeping
         \<and> events a' = events a @ [Request_disconnect (mId a) (last_seq_no_control s) (last_seq_no_data s)]
           @ notices kSleeping kDisconnecting a @ [Disconnect_start_stamped] @ notices kDisconnecting kSleeping a @ [Callback cb False]
         \<and> (\<forall>cb' rq. wake_up (Some cb') rq a' = Inr (emit (Callback cb' False) a'))
         \<and> (\<forall>cb' w'. connect (Some cb') w' a' = Inr (emit (Callback cb' False) a')))"
proof -
  let ?ok = "close_ok w \<and> disallow_ok w \<and> turn_off_ok w"
  define a0 where "a0 = emit (Request_disconnect (mId a) (last_seq_no_control s) (last_seq_no_data s))
    (a\<lparr>mIsDisconnectingOnPurpose := True\<rparr>)"
  define a1 where "a1 = emit Disconnect_start_stamped (set_state kDisconnecting (a0\<lparr>mDisconnectCallback := Some cb\<rparr>))"
  have f: "all_up a1" "has_threads a1" using assms(2,3) by (simp_all add: all_up_def has_threads_def a1_def a0_def)
  have ev: "events a1 = events a @ [Request_disconnect (mId a) (last_seq_no_control s) (last_seq_no_data s)]
      @ notices kSleeping kDisconnecting a @ [Disconnect_start_stamped]" "mStateListeners a1 = mStateListeners a"
    "mDisconnectCallback a1 = Some cb"
    using assms(1) by (simp_all add: a1_def a0_def notices_def)
  obtain a2 where a2: "disconnect_stages kSleeping w a1 = Inr (?ok, a2)"
    "loops_disabled a2" "mServerSocket a2 = Some kClosed" "has_threads a2" "?ok \<longrightarrow> all_down a2"
    "events a2 = events a1" "mStateListeners a2 = mStateListeners a1" "mDisconnectCallback a2 = mDisconnectCallback a1"
    "mState a2 = mState a1"
    using disconnect_stages_outcome [OF f assms(6,7)] by blast
  define st where "st = (if ?ok then kDisconnected else kSleeping)"
  define a3 where "a3 = (emit (Callback cb ?ok) (set_state st
        (a2\<lparr>mIsDisconnectingOnPurpose := False, mIsDisconnectingOnPurposePeer := False\<rparr>)))\<lparr>mDisconnectCallback := None\<rparr>"
  have st0: "mState a0 = kSleeping" using assms(1) by (simp add: a0_def)
  have "disconnect_on_command (Some cb) w a = disconnect_internal (Some cb) w a0"
    using assms(1,4) by (simp add: disconnect_on_command_def wait_for_sleeping_def a0_def)
  also have "\<dots> = Inr a3"
    using assms(5) a2(1,8) ev(3) st0
    unfolding disconnect_internal_def Let_def a1_def [symmetric] a3_def by (simp add: st_def)
  finally have res: "disconnect_on_command (Some cb) w a = Inr a3" .
  have a3: "loops_disabled a3" "mServerSocket a3 = Some kClosed" "mState a3 = st" "?ok \<longrightarrow> all_down a3"
    "mStateListeners a3 = mStateListeners a"
    using a2(2,3,5,7) ev(2) by (simp_all add: a3_def loops_disabled_def all_down_def)
  have ev3: "events a3 = events a @ [Request_disconnect (mId a) (last_seq_no_control s) (last_seq_no_data s)]
      @ notices kSleeping kDisconnecting a @ [Disconnect_start_stamped] @ notices kDisconnecting st a @ [Callback cb ?ok]"
    using a2(6,7,9) ev(1,2) by (simp add: a3_def a1_def notices_def)
  have unusable: "wake_up (Some cb') rq a3 = Inr (emit (Callback cb' False) a3)
      \<and> connect (Some cb') w' a3 = Inr (emit (Callback cb' False) a3)"
    if "\<not> ?ok" for cb' rq w'
    using that a3(1,3) by (auto simp: wake_up_def connect_def loops_disabled_def st_def)
  show ?thesis
  proof (cases ?ok)
    case True
    then show ?thesis using res a3 ev3 by (intro exI [of _ a3]) (simp add: st_def)
  next
    case False
    then have no: "?ok = False" by blast
    show ?thesis using res a3 ev3 unusable unfolding no st_def by (intro exI [of _ a3]) simp
  qed
qed

text \<open>
  C16: a commanded disconnection of a sleeping adapter whose parts are up announces the last sequence
  numbers to the peer and takes everything down. If a plugin fails to go down the adapter claims to
  be sleeping again and the callback gets false; but by then the socket is closed, the loops are
  disabled and the sender is no longer paused, so that every later attempt to wake the adapter up
  or to connect it is refused.
\<close>

theorem disconnect_on_command_outcome:
  assumes "mState a = kSleeping" "all_up a" "has_threads a"
    and "mSenderThread a = Some s" "switch_ongoing w" "sender_loop_ends w" "receiver_loop_ends w"
  shows "\<exists>a'. disconnect_on_command (Some cb) w a = Inr a' \<and> loops_disabled a' \<and> mServerSocket a' = Some kClosed
    \<and> mStateListeners a' = mStateListeners a
    \<and> (if close_ok w \<and> disallow_ok w \<and> turn_off_ok w
       then mState a' = kDisconnected \<and> all_down a'
         \<and> events a' = events a @ [Request_disconnect (mId a) (last_seq_no_control s) (last_seq_no_data s)]
           @ notices kSleeping kDisconnecting a @ [Disconnect_start_stamped] @ notices kDisconnecting kDisconnected a @ [Callback cb True]
       else mState a' = kSleeping
         \<and> events a' = events a @ [Request_disconnect (mId a) (last_seq_no_control s) (last_seq_no_data s)]
           @ notices kSleeping kDisconnecting a @ [Disconnect_start_stamped] @ notices kDisconnecting kSleeping a @ [Callback cb False]
         \<and> (\<forall>cb' rq. wake_up (Some cb') rq a' = Inr (emit (Callback cb' False) a'))
         \<and> (\<forall>cb' w'. connect (Some cb') w' a' = Inr (emit (Callback cb' False) a')))"
  using assms by (rule disconnect_outcome)

definition sleeping_adapter :: "nat adapter" where
  "sleeping_adapter = example_adapter\<lparr>mState := kSleeping, mDevice := Some kOn, mP2PServer := Some kAllowed,
     mServerSocket := Some kOpened\<rparr>"

theorem disconnect_on_command_outcome_witness:
  "\<exists>a'. disconnect_on_command (Some 5) (all_fine\<lparr>close_ok := False\<rparr>) sleeping_adapter = Inr a'
    \<and> mState a' = kSleeping \<and> mServerSocket a' = Some kClosed"
proof -
  obtain s where s: "mSenderThread sleeping_adapter = Some s"
    by (simp add: sleeping_adapter_def example_defs Let_def)
  have "mState sleeping_adapter = kSleeping" "all_up sleeping_adapter" "has_threads sleeping_adapter"
    by (simp_all add: sleeping_adapter_def example_defs all_up_def has_threads_def Let_def)
  from disconnect_on_command_outcome [OF this s, of "all_fine\<lparr>close_ok := False\<rparr>" 5]
  show ?thesis by (auto simp: all_fine_def)
qed

section \<open>What the listeners see\<close>

text \<open>The transitions listener \<open>l\<close> has been told of, and whether they form a chain of legal steps.\<close>

fun told :: "nat \<Rightarrow> 'cb event list \<Rightarrow> (adapter_state \<times> adapter_state) list" where
  "told l [] = []"
| "told l (Listener_notified k old new # es) = (if k = l then (old, new) # told l es else told l es)"
| "told l (_ # es) = told l es"

lemma told_append [simp]: "told l (es @ es') = told l es @ told l es'"
  by (induction l es rule: told.induct) auto

definition legal :: "adapter_state \<Rightarrow> adapter_state \<Rightarrow> bool" where
  "legal old new \<longleftrightarrow> (case new of
     kConnecting \<Rightarrow> old = kDisconnected \<or> old = kDisconnecting
   | kActive \<Rightarrow> old = kConnecting \<or> old = kDisconnecting
   | kDisconnected \<Rightarrow> old = kConnecting \<or> old = kDisconnecting
   | kDisconnecting \<Rightarrow> old \<notin> {kDisconnected, kDisconnecting}
   | kGoingSleeping \<Rightarrow> old = kActive \<or> old = kDisconnecting
   | kSleeping \<Rightarrow> old = kGoingSleeping \<or> old = kDisconnecting
   | kWakingUp \<Rightarrow> old = kSleeping \<or> old = kDisconnecting)"

fun chain :: "adapter_state \<Rightarrow> (adapter_state \<times> adapter_state) list \<Rightarrow> adapter_state option" where
  "chain s [] = Some s"
| "chain s ((old, new) # es) = (if old = s \<and> legal old new then chain new es else None)"

lemma chain_append: "chain s (es @ es') = (case chain s es of None \<Rightarrow> None | Some t \<Rightarrow> chain t es')"
  by (induction s es rule: chain.induct) auto

definition legal_history :: "nat \<Rightarrow> 'cb adapter \<Rightarrow> bool" where
  "legal_history l a \<longleftrightarrow> count_list (mStateListeners a) l = 1
     \<and> chain kDisconnected (told l (events a)) = Some (mState a)"

lemma told_notifications:
  "told l (map (\<lambda>k. Listener_notified k old new) ls) = replicate (count_list ls l) (old, new)"
  by (induction ls) auto

lemma legal_history_set_state:
  "legal_history l a \<Longrightarrow> legal (mState a) s \<Longrightarrow> legal_history l (set_state s a)"
  by (simp add: legal_history_def set_state_def told_notifications chain_append)

text \<open>Events that are no notifications, and changes of other fields, do not matter.\<close>

definition same_history :: "'cb adapter \<Rightarrow> 'cb adapter \<Rightarrow> bool" where
  "same_history a b \<longleftrightarrow> mState b = mState a \<and> mStateListeners b = mStateListeners a
     \<and> (\<forall>l. told l (events b) = told l (events a))"

lemma legal_history_cong: "same_history a b \<Longrightarrow> legal_history l b = legal_history l a"
  by (simp add: same_history_def legal_history_def)

lemma same_history_refl [simp]: "same_history a a"
  by (simp add: same_history_def)

lemma same_history_emit:
  "(\<And>l. told l [e] = []) \<Longrightarrow> same_history a (emit e a)"
  by (simp add: same_history_def)

lemma same_history_call_if_set [simp]: "same_history a (call_if_set cb b a)"
  by (cases cb) (simp_all add: same_history_emit)

lemma same_history_call: "call cb b a = Inr a' \<Longrightarrow> same_history a a'"
  by (cases cb) (auto simp: same_history_emit)

lemma same_history_connect_stages:
  "connect_stages w a = Inr (ok, a') \<Longrightarrow> same_history a a'"
  by (auto simp: connect_stages_def same_history_def and_then_eq_Inr update_sender_def update_receiver_def Let_def
      split: option.splits prod.splits if_splits)

lemma same_history_take_down:
  "same_history a (snd (take_down_socket w a))" "same_history a (snd (take_down_p2p w a))"
  "same_history a (snd (take_down_device w a))"
  by (auto simp: take_down_socket_def take_down_p2p_def take_down_device_def same_history_def
      split: option.splits prod.splits)

lemma same_history_wait:
  "wait_sender_loop_ends w a = Inr a' \<Longrightarrow> same_history a a'"
  "wait_receiver_loop_ends w a = Inr a' \<Longrightarrow> same_history a a'"
  by (auto simp: wait_sender_loop_ends_def wait_receiver_loop_ends_def same_history_def
      split: option.splits if_splits)

lemma same_history_trans: "same_history a b \<Longrightarrow> same_history b c \<Longrightarrow> same_history a c"
  by (simp add: same_history_def)

lemma same_history_disconnect_stages:
  assumes "disconnect_stages old w a = Inr (ok, a')"
  shows "same_history a a'"
proof -
  obtain ok1 a1 where 1: "take_down_socket w (disable_loops old a) = (ok1, a1)" by fastforce
  obtain ok2 a2 where 2: "take_down_p2p w a1 = (ok2, a2)" by fastforce
  obtain ok3 a3 where 3: "take_down_device w a2 = (ok3, a3)" by fastforce
  have "same_history a (disable_loops old a)" by (simp add: same_history_def disable_loops_def)
  then have h1: "same_history a a1" using same_history_take_down(1) [of "disable_loops old a" w] 1
    by (auto intro: same_history_trans)
  have h2: "same_history a a2" using same_history_take_down(2) [of a1 w] 2 h1 by (auto intro: same_history_trans)
  have h3: "same_history a a3" using same_history_take_down(3) [of a2 w] 3 h2 by (auto intro: same_history_trans)
  from assms 1 2 3 h1 h2 h3 show ?thesis
    by (auto simp: disconnect_stages_def and_then_eq_Inr split: if_splits
        dest!: same_history_wait intro: same_history_trans)
qed

lemma legal_history_field:
  assumes "legal_history l a" "mState b = mState a" "mStateListeners b = mStateListeners a" "events b = events a"
  shows "legal_history l b"
  using assms by (simp add: legal_history_def)

lemma legal_back: "mState a \<notin> {kDisconnected, kDisconnecting} \<Longrightarrow> legal kDisconnecting (mState a)"
  by (cases "mState a") (simp_all add: legal_def)

lemma connect_internal_history:
  assumes h: "legal_history l a" and st: "mState a = kDisconnected" and r: "connect_internal cb w a = Inr a'"
  shows "legal_history l a'"
proof -
  let ?a0 = "set_state kConnecting (a\<lparr>mConnectCallback := cb\<rparr>)"
  have h0: "legal_history l ?a0"
    using h st by (intro legal_history_set_state) (auto simp: legal_def intro: legal_history_field)
  obtain ok a1 where s: "connect_stages w ?a0 = Inr (ok, a1)"
    and a': "a' = (let a2 = set_state (if ok then kActive else kDisconnected) a1
       in (call_if_set (mConnectCallback a2) ok a2)\<lparr>mConnectCallback := None\<rparr>)"
    using r by (auto simp: connect_internal_def and_then_eq_Inr)
  have h1: "legal_history l a1" "mState a1 = kConnecting"
    using h0 legal_history_cong [OF same_history_connect_stages [OF s], of l] same_history_connect_stages [OF s]
    by (simp_all add: same_history_def)
  let ?a2 = "set_state (if ok then kActive else kDisconnected) a1"
  have "legal_history l ?a2" using h1 by (intro legal_history_set_state) (auto simp: legal_def)
  then have "legal_history l (call_if_set (mConnectCallback ?a2) ok ?a2)"
    by (simp add: legal_history_cong [OF same_history_call_if_set])
  then show ?thesis unfolding a' Let_def by (rule legal_history_field) simp_all
qed

lemma disconnect_internal_history:
  assumes h: "legal_history l a" and st: "mState a \<notin> {kDisconnected, kDisconnecting}"
    and r: "disconnect_internal cb w a = Inr a'"
  shows "legal_history l a'"
proof -
  let ?a0 = "emit Disconnect_start_stamped (set_state kDisconnecting (a\<lparr>mDisconnectCallback := cb\<rparr>))"
  have "legal_history l (set_state kDisconnecting (a\<lparr>mDisconnectCallback := cb\<rparr>))"
    using h st(1) by (intro legal_history_set_state) (auto simp: legal_def intro: legal_history_field)
  then have h0: "legal_history l ?a0"
    by (subst legal_history_cong [OF same_history_emit]) simp_all
  obtain ok a1 where s: "disconnect_stages (mState a) w ?a0 = Inr (ok, a1)"
    and a': "a' = (let a3 = a1\<lparr>mIsDisconnectingOnPurpose := False, mIsDisconnectingOnPurposePeer := False\<rparr>;
             a4 = set_state (if ok then kDisconnected else mState a) a3
         in (call_if_set (mDisconnectCallback a4) ok a4)\<lparr>mDisconnectCallback := None\<rparr>)"
    using r by (auto simp: disconnect_internal_def and_then_eq_Inr Let_def)
  let ?a3 = "a1\<lparr>mIsDisconnectingOnPurpose := False, mIsDisconnectingOnPurposePeer := False\<rparr>"
  let ?a4 = "set_state (if ok then kDisconnected else mState a) ?a3"
  have h1: "legal_history l a1" "mState a1 = kDisconnecting"
    using h0 legal_history_cong [OF same_history_disconnect_stages [OF s], of l] same_history_disconnect_stages [OF s]
    by (simp_all add: same_history_def)
  have h3: "legal_history l ?a3" by (rule legal_history_field [OF h1(1)]) simp_all
  have "legal (mState ?a3) (if ok then kDisconnected else mState a)"
    using h1(2) legal_back [OF st] by (auto simp: legal_def)
  then have "legal_history l ?a4" using h3 by (intro legal_history_set_state) simp_all
  then have "legal_history l (call_if_set (mDisconnectCallback ?a4) ok ?a4)"
    by (simp add: legal_history_cong [OF same_history_call_if_set])
  then show ?thesis unfolding a' Let_def by (rule legal_history_field) simp_all
qed

text \<open>The operations of an adapter, and a run of them in which none faults.\<close>

datatype 'cb adapter_op =
    Connect "'cb option" impl
  | Disconnect_on_command "'cb option" impl
  | Disconnect_on_peer_command "'cb option" u32 u32 impl
  | Disconnect_on_failure "'cb option" impl
  | Sleep "'cb option" bool
  | Wake_up "'cb option" bool
  | Connect_or_wake_up "'cb option" bool impl
  | Send "u8 list" "int \<times> int" int int
  | Receive nat int int
  | Peer_knows

fun run_op :: "'cb adapter_op \<Rightarrow> 'cb adapter \<Rightarrow> fault + 'cb adapter" where
  "run_op (Connect cb w) a = connect cb w a"
| "run_op (Disconnect_on_command cb w) a = disconnect_on_command cb w a"
| "run_op (Disconnect_on_peer_command cb c d w) a = disconnect_on_peer_command cb c d w a"
| "run_op (Disconnect_on_failure cb w) a = disconnect_on_failure cb w a"
| "run_op (Sleep cb rq) a = sleep cb rq a"
| "run_op (Wake_up cb rq) a = wake_up cb rq a"
| "run_op (Connect_or_wake_up cb rq w) a = connect_or_wake_up cb rq w a"
| "run_op (Send buf now res errno) a = map_sum id (\<lambda>r. snd (snd r)) (adapter_send buf now res errno a)"
| "run_op (Receive n res errno) a = map_sum id snd (adapter_receive n res errno a)"
| "run_op Peer_knows a = Inr (peer_knows_disconnecting_on_purpose a)"

lemma wait_for_sleeping_history:
  assumes "wait_for_sleeping w a = Inr (b, a1)" "legal_history l a"
  shows "legal_history l a1" "b \<Longrightarrow> mState a1 = kSleeping"
  using assms
  by (auto simp: wait_for_sleeping_def split: if_splits intro!: legal_history_set_state simp: legal_def)

lemma call_history: "call cb b a = Inr a' \<Longrightarrow> legal_history l a \<Longrightarrow> legal_history l a'"
  using legal_history_cong [OF same_history_call] by blast

lemma connect_history: "connect cb w a = Inr a' \<Longrightarrow> legal_history l a \<Longrightarrow> legal_history l a'"
  by (auto simp: connect_def intro: call_history connect_internal_history split: if_splits)

lemma disconnect_asleep_history:
  assumes h: "legal_history l a" and st: "mState a = kSleeping" and b: "same_history a b"
    and r: "disconnect_internal cb w b = Inr a'"
  shows "legal_history l a'"
proof -
  have "legal_history l b" using h b by (simp add: legal_history_cong)
  moreover have "mState b \<notin> {kDisconnected, kDisconnecting}" using st b by (simp add: same_history_def)
  ultimately show ?thesis using r by (rule disconnect_internal_history)
qed

lemma disconnect_on_command_history:
  assumes r: "disconnect_on_command cb w a = Inr a'" and h: "legal_history l a"
  shows "legal_history l a'"
proof -
  obtain b a1 where w: "wait_for_sleeping w a = Inr (b, a1)"
    using r unfolding disconnect_on_command_def by (cases "wait_for_sleeping w a") auto
  note h1 = wait_for_sleeping_history [OF w h]
  show ?thesis
  proof (cases b)
    case True
    then obtain s where s: "mSenderThread a1 = Some s"
      using r w unfolding disconnect_on_command_def by (cases "mSenderThread a1") auto
    let ?e = "Request_disconnect (mId a1) (last_seq_no_control s) (last_seq_no_data s)"
    let ?a2 = "emit ?e (a1\<lparr>mIsDisconnectingOnPurpose := True\<rparr>)"
    have "disconnect_internal cb w ?a2 = Inr a'"
      using r unfolding disconnect_on_command_def w s and_then_simps prod.case option.case by (simp add: True)
    moreover have "same_history a1 ?a2" by (simp add: same_history_def)
    ultimately show ?thesis using h1 True disconnect_asleep_history by blast
  next
    case False
    have "call cb False a1 = Inr a'"
      using r unfolding disconnect_on_command_def w and_then_simps prod.case by (simp add: False)
    then show ?thesis using h1(1) by (rule call_history)
  qed
qed

lemma disconnect_on_peer_command_history:
  assumes r: "disconnect_on_peer_command cb c d w a = Inr a'" and h: "legal_history l a"
  shows "legal_history l a'"
proof -
  obtain b a1 where w: "wait_for_sleeping w a = Inr (b, a1)"
    using r unfolding disconnect_on_peer_command_def by (cases "wait_for_sleeping w a") auto
  note h1 = wait_for_sleeping_history [OF w h]
  show ?thesis
  proof (cases b)
    case True
    let ?a2 = "emit (Request_disconnect_ack (mId a1)) (emit (Wait_receiving c d) (a1\<lparr>mIsDisconnectingOnPurpose := True\<rparr>))"
    have "disconnect_internal cb w ?a2 = Inr a'"
      using r unfolding disconnect_on_peer_command_def w and_then_simps prod.case by (simp add: True)
    moreover have "same_history a1 ?a2" by (simp add: same_history_def)
    ultimately show ?thesis using h1 True disconnect_asleep_history by blast
  next
    case False
    have "call cb False a1 = Inr a'"
      using r unfolding disconnect_on_peer_command_def w and_then_simps prod.case by (simp add: False)
    then show ?thesis using h1(1) by (rule call_history)
  qed
qed

lemma disconnect_on_failure_history:
  "disconnect_on_failure cb w a = Inr a' \<Longrightarrow> legal_history l a \<Longrightarrow> legal_history l a'"
  by (auto simp: disconnect_on_failure_def intro: call_history disconnect_internal_history split: if_splits)

lemma same_history_legal: "same_history a b \<Longrightarrow> legal_history l a \<Longrightarrow> legal_history l b"
  by (simp add: legal_history_cong)

lemma sleep_history:
  assumes r: "sleep cb rq a = Inr a'" and h: "legal_history l a"
  shows "legal_history l a'"
proof (cases "mState a = kActive \<and> (\<exists>s. mSenderThread a = Some s \<and> \<not> is_loop_paused s)")
  case True
  then obtain s where s: "mState a = kActive" "mSenderThread a = Some s" "\<not> is_loop_paused s" by blast
  let ?a0 = "if rq then emit (Request_sleep (mId a)) a else a"
  have "same_history a ?a0" by (simp add: same_history_emit)
  then have "legal_history l ?a0" "mState ?a0 = kActive" using h s(1) by (auto intro: same_history_legal)
  then have "legal_history l (set_state kGoingSleeping ?a0)" by (intro legal_history_set_state) (simp_all add: legal_def)
  then have "legal_history l ((set_state kGoingSleeping ?a0)\<lparr>mSenderThread := Some (pause_loop s)\<rparr>)"
    by (rule legal_history_field) simp_all
  then have "legal_history l (emit (Wake_up_dequeue kDeqSendControlData)
      ((set_state kGoingSleeping ?a0)\<lparr>mSenderThread := Some (pause_loop s)\<rparr>))"
    by (rule same_history_legal [OF same_history_emit, rotated]) simp
  note hist = same_history_legal [OF same_history_call_if_set this, of cb True]
  have "a' = call_if_set cb True (emit (Wake_up_dequeue kDeqSendControlData)
      ((set_state kGoingSleeping ?a0)\<lparr>mSenderThread := Some (pause_loop s)\<rparr>))"
    using r s unfolding sleep_def Let_def by simp
  with hist show ?thesis by (simp only:)
next
  case False
  have "same_history a (call_if_set cb True (call_if_set cb False a))"
    by (rule same_history_trans [OF same_history_call_if_set same_history_call_if_set])
  with False have "same_history a a'"
    using r by (auto simp: sleep_def Let_def split: if_splits option.splits)
  then show ?thesis using h by (rule same_history_legal)
qed

lemma wake_up_history:
  assumes r: "wake_up cb rq a = Inr a'" and h: "legal_history l a"
  shows "legal_history l a'"
proof (cases "mState a = kSleeping \<and> (\<exists>s. mSenderThread a = Some s \<and> is_loop_paused s)")
  case True
  then obtain s where s: "mState a = kSleeping" "mSenderThread a = Some s" "is_loop_paused s" by blast
  let ?a0 = "if rq then emit (Request_wake_up (mId a)) a else a"
  have "same_history a ?a0" by (simp add: same_history_emit)
  then have "legal_history l ?a0" "mState ?a0 = kSleeping" using h s(1) by (auto intro: same_history_legal)
  then have "legal_history l (set_state kWakingUp ?a0)" by (intro legal_history_set_state) (simp_all add: legal_def)
  then have "legal_history l ((set_state kWakingUp ?a0)\<lparr>mSenderThread := Some (resume_loop s)\<rparr>)"
    by (rule legal_history_field) simp_all
  note hist = same_history_legal [OF same_history_call_if_set this, of cb True]
  have "a' = call_if_set cb True ((set_state kWakingUp ?a0)\<lparr>mSenderThread := Some (resume_loop s)\<rparr>)"
    using r s unfolding wake_up_def by simp
  with hist show ?thesis by (simp only:)
next
  case False
  then have "same_history a a'"
    using r by (auto simp: wake_up_def split: if_splits option.splits)
  then show ?thesis using h by (rule same_history_legal)
qed

lemma run_op_history:
  assumes "run_op oper a = Inr a'" "legal_history l a"
  shows "legal_history l a'"
proof (cases oper)
  case (Connect_or_wake_up cb rq w)
  with assms show ?thesis
    by (auto simp: connect_or_wake_up_def intro: connect_history wake_up_history split: if_splits)
next
  case (Send buf now res errno)
  then have "same_history a a'" using assms(1)
    by (auto simp: adapter_send_def same_history_def Let_def split: if_splits option.splits prod.splits)
  then show ?thesis using assms(2) by (rule same_history_legal)
next
  case (Receive n res errno)
  then have "same_history a a'" using assms(1)
    by (auto simp: adapter_receive_def same_history_def Let_def split: if_splits option.splits prod.splits)
  then show ?thesis using assms(2) by (rule same_history_legal)
next
  case Peer_knows
  then show ?thesis using assms by (auto simp: peer_knows_disconnecting_on_purpose_def legal_history_def)
qed (use assms connect_history disconnect_on_command_history disconnect_on_peer_command_history
      disconnect_on_failure_history sleep_history wake_up_history in \<open>auto\<close>)



end
