(* ===== verification/Delivery.thy ===== *)
theory Delivery
  imports Transport
begin

text \<open>
  Delivery of packets. The queues of pointers are seen as queues of the segments they point to;
  this view commutes with the operations. Over it, sending cuts a packet into fragments, the
  fragments survive the wire, and receiving puts them together again, whatever the order in which
  they arrived.
\<close>

section \<open>Queues of pointers as queues of segments\<close>

definition map_squeue :: "('p \<Rightarrow> 'v) \<Rightarrow> 'p squeue \<Rightarrow> 'v squeue" where
  "map_squeue f q = \<lparr>mMainQueue = map f (mMainQueue q), mPendingQueue = map f (mPendingQueue q),
     mQueueLength = mQueueLength q, mExpectedSeqNo = mExpectedSeqNo q\<rparr>"

lemma map_squeue_sel [simp]:
  "mMainQueue (map_squeue f q) = map f (mMainQueue q)"
  "mPendingQueue (map_squeue f q) = map f (mPendingQueue q)"
  "mQueueLength (map_squeue f q) = mQueueLength q"
  "mExpectedSeqNo (map_squeue f q) = mExpectedSeqNo q"
  by (simp_all add: map_squeue_def)

lemma map_squeue_push: "map_squeue f (push_main p q) = push_main (f p) (map_squeue f q)"
  by (simp add: map_squeue_def push_main_def)

lemma map_squeue_drain:
  "drain_pending sq (map f ps) c (map_squeue f q)
    = map_prod id (map_squeue f) (drain_pending (sq \<circ> f) ps c q)"
proof (induction "sq \<circ> f" ps c q rule: drain_pending.induct)
  case (1 c q)
  then show ?case by (simp add: map_squeue_def)
next
  case (2 p ps c q)
  show ?case
  proof (cases "sq (f p) = mExpectedSeqNo q")
    case True
    with 2 show ?thesis by (simp add: map_squeue_push)
  qed (simp add: map_squeue_def)
qed

lemma map_insert_pending:
  "insert_pending sq (f p) (map f ws) = map_sum id (map f) (insert_pending (sq \<circ> f) p ws)"
  by (induction ws) (auto simp: and_then_def split: sum.splits)

lemma map_squeue_enqueue:
  "sq_enqueue sq (f p) (map_squeue f q) = map_sum id (map_prod id (map_squeue f)) (sq_enqueue (sq \<circ> f) p q)"
  by (auto simp: sq_enqueue_def map_squeue_push [symmetric] map_squeue_drain map_insert_pending
      and_then_def require_def split: sum.splits)

lemma map_squeue_dequeue:
  "sq_dequeue (map_squeue f q) = map_sum id (map_prod f (map_squeue f)) (sq_dequeue q)"
  by (auto simp: sq_dequeue_def map_squeue_def split: list.splits)

definition abs_queue :: "seg_mgr \<Rightarrow> queue_type \<Rightarrow> segment squeue" where
  "abs_queue sm qt = map_squeue (mem sm) (mSegmentQueues sm qt)"

text \<open>The refinement: on the queue of segments, the manager's operations are the queue's own.\<close>

lemma enqueue_abs:
  assumes "sq_enqueue seq_no (mem sm p) (abs_queue sm qt) = Inr (c, q')" "qt \<noteq> kSQUnknown"
  shows "\<exists>sm'. enqueue qt p sm = Inr sm' \<and> abs_queue sm' qt = q' \<and> mem sm' = mem sm
    \<and> (\<forall>qt'. qt' \<noteq> qt \<longrightarrow> abs_queue sm' qt' = abs_queue sm qt')
    \<and> mSentSegmentLists sm' = mSentSegmentLists sm \<and> mFailedSegmentList sm' = mFailedSegmentList sm
    \<and> mNextSeqNo sm' = mNextSeqNo sm"
proof -
  have sqc: "seq_no \<circ> mem sm = sqn sm" by (simp add: comp_def)
  from assms(1) obtain q where q: "sq_enqueue (sqn sm) p (mSegmentQueues sm qt) = Inr (c, q)"
    "q' = map_squeue (mem sm) q"
    unfolding abs_queue_def map_squeue_enqueue sqc
    by (cases "sq_enqueue (sqn sm) p (mSegmentQueues sm qt)") auto
  obtain sm' where sm': "enqueue qt p sm = Inr sm'" using enqueue_ok [OF q(1) assms(2)] by blast
  from enqueue_effect [OF sm'] q(1) have
    "mSegmentQueues sm' = (mSegmentQueues sm)(qt := q)" "mem sm' = mem sm"
    "mSentSegmentLists sm' = mSentSegmentLists sm" "mFailedSegmentList sm' = mFailedSegmentList sm"
    "mNextSeqNo sm' = mNextSeqNo sm" by auto
  with sm' q(2) show ?thesis by (simp add: abs_queue_def)
qed

lemma abs_queue_cong:
  assumes "mSegmentQueues sm' qt = mSegmentQueues sm qt"
    and "\<And>p. p \<in># queue_ptrs (mSegmentQueues sm qt) \<Longrightarrow> mem sm' p = mem sm p"
  shows "abs_queue sm' qt = abs_queue sm qt"
  using assms by (auto simp: abs_queue_def map_squeue_def queue_ptrs_def)

lemma queue_not_held:
  assumes "sm_wf held sm" "p \<in># held" "qt \<noteq> kSQUnknown"
  shows "p \<notin># queue_ptrs (mSegmentQueues sm qt)"
proof
  assume "p \<in># queue_ptrs (mSegmentQueues sm qt)"
  then have "p \<in># owned sm" using assms(3) by (cases qt) (simp_all add: owned_def)
  then have "1 \<le> count (owned sm) p" "1 \<le> count held p" using assms(2) by (simp_all add: Suc_le_eq)
  then show False
    using heap_wfD(5) [OF sm_wfD(1) [OF assms(1)], of p] unfolding count_union by linarith
qed

lemma pop_free_abs:
  assumes wf: "sm_wf held sm"
  shows "\<exists>p sm'. pop_free_segment sm = Inr (p, sm') \<and> sm_wf (add_mset p held) sm' \<and> same_lists sm sm'
    \<and> segment_wf (mem sm' p) \<and> (\<forall>qt. qt \<noteq> kSQUnknown \<longrightarrow> abs_queue sm' qt = abs_queue sm qt)"
proof -
  obtain p sm' where p: "pop_free_segment sm = Inr (p, sm')" "sm_wf (add_mset p held) sm'"
    "same_lists sm sm'" "\<forall>a. a \<noteq> p \<longrightarrow> mem sm' a = mem sm a" "segment_wf (mem sm' p)"
    using pop_free_wf [OF wf] by blast
  have "abs_queue sm' qt = abs_queue sm qt" if "qt \<noteq> kSQUnknown" for qt
  proof (rule abs_queue_cong)
    show "mSegmentQueues sm' qt = mSegmentQueues sm qt" using p(3) by (simp add: same_lists_def)
    have "p \<notin># queue_ptrs (mSegmentQueues sm' qt)" using queue_not_held [OF p(2) _ that] by simp
    then show "mem sm' a = mem sm a" if "a \<in># queue_ptrs (mSegmentQueues sm qt)" for a
      using that p(3,4) by (auto simp: same_lists_def)
  qed
  with p show ?thesis by blast
qed

lemma set_seg_abs:
  assumes "sm_wf held sm" "p \<in># held" "qt \<noteq> kSQUnknown"
  shows "abs_queue (set_seg p s sm) qt = abs_queue sm qt"
  using queue_not_held [OF assms] by (intro abs_queue_cong) auto

lemma add_free_abs:
  assumes wf: "sm_wf (add_mset p held) sm"
  shows "\<exists>sm'. add_free_segment_to_list p sm = Inr sm' \<and> sm_wf held sm' \<and> mem sm' = mem sm
    \<and> mSegmentQueues sm' = mSegmentQueues sm \<and> (\<forall>qt. abs_queue sm' qt = abs_queue sm qt)"
  using add_free_wf [OF wf] by (auto simp: same_lists_def abs_queue_def)

section \<open>Fragments\<close>

definition frag_len :: "u8 list \<Rightarrow> nat \<Rightarrow> nat" where
  "frag_len bytes i = min kSegSize (length bytes - kSegSize * i)"

definition frag_flag :: "u8 list \<Rightarrow> bool \<Rightarrow> nat \<Rightarrow> u32" where
  "frag_flag bytes ctrl i =
     (let fl = (if kSegSize * i + frag_len bytes i < length bytes then kSegFlagMF else 0)
      in if ctrl then fl OR kSegFlagControl else fl)"

definition frag_count :: "u8 list \<Rightarrow> nat" where
  "frag_count bytes = (length bytes + kSegSize - 1) div kSegSize"

text \<open>
  A segment is fragment \<open>i\<close> of a packet whose first sequence number is \<open>n\<close>: its fields are right, they
  stand in its first bytes, and the piece of the packet stands behind the header.
\<close>

definition is_fragment :: "u8 list \<Rightarrow> u32 \<Rightarrow> bool \<Rightarrow> nat \<Rightarrow> segment \<Rightarrow> bool" where
  "is_fragment bytes n ctrl i seg \<longleftrightarrow> segment_wf seg
     \<and> seq_no seg = n + of_nat i \<and> len seg = of_nat (frag_len bytes i) \<and> flag seg = frag_flag bytes ctrl i
     \<and> bytes_at 0 4 (data seg) = be32 (seq_no seg) \<and> bytes_at 4 4 (data seg) = be32 (len seg)
     \<and> bytes_at 8 4 (data seg) = be32 (flag seg)
     \<and> bytes_at kSegHeaderSize (frag_len bytes i) (data seg)
        = bytes_at (kSegSize * i) (frag_len bytes i) bytes"

lemma is_fragmentD:
  assumes "is_fragment bytes n ctrl i seg"
  shows "segment_wf seg" "seq_no seg = n + of_nat i" "len seg = of_nat (frag_len bytes i)"
    "flag seg = frag_flag bytes ctrl i" "bytes_at 0 4 (data seg) = be32 (seq_no seg)"
    "bytes_at 4 4 (data seg) = be32 (len seg)" "bytes_at 8 4 (data seg) = be32 (flag seg)"
    "bytes_at kSegHeaderSize (frag_len bytes i) (data seg)
        = bytes_at (kSegSize * i) (frag_len bytes i) bytes"
  using assms by (simp_all add: is_fragment_def)

lemma frag_len_bounds: "frag_len bytes i \<le> 512" "kSegSize * i \<le> length bytes \<Longrightarrow> kSegSize * i + frag_len bytes i \<le> length bytes"
  by (auto simp: frag_len_def seg_consts)

lemma unat_of_nat_u32: "m < 2 ^ 32 \<Longrightarrow> unat (of_nat m :: u32) = m"
  by (simp add: unat_of_nat)

lemma unat_frag_len [simp]: "unat (of_nat (frag_len bytes i) :: u32) = frag_len bytes i"
  using frag_len_bounds(1) [of bytes i] by (simp add: unat_of_nat)

lemma fill_segment_ok:
  assumes wf: "segment_wf seg" and i: "kSegSize * i < length bytes" "length bytes < 2 ^ 32"
  shows "\<exists>s. fill_segment bytes (of_nat (kSegSize * i)) (frag_len bytes i) (n + of_nat i) ctrl sec usec seg = Inr s
    \<and> is_fragment bytes n ctrl i s"
proof -
  define seg1 where "seg1 = serialize_segment_header (seg\<lparr>seq_no := n + of_nat i,
    len := of_nat (frag_len bytes i), flag := frag_flag bytes ctrl i,
    send_start_ts_sec := sec, send_start_ts_usec := usec\<rparr>)"
  define chunk where "chunk = bytes_at (kSegSize * i) (frag_len bytes i) bytes"
  let ?s = "seg1\<lparr>data := put_bytes kSegHeaderSize chunk (data seg1)\<rparr>"
  have off: "unat (of_nat (kSegSize * i) :: u32) = kSegSize * i"
    using i by (intro unat_of_nat_u32) simp
  note fl = frag_len_bounds(1) [of bytes i] frag_len_bounds(2) [OF less_imp_le [OF i(1)]]
  have lc: "length chunk = frag_len bytes i" unfolding chunk_def using fl(2) by simp
  have wf0: "segment_wf (seg\<lparr>seq_no := n + of_nat i, len := of_nat (frag_len bytes i),
      flag := frag_flag bytes ctrl i, send_start_ts_sec := sec, send_start_ts_usec := usec\<rparr>)"
    using wf by (simp add: segment_wf_def)
  have ld: "length (data seg1) = 540"
    using serialize_wf [OF wf0] by (simp add: seg1_def segment_wf_def SEGMENT_DATA_SIZE_eq)
  have r: "read_mem (kSegSize * i) (frag_len bytes i) bytes = Inr chunk"
    unfolding chunk_def using fl(2) by (rule read_mem_ok)
  have "kSegHeaderSize + length chunk \<le> length (data seg1)"
    using fl(1) lc ld by (simp add: seg_consts)
  then have w: "write_mem kSegHeaderSize chunk (data seg1) = Inr (put_bytes kSegHeaderSize chunk (data seg1))"
    by (rule write_mem_ok)
  have "fill_segment bytes (of_nat (kSegSize * i)) (frag_len bytes i) (n + of_nat i) ctrl sec usec seg = Inr ?s"
    unfolding fill_segment_def off Let_def frag_flag_def [unfolded Let_def, symmetric] seg1_def [symmetric]
    using r w by simp
  moreover have "is_fragment bytes n ctrl i ?s"
    unfolding is_fragment_def
    using bytes_at_serialize(1-3) [OF wf0, folded seg1_def] fl lc ld
    by (simp add: segment_wf_def SEGMENT_DATA_SIZE_eq bytes_at_put_other seg1_def [symmetric]
        kSegHeaderSize_def chunk_def [symmetric]) (simp add: seg1_def)
  ultimately show ?thesis by blast
qed

lemma frag_len_full:
  assumes "i + Suc k = frag_count bytes"
  shows "k = 0 \<or> frag_len bytes i = kSegSize"
proof (cases k)
  case (Suc m)
  have "(i + 2) * 512 \<le> (length bytes + 511) div 512 * 512"
    using assms Suc by (simp add: frag_count_def kSegSize_def add.commute [of _ 511])
  also have "\<dots> \<le> length bytes + 511" by (rule div_times_less_eq_dividend)
  finally show ?thesis by (simp add: frag_len_def kSegSize_def)
qed simp

text \<open>What a stream of fragments looks like in the queue after the send loop.\<close>

lemma send_loop_ok:
  assumes "sm_wf held sm" and qt: "qt = (if ctrl then kSQSendControl else kSQSendData)"
    and "mPendingQueue (abs_queue sm qt) = []" "mExpectedSeqNo (abs_queue sm qt) = n + of_nat i"
    and "i + k = frag_count bytes" "length bytes < 2 ^ 32" "bytes \<noteq> []"
  shows "\<exists>sm' frs. send_loop k bytes (of_nat (kSegSize * i)) (n + of_nat i) ctrl sec usec sm = Inr sm'
    \<and> sm_wf held sm' \<and> mMainQueue (abs_queue sm' qt) = mMainQueue (abs_queue sm qt) @ frs
    \<and> mPendingQueue (abs_queue sm' qt) = [] \<and> mExpectedSeqNo (abs_queue sm' qt) = n + of_nat (i + k)
    \<and> length frs = k \<and> (\<forall>j<k. is_fragment bytes n ctrl (i + j) (frs ! j))
    \<and> mNextSeqNo sm' = mNextSeqNo sm"
  using assms(1,3-)
proof (induction k arbitrary: i sm)
  case 0
  then show ?case by simp
next
  case (Suc k)
  have qk: "qt \<noteq> kSQUnknown" using qt by simp
  have "kSegSize * i < length bytes"
    using Suc.prems(4,6) by (simp add: frag_count_def kSegSize_def)
  note i = this Suc.prems(5)
  have off: "unat (of_nat (kSegSize * i) :: u32) = kSegSize * i"
    using i by (intro unat_of_nat_u32) simp
  have fl: "(if length bytes - kSegSize * i < kSegSize then length bytes - kSegSize * i else kSegSize)
      = frag_len bytes i" by (simp add: frag_len_def min_def)
  obtain p s1 where s1: "pop_free_segment sm = Inr (p, s1)" "sm_wf (add_mset p held) s1"
    "same_lists sm s1" "segment_wf (mem s1 p)" "abs_queue s1 qt = abs_queue sm qt"
    using pop_free_abs [OF Suc.prems(1)] qk by blast
  obtain s where s: "fill_segment bytes (of_nat (kSegSize * i)) (frag_len bytes i) (n + of_nat i) ctrl
      sec usec (mem s1 p) = Inr s" "is_fragment bytes n ctrl i s"
    using fill_segment_ok [OF s1(4) i] by blast
  let ?s2 = "set_seg p s s1"
  have w2: "sm_wf (add_mset p held) ?s2" by (rule set_seg_wf [OF s1(2) is_fragmentD(1) [OF s(2)]])
  have a2: "abs_queue ?s2 qt = abs_queue sm qt"
    using set_seg_abs [OF s1(2) _ qk, of p s] s1(5) by simp
  have en: "sq_enqueue seq_no (mem ?s2 p) (abs_queue ?s2 qt) = Inr (True, push_main s (abs_queue sm qt))"
    unfolding a2 using Suc.prems(2,3) is_fragmentD(2) [OF s(2)]
    by (simp add: sq_enqueue_def push_main_def)
  obtain s3 where s3: "enqueue qt p ?s2 = Inr s3" "abs_queue s3 qt = push_main s (abs_queue sm qt)"
    "mNextSeqNo s3 = mNextSeqNo ?s2"
    using enqueue_abs [OF en qk] by blast
  have w3: "sm_wf held s3" by (rule enqueue_wf [OF w2 s3(1)])
  have e3: "mExpectedSeqNo (abs_queue s3 qt) = n + of_nat (Suc i)"
    using Suc.prems(3) by (simp add: s3(2) push_main_def)
  have p3: "mPendingQueue (abs_queue s3 qt) = []"
    using Suc.prems(2) by (simp add: s3(2) push_main_def)
  have m3: "mMainQueue (abs_queue s3 qt) = mMainQueue (abs_queue sm qt) @ [s]"
    by (simp add: s3(2) push_main_def)
  obtain s4 frs where s4:
    "send_loop k bytes (of_nat (kSegSize * Suc i)) (n + of_nat (Suc i)) ctrl sec usec s3 = Inr s4"
    "sm_wf held s4" "mMainQueue (abs_queue s4 qt) = mMainQueue (abs_queue s3 qt) @ frs"
    "mPendingQueue (abs_queue s4 qt) = []" "mExpectedSeqNo (abs_queue s4 qt) = n + of_nat (Suc i + k)"
    "length frs = k" "\<forall>j<k. is_fragment bytes n ctrl (Suc i + j) (frs ! j)" "mNextSeqNo s4 = mNextSeqNo s3"
    using Suc.IH [OF w3 p3 e3 _ Suc.prems(5,6)] Suc.prems(4) by auto
  have step: "send_loop (Suc k) bytes (of_nat (kSegSize * i)) (n + of_nat i) ctrl sec usec sm
    = send_loop k bytes (of_nat (kSegSize * i) + of_nat (frag_len bytes i)) (n + of_nat i + 1) ctrl sec usec s3"
    unfolding send_loop.simps Let_def off fl by (simp add: s1(1) s(1) s3(1) qt [symmetric] del: of_nat_mult)
  have nxt: "n + of_nat i + 1 = n + of_nat (Suc i)" by simp
  have "k = 0 \<or> frag_len bytes i = kSegSize"
    by (rule frag_len_full [OF Suc.prems(4)])
  then have res: "send_loop (Suc k) bytes (of_nat (kSegSize * i)) (n + of_nat i) ctrl sec usec sm = Inr s4"
  proof
    assume "k = 0"
    then show ?thesis using s4(1) unfolding step by simp
  next
    assume f: "frag_len bytes i = kSegSize"
    have "of_nat (kSegSize * i) + of_nat (frag_len bytes i) = (of_nat (kSegSize * Suc i) :: u32)"
      unfolding f by (simp add: algebra_simps)
    then show ?thesis unfolding step nxt by (simp only: s4(1))
  qed
  have "is_fragment bytes n ctrl (i + j) ((s # frs) ! j)" if "j < Suc k" for j
    using that s(2) s4(7) by (cases j) auto
  then show ?case
    using res s4 m3 s1(3) s3(3) by (intro exI [of _ s4] exI [of _ "s # frs"]) (simp add: same_lists_def)
qed

section \<open>Across the wire\<close>

lemma frag_flag_bits:
  "frag_flag bytes ctrl i AND kSegFlagAck = 0"
  "frag_flag bytes ctrl i AND kSegFlagControl \<noteq> 0 \<longleftrightarrow> ctrl"
  "frag_flag bytes ctrl i AND kSegFlagMF \<noteq> 0 \<longleftrightarrow> kSegSize * i + frag_len bytes i < length bytes"
  by (simp_all add: frag_flag_def seg_consts Let_def)

lemma bytes_at_prefix:
  assumes "bytes_at off n xs = bytes_at off' n ys" "m \<le> n"
  shows "bytes_at off m xs = bytes_at off' m ys"
proof -
  have "bytes_at k m zs = take m (bytes_at k n zs)" for k and zs :: "'a list"
    using assms(2) by (simp add: bytes_at_def)
  then show ?thesis using assms(1) by simp
qed

text \<open>A fragment, stamped and sent, parses to the same fragment, whatever segment receives it.\<close>

lemma wire_fragment:
  assumes f: "is_fragment bytes n ctrl i seg"
  shows "is_fragment bytes n ctrl i (parse_segment_header (r\<lparr>data := stamp_media_ts sec usec (data seg)\<rparr>))"
proof -
  note d = is_fragmentD [OF f]
  have ld: "length (data seg) = SEGMENT_DATA_SIZE" using d(1) by (simp add: segment_wf_def)
  have st: "bytes_at a n' (stamp_media_ts sec usec (data seg)) = bytes_at a n' (data seg)"
    if "a + n' \<le> SEGMENT_DATA_SIZE" "a + n' \<le> 20 \<or> 28 \<le> a" for a n'
    using that by (rule bytes_at_stamp [OF ld])
  have h: "kSegHeaderSize + frag_len bytes i \<le> SEGMENT_DATA_SIZE"
    using frag_len_bounds(1) [of bytes i] by (simp add: seg_consts)
  have pay: "bytes_at kSegHeaderSize (frag_len bytes i) (stamp_media_ts sec usec (data seg))
      = bytes_at (kSegSize * i) (frag_len bytes i) bytes"
    using st [OF h] d(8) by (simp add: kSegHeaderSize_def)
  show ?thesis
    unfolding is_fragment_def
    using d(2-7) ld pay st [of 0 4] st [of 4 4] st [of 8 4] length_stamp [OF ld]
    by (simp add: parse_segment_header_def Let_def segment_wf_def SEGMENT_DATA_SIZE_eq)
qed

lemma fragment_kind:
  assumes "is_fragment bytes n ctrl i seg"
  shows "\<not> is_ack_segment seg" "is_control_segment seg \<longleftrightarrow> ctrl"
    "has_more_fragments seg \<longleftrightarrow> kSegSize * i + frag_len bytes i < length bytes"
  using is_fragmentD(4) [OF assms]
  by (simp_all add: is_ack_segment_def is_control_segment_def has_more_fragments_def frag_flag_bits)

text \<open>
  One round of the receiver loop on a complete buffer: the segment behind the buffer joins the
  receive queue, and one free segment is popped and never given back.
\<close>

definition carries :: "bool \<Rightarrow> segment \<Rightarrow> segment \<Rightarrow> bool" where
  "carries ctrl seg s \<longleftrightarrow> (\<forall>bytes n i. is_fragment bytes n ctrl i seg \<longrightarrow> is_fragment bytes n ctrl i s)"

lemma receiver_round_ok:
  assumes wf: "sm_wf held (ep_sm ep)" and f: "is_fragment bytes n ctrl i seg"
    and q: "queue_repr seq_no d R (abs_queue (ep_sm ep) (recv_queue ctrl))"
    and new: "unat (n + of_nat i) \<notin> seqn seq_no ` R" "unat (n + of_nat i) < 2 ^ 32 - 1"
  shows "\<exists>ep' s leak. receiver_round (int SEGMENT_DATA_SIZE) 0 (stamp_media_ts sec usec (data seg)) now ep
      = Inr (Loop_next, ep')
    \<and> sm_wf (add_mset leak held) (ep_sm ep') \<and> is_fragment bytes n ctrl i s \<and> carries ctrl seg s
    \<and> queue_repr seq_no d (insert s R) (abs_queue (ep_sm ep') (recv_queue ctrl))
    \<and> ep_state ep' = ep_state ep"
proof -
  let ?qt = "recv_queue ctrl"
  let ?buf = "stamp_media_ts sec usec (data seg)"
  have qk: "?qt \<noteq> kSQUnknown" by (simp add: recv_queue_def)
  obtain p s1 where s1: "pop_free_segment (ep_sm ep) = Inr (p, s1)" "sm_wf (add_mset p held) s1"
    "abs_queue s1 ?qt = abs_queue (ep_sm ep) ?qt"
    using pop_free_abs [OF wf] qk by blast
  define s where "s = parse_segment_header ((mem s1 p)\<lparr>data := ?buf\<rparr>)"
  have car: "carries ctrl seg s" unfolding s_def carries_def using wire_fragment by blast
  then have fs: "is_fragment bytes n ctrl i s" using f unfolding carries_def by blast
  define s3 where "s3 = set_seg p s (set_seg p ((mem s1 p)\<lparr>data := ?buf\<rparr>) s1)"
  have seg: "s3 = set_seg p s s1" by (simp add: s3_def set_seg_def)
  have w3: "sm_wf (add_mset p held) s3"
    unfolding seg by (rule set_seg_wf [OF s1(2) is_fragmentD(1) [OF fs]])
  have a3: "abs_queue s3 ?qt = abs_queue (ep_sm ep) ?qt"
    unfolding seg using set_seg_abs [OF s1(2) _ qk, of p s] s1(3) by simp
  have m3: "mem s3 p = s" by (simp add: seg)
  have num: "seq_no s = n + of_nat i" by (rule is_fragmentD(2) [OF fs])
  obtain b q' where en: "sq_enqueue seq_no s (abs_queue (ep_sm ep) ?qt) = Inr (b, q')"
    "queue_repr seq_no d (insert s R) q'"
    using rq.enq_new [OF q, of s] new unfolding num by blast
  obtain s4 where s4: "enqueue ?qt p s3 = Inr s4" "abs_queue s4 ?qt = q'"
    using enqueue_abs [of s3 p ?qt b q'] en(1) qk unfolding a3 m3 by blast
  have w4: "sm_wf held s4" by (rule enqueue_wf [OF w3 s4(1)])
  obtain leak s5 where s5: "pop_free_segment s4 = Inr (leak, s5)" "sm_wf (add_mset leak held) s5"
    "abs_queue s5 ?qt = abs_queue s4 ?qt"
    using pop_free_abs [OF w4] qk by blast
  have "receiver_round (int SEGMENT_DATA_SIZE) 0 ?buf now ep = Inr (Loop_next, ep\<lparr>ep_sm := s5\<rparr>)"
    using s1(1) s4(1) s5(1) fragment_kind [OF fs]
    by (simp add: receiver_round_def receive_buffer_def EINTR_def EAGAIN_def EINPROGRESS_def
        Let_def s_def [symmetric] s3_def [symmetric] recv_queue_def)
  with s5 s4(2) en(2) fs car show ?thesis by auto
qed

section \<open>Putting a packet together\<close>

definition recv_deq :: "bool \<Rightarrow> deq_type" where
  "recv_deq is_control = (if is_control then kDeqRecvControl else kDeqRecvData)"

lemma dequeue_abs:
  assumes wf: "sm_wf held sm" and q: "queue_repr seq_no d R (abs_queue sm (recv_queue ctrl))"
    and d: "d \<in> seqn seq_no ` R"
  shows "\<exists>p sm'. dequeue (recv_deq ctrl) sm = Inr (Some p, sm') \<and> mem sm p \<in> R \<and> seqn seq_no (mem sm p) = d
    \<and> queue_repr seq_no (Suc d) R (abs_queue sm' (recv_queue ctrl)) \<and> sm_wf (add_mset p held) sm'
    \<and> mem sm' = mem sm"
proof -
  let ?qt = "recv_queue ctrl" and ?q = "abs_queue sm (recv_queue ctrl)"
  obtain s q' where sq: "sq_dequeue ?q = Inr (s, q')" "s \<in> R" "seqn seq_no s = d" "queue_repr seq_no (Suc d) R q'"
    using rq.deq_next [OF q d] by blast
  obtain p pq where p: "sq_dequeue (mSegmentQueues sm ?qt) = Inr (p, pq)" "s = mem sm p"
    "q' = map_squeue (mem sm) pq"
    using sq(1) unfolding abs_queue_def map_squeue_dequeue
    by (cases "sq_dequeue (mSegmentQueues sm ?qt)") auto
  have "d \<noteq> unat (mExpectedSeqNo ?q)" using queue_reprD(3) [OF q] d by blast
  with queue_reprD(1) [OF q] have pos: "0 < unat (mExpectedSeqNo ?q) - d" by simp
  have "unat (mExpectedSeqNo ?q) < 2 ^ LENGTH(32)" by (rule unsigned_less)
  then have "unat (of_nat (unat (mExpectedSeqNo ?q) - d) :: u32) = unat (mExpectedSeqNo ?q) - d"
    by (intro unat_of_nat_u32) simp
  with pos have "unat (get_queue_length ?q) \<noteq> 0"
    unfolding get_queue_length_def queue_reprD(9) [OF q] by linarith
  then have len: "get_queue_length (mSegmentQueues sm ?qt) \<noteq> 0"
    by (auto simp: abs_queue_def get_queue_length_def)
  define sm' where "sm' = set_queue ?qt pq sm"
  have deq: "dequeue (recv_deq ctrl) sm = Inr (Some p, sm')"
    using len p(1) by (auto simp: dequeue_def dequeue_woken_def recv_deq_def recv_queue_def
        wait_for_dequeue_required_def get_target_queue_type_def Let_def sm'_def)
  from dequeue_wf [OF wf deq] have "sm_wf (add_mset p held) sm'" "mem sm' = mem sm" by auto
  moreover have "abs_queue sm' ?qt = q'" using p(3) by (simp add: abs_queue_def sm'_def)
  ultimately show ?thesis using deq sq p(2) by auto
qed

text \<open>All fragments of the packet with first number \<open>d\<close> are among the segments that have arrived.\<close>

definition packet_arrived :: "u8 list \<Rightarrow> nat \<Rightarrow> bool \<Rightarrow> segment set \<Rightarrow> bool" where
  "packet_arrived bytes d ctrl R \<longleftrightarrow> (\<forall>i<frag_count bytes. d + i \<in> seqn seq_no ` R
     \<and> (\<forall>s\<in>R. seqn seq_no s = d + i \<longrightarrow> is_fragment bytes (of_nat d) ctrl i s))"

lemma packet_arrivedD:
  assumes "packet_arrived bytes d ctrl R" "i < frag_count bytes"
  shows "d + i \<in> seqn seq_no ` R"
    "s \<in> R \<Longrightarrow> seqn seq_no s = d + i \<Longrightarrow> is_fragment bytes (of_nat d) ctrl i s"
  using assms by (auto simp: packet_arrived_def)

lemma frag_count_last:
  assumes "i < frag_count bytes" "bytes \<noteq> []"
  shows "kSegSize * i < length bytes"
    "Suc i < frag_count bytes \<longleftrightarrow> kSegSize * i + frag_len bytes i < length bytes"
    "Suc i < frag_count bytes \<Longrightarrow> frag_len bytes i = kSegSize"
proof -
  have c: "j < frag_count bytes \<longleftrightarrow> kSegSize * j < length bytes" for j
  proof -
    have "j < (length bytes + 511) div 512 \<longleftrightarrow> 512 * Suc j \<le> length bytes + 511"
      using less_eq_div_iff_mult_less_eq [of 512 "Suc j" "length bytes + 511"]
      by (simp add: Suc_le_eq mult.commute)
    then show ?thesis by (simp add: frag_count_def kSegSize_def) linarith
  qed
  then show "kSegSize * i < length bytes" using assms(1) by simp
  show "Suc i < frag_count bytes \<longleftrightarrow> kSegSize * i + frag_len bytes i < length bytes"
    unfolding c frag_len_def kSegSize_def by auto
  show "Suc i < frag_count bytes \<Longrightarrow> frag_len bytes i = kSegSize"
    unfolding c frag_len_def kSegSize_def by auto
qed

lemma put_bytes_take:
  "off + length src \<le> length dst \<Longrightarrow> take (off + length src) (put_bytes off src dst) = take off dst @ src"
  by (simp add: put_bytes_def)

lemma take_bytes_at: "take a xs @ bytes_at a n xs = take (a + n) xs"
  by (simp add: bytes_at_def take_add)

text \<open>
  What the continuation loop computes: from fragment \<open>i\<close> on, \<open>m\<close> pieces are copied to the offset, which
  is advanced in 16 bits.
\<close>

fun assemble :: "u8 list \<Rightarrow> nat \<Rightarrow> nat \<Rightarrow> u16 \<Rightarrow> u8 list \<Rightarrow> fault + u8 list" where
  "assemble bytes 0 i offset ser = Inr ser"
| "assemble bytes (Suc m) i offset ser =
     and_then (write_mem (unat offset) (bytes_at (kSegSize * i) (frag_len bytes i) bytes) ser)
       (assemble bytes m (Suc i) (offset + of_nat (frag_len bytes i)))"

lemma recv_loop_step:
  assumes wf: "sm_wf held sm" and q: "queue_repr seq_no (d + i) R (abs_queue sm (recv_queue ctrl))"
    and arr: "packet_arrived bytes d ctrl R" and ne: "bytes \<noteq> []" and i: "i < frag_count bytes"
    and wr: "write_mem (unat offset) (bytes_at (kSegSize * i) (frag_len bytes i) bytes) ser = Inr ser'"
  shows "\<exists>s2. sm_wf held s2 \<and> queue_repr seq_no (d + Suc i) R (abs_queue s2 (recv_queue ctrl))
    \<and> recv_loop (Suc fuel) (recv_deq ctrl) offset ser sm =
      (if Suc i < frag_count bytes
       then recv_loop fuel (recv_deq ctrl) (offset + of_nat (frag_len bytes i)) ser' s2
       else Inr (ser', s2))"
proof -
  let ?qt = "recv_queue ctrl" and ?n = "frag_len bytes i"
  note last = frag_count_last [OF i ne]
  obtain p s1 where s1: "dequeue (recv_deq ctrl) sm = Inr (Some p, s1)" "mem sm p \<in> R"
    "seqn seq_no (mem sm p) = d + i" "queue_repr seq_no (Suc (d + i)) R (abs_queue s1 ?qt)"
    "sm_wf (add_mset p held) s1" "mem s1 = mem sm"
    using dequeue_abs [OF wf q packet_arrivedD(1) [OF arr i]] by blast
  define seg where "seg = mem s1 p"
  have f: "is_fragment bytes (of_nat d) ctrl i seg"
    unfolding seg_def s1(6) by (rule packet_arrivedD(2) [OF arr i s1(2,3)])
  have "kSegHeaderSize + ?n \<le> length (data seg)"
    using frag_len_bounds(1) [of bytes i] is_fragmentD(1) [OF f] by (simp add: segment_wf_def seg_consts)
  then have rd: "read_mem kSegHeaderSize ?n (data seg) = Inr (bytes_at (kSegSize * i) ?n bytes)"
    unfolding is_fragmentD(8) [OF f, symmetric] by (rule read_mem_ok)
  obtain s2 where s2: "add_free_segment_to_list p s1 = Inr s2" "sm_wf held s2" "abs_queue s2 ?qt = abs_queue s1 ?qt"
    using add_free_abs [OF s1(5)] by blast
  have ul: "unat (len seg) = ?n" using is_fragmentD(3) [OF f] by simp
  have more: "has_more_fragments seg \<longleftrightarrow> Suc i < frag_count bytes"
    using last(2) fragment_kind(3) [OF f] by simp
  have "recv_loop (Suc fuel) (recv_deq ctrl) offset ser sm =
      (if Suc i < frag_count bytes
       then recv_loop fuel (recv_deq ctrl) (offset + of_nat ?n) ser' s2
       else Inr (ser', s2))"
    unfolding recv_loop.simps Let_def s1(1) by (simp add: seg_def [symmetric] ul rd wr s2(1) more)
  with s2 s1(4) show ?thesis by auto
qed

lemma recv_loop_assemble:
  assumes "sm_wf held sm" and "queue_repr seq_no (d + i) R (abs_queue sm (recv_queue ctrl))"
    and arr: "packet_arrived bytes d ctrl R" and ne: "bytes \<noteq> []"
    and "i + Suc m = frag_count bytes" "m < fuel" "assemble bytes (Suc m) i offset ser = Inr b"
  shows "\<exists>sm'. recv_loop fuel (recv_deq ctrl) offset ser sm = Inr (b, sm')
    \<and> sm_wf held sm' \<and> queue_repr seq_no (d + frag_count bytes) R (abs_queue sm' (recv_queue ctrl))"
  using assms(1,2,5-)
proof (induction m arbitrary: i fuel offset ser sm)
  case 0
  then obtain f where f: "fuel = Suc f" by (cases fuel) auto
  from 0 have i: "i < frag_count bytes" "\<not> Suc i < frag_count bytes" "frag_count bytes = Suc i" by auto
  from 0 have "write_mem (unat offset) (bytes_at (kSegSize * i) (frag_len bytes i) bytes) ser = Inr b"
    by (simp add: and_then_eq_Inr)
  from recv_loop_step [OF "0.prems"(1,2) arr ne i(1) this, of f] i(2,3) show ?case by (auto simp: f)
next
  case (Suc m)
  then obtain f where f: "fuel = Suc f" "m < f" by (cases fuel) auto
  from Suc have i: "i < frag_count bytes" "Suc i < frag_count bytes" by auto
  obtain ser' where w: "write_mem (unat offset) (bytes_at (kSegSize * i) (frag_len bytes i) bytes) ser = Inr ser'"
    and rest: "assemble bytes (Suc m) (Suc i) (offset + of_nat (frag_len bytes i)) ser' = Inr b"
    using Suc.prems(5) unfolding assemble.simps(2) [of bytes "Suc m"] and_then_eq_Inr by blast
  obtain s2 where s2: "sm_wf held s2" "queue_repr seq_no (d + Suc i) R (abs_queue s2 (recv_queue ctrl))"
    "recv_loop fuel (recv_deq ctrl) offset ser sm
      = recv_loop f (recv_deq ctrl) (offset + of_nat (frag_len bytes i)) ser' s2"
    using recv_loop_step [OF Suc.prems(1,2) arr ne i(1) w, of f] i(2) f(1) by auto
  have "Suc i + Suc m = frag_count bytes" using Suc.prems(3) by simp
  from Suc.IH [OF s2(1,2) this f(2) rest] show ?case unfolding s2(3) .
qed

text \<open>The offset fits into its 16 bits up to 129 fragments: 66048 bytes, 66042 of payload.\<close>

lemma assemble_write:
  assumes i: "kSegSize * i < length bytes" "0 < i" and len: "length bytes \<le> 129 * kSegSize"
    and ls: "length ser + 6 = length bytes" and tk: "take (kSegSize * i - 6) ser = take (kSegSize * i - 6) (drop 6 bytes)"
  shows "\<exists>ser'. write_mem (unat (of_nat (kSegSize * i - 6) :: u16))
      (bytes_at (kSegSize * i) (frag_len bytes i) bytes) ser = Inr ser'
    \<and> length ser' + 6 = length bytes \<and> kSegSize * i + frag_len bytes i \<le> length bytes
    \<and> take (kSegSize * i - 6 + frag_len bytes i) ser' = take (kSegSize * i - 6 + frag_len bytes i) (drop 6 bytes)"
proof -
  let ?off = "kSegSize * i - 6" and ?n = "frag_len bytes i" and ?pl = "drop 6 bytes"
  have i1: "512 \<le> kSegSize * i" using i(2) by (simp add: kSegSize_def)
  have "i < 129" using i(1) len by (simp add: kSegSize_def)
  then have "?off < 2 ^ 16" by (simp add: kSegSize_def)
  then have uoff: "unat (of_nat ?off :: u16) = ?off" by (simp add: unat_of_nat)
  define chunk where "chunk = bytes_at (kSegSize * i) ?n bytes"
  note fl = frag_len_bounds(2) [OF less_imp_le [OF i(1)]]
  have lc: "length chunk = ?n" unfolding chunk_def using fl by simp
  have lb: "?off + length chunk \<le> length ser" using fl i1 ls lc by linarith
  have chunk_pl: "chunk = bytes_at ?off ?n ?pl" using i1 by (simp add: chunk_def bytes_at_def)
  have "take (?off + ?n) (put_bytes ?off chunk ser) = take (?off + ?n) ?pl"
    using put_bytes_take [OF lb, unfolded lc] tk take_bytes_at [of ?off ?pl ?n]
    by (simp only: chunk_pl [symmetric])
  with lb ls fl show ?thesis unfolding uoff chunk_def [symmetric] by simp
qed

lemma assemble_small:
  assumes "i + Suc m = frag_count bytes" "0 < i" and ne: "bytes \<noteq> []" and len: "length bytes \<le> 129 * kSegSize"
    and "length ser + 6 = length bytes" "take (kSegSize * i - 6) ser = take (kSegSize * i - 6) (drop 6 bytes)"
  shows "assemble bytes (Suc m) i (of_nat (kSegSize * i - 6)) ser = Inr (drop 6 bytes)"
  using assms(1,2,5-)
proof (induction m arbitrary: i ser)
  case (0 i ser)
  have i: "i < frag_count bytes" "\<not> Suc i < frag_count bytes" using 0 by auto
  note last = frag_count_last [OF i(1) ne]
  obtain ser' where w: "write_mem (unat (of_nat (kSegSize * i - 6) :: u16))
      (bytes_at (kSegSize * i) (frag_len bytes i) bytes) ser = Inr ser'"
    "length ser' + 6 = length bytes" "kSegSize * i + frag_len bytes i \<le> length bytes"
    "take (kSegSize * i - 6 + frag_len bytes i) ser' = take (kSegSize * i - 6 + frag_len bytes i) (drop 6 bytes)"
    using assemble_write [OF last(1) "0.prems"(2) len "0.prems"(3,4)] by blast
  have i1: "512 \<le> kSegSize * i" using "0.prems"(2) by (simp add: kSegSize_def)
  have "\<not> kSegSize * i + frag_len bytes i < length bytes" using i(2) last(2) by blast
  then have "kSegSize * i - 6 + frag_len bytes i = length (drop 6 bytes)" using w(3) i1 by simp
  then have "ser' = drop 6 bytes" using w(2,4) by simp
  with w(1) show ?case by simp
next
  case (Suc m i ser)
  have i: "i < frag_count bytes" "Suc i < frag_count bytes" using Suc.prems by auto
  note last = frag_count_last [OF i(1) ne]
  have n: "frag_len bytes i = kSegSize" by (rule last(3) [OF i(2)])
  obtain ser' where w: "write_mem (unat (of_nat (kSegSize * i - 6) :: u16))
      (bytes_at (kSegSize * i) (frag_len bytes i) bytes) ser = Inr ser'"
    "length ser' + 6 = length bytes"
    "take (kSegSize * i - 6 + kSegSize) ser' = take (kSegSize * i - 6 + kSegSize) (drop 6 bytes)"
    using assemble_write [OF last(1) Suc.prems(2) len Suc.prems(3,4)] unfolding n by blast
  have i1: "512 \<le> kSegSize * i" using Suc.prems(2) by (simp add: kSegSize_def)
  have nxt: "kSegSize * i - 6 + kSegSize = kSegSize * Suc i - 6" using i1 by simp
  have o2: "(of_nat (kSegSize * i - 6) + of_nat (frag_len bytes i) :: u16) = of_nat (kSegSize * Suc i - 6)"
    unfolding n nxt [symmetric] of_nat_add ..
  have "Suc i + Suc m = frag_count bytes" using Suc.prems(1) by simp
  from Suc.IH [OF this _ w(2) w(3) [unfolded nxt]]
  have "assemble bytes (Suc m) (Suc i) (of_nat (kSegSize * Suc i - 6)) ser' = Inr (drop 6 bytes)" by simp
  then show ?case unfolding assemble.simps(2) [of bytes "Suc m"] w(1) o2 by simp
qed

text \<open>Beyond that the offset wraps: no byte from position 66048 on is ever written.\<close>

lemma put_bytes_drop:
  assumes "off + length src \<le> n" "n \<le> length dst"
  shows "drop n (put_bytes off src dst) = drop n dst"
proof (rule nth_equalityI)
  have b: "off + length src \<le> length dst" using assms by linarith
  show "length (drop n (put_bytes off src dst)) = length (drop n dst)" using b by simp
  fix i assume "i < length (drop n (put_bytes off src dst))"
  then have "n + i < length dst" using b by simp
  with nth_put_bytes [OF b this] assms b show "drop n (put_bytes off src dst) ! i = drop n dst ! i"
    by simp
qed

lemma assemble_big:
  assumes "66048 \<le> length ser"
    and "\<And>j. i \<le> j \<Longrightarrow> j < i + m \<Longrightarrow> kSegSize * j < length bytes"
  shows "\<exists>b. assemble bytes m i offset ser = Inr b \<and> length b = length ser \<and> drop 66048 b = drop 66048 ser"
  using assms
proof (induction m arbitrary: i offset ser)
  case (Suc m)
  let ?chunk = "bytes_at (kSegSize * i) (frag_len bytes i) bytes"
  have "kSegSize * i < length bytes" using Suc.prems(2) by simp
  note fl = frag_len_bounds(1) [of bytes i] frag_len_bounds(2) [OF less_imp_le [OF this]]
  have "unat offset < 2 ^ LENGTH(16)" by (rule unsigned_less)
  then have b: "unat offset + length ?chunk \<le> 66048" using fl by simp
  with Suc.prems(1) have b2: "unat offset + length ?chunk \<le> length ser" by linarith
  let ?ser = "put_bytes (unat offset) ?chunk ser"
  have l: "length ?ser = length ser" by (rule length_put_bytes [OF b2])
  have d: "drop 66048 ?ser = drop 66048 ser" by (rule put_bytes_drop [OF b Suc.prems(1)])
  have "66048 \<le> length ?ser" using Suc.prems(1) l by linarith
  from Suc.IH [OF this, of "Suc i" "offset + of_nat (frag_len bytes i)"] Suc.prems(2)
  obtain b where "assemble bytes m (Suc i) (offset + of_nat (frag_len bytes i)) ?ser = Inr b"
    "length b = length ?ser" "drop 66048 b = drop 66048 ?ser" by auto
  moreover have "write_mem (unat offset) ?chunk ser = Inr ?ser" using b2 by (rule write_mem_ok)
  ultimately show ?case using l d unfolding assemble.simps(2) by simp
qed simp

section \<open>Receiving a packet\<close>

definition packet_bytes :: "u16 \<Rightarrow> u8 list \<Rightarrow> u8 list" where
  "packet_bytes i payload = be16 i @ be32 (of_nat (length payload)) @ payload"

lemma length_packet_bytes [simp]: "length (packet_bytes i payload) = 6 + length payload"
  by (simp add: packet_bytes_def)

lemma drop_packet_bytes [simp]: "drop 6 (packet_bytes i payload) = payload"
  by (simp add: packet_bytes_def)

lemma packet_bytes_not_empty [simp]: "packet_bytes i payload \<noteq> []"
  by (simp add: packet_bytes_def be16_def)

lemma frag_count_pos: "0 < frag_count (packet_bytes i payload)"
  by (simp add: frag_count_def kSegSize_def)

definition received :: "u8 list \<Rightarrow> u8 list option" where
  "received payload = (if payload = [] then None else Some payload)"

lemma main_queue_enough:
  assumes q: "queue_repr seq_no d R (abs_queue sm qt)" and arr: "\<And>i. i < k \<Longrightarrow> d + i \<in> seqn seq_no ` R"
  shows "k \<le> length (mMainQueue (mSegmentQueues sm qt))"
proof (rule ccontr)
  let ?e = "unat (mExpectedSeqNo (abs_queue sm qt))"
  assume "\<not> k \<le> length (mMainQueue (mSegmentQueues sm qt))"
  moreover have "length (mMainQueue (mSegmentQueues sm qt)) = ?e - d"
    using arg_cong [OF queue_reprD(4) [OF q], of length] by (simp add: abs_queue_def)
  ultimately have "?e - d < k" "d + (?e - d) = ?e" using queue_reprD(1) [OF q] by auto
  with arr [of "?e - d"] queue_reprD(3) [OF q] show False by simp
qed

text \<open>The first segment: the packet header is parsed and the bytes behind it are copied.\<close>

definition first_piece :: "u16 \<Rightarrow> u8 list \<Rightarrow> nat" where
  "first_piece i payload = frag_len (packet_bytes i payload) 0 - 6"

definition first_buffer :: "u16 \<Rightarrow> u8 list \<Rightarrow> u8 list" where
  "first_buffer i payload =
     put_bytes 0 (take (first_piece i payload) payload) (replicate (length payload) 0)"

lemma first_piece_bounds:
  "first_piece i payload + 6 = frag_len (packet_bytes i payload) 0"
  "first_piece i payload \<le> 506" "first_piece i payload \<le> length payload"
  by (auto simp: first_piece_def frag_len_def kSegSize_def)

lemma first_buffer_props:
  "length (first_buffer i payload) = length payload"
  "take (first_piece i payload) (first_buffer i payload) = take (first_piece i payload) payload"
  using first_piece_bounds(3) [of i payload] by (simp_all add: first_buffer_def put_bytes_def)

lemma first_fragment:
  assumes f: "is_fragment (packet_bytes i payload) n ctrl 0 seg"
  shows "parse_header (drop kSegHeaderSize (data seg))
      = Inr \<lparr>pd_id = i, pd_len = of_nat (length payload), pd_data = []\<rparr>"
    "unat (len seg - of_nat kProtHeaderSize) = first_piece i payload"
    "read_mem (kSegHeaderSize + kProtHeaderSize) (first_piece i payload) (data seg)
      = Inr (take (first_piece i payload) payload)"
proof -
  let ?bytes = "packet_bytes i payload" and ?n = "frag_len (packet_bytes i payload) 0"
  have n: "6 \<le> ?n" "?n \<le> 512" by (auto simp: frag_len_def kSegSize_def)
  have wfs: "length (data seg) = 540"
    using is_fragmentD(1) [OF f] by (simp add: segment_wf_def SEGMENT_DATA_SIZE_eq)
  have pay: "bytes_at kSegHeaderSize ?n (data seg) = bytes_at 0 ?n ?bytes"
    using is_fragmentD(8) [OF f] by simp
  have h6: "take 6 (drop kSegHeaderSize (data seg)) = take 6 ?bytes"
    using bytes_at_prefix [OF pay, of 6] n(1) by (simp add: bytes_at_def)
  show "parse_header (drop kSegHeaderSize (data seg))
      = Inr \<lparr>pd_id = i, pd_len = of_nat (length payload), pd_data = []\<rparr>"
    using parse_header_take [OF _ h6] parse_serialized [of i "of_nat (length payload)" payload] wfs
    by (simp add: packet_bytes_def kSegHeaderSize_def)
  show "unat (len seg - of_nat kProtHeaderSize) = first_piece i payload"
    using is_fragmentD(3) [OF f] word_minus_of_nat [of "len seg" ?n 6] n(1)
    by (simp add: first_piece_def kProtHeaderSize_def)
  have "bytes_at (a + 6) (?n - 6) xs = drop 6 (bytes_at a ?n xs)" for a and xs :: "u8 list"
    using n(1) by (simp add: bytes_at_def drop_take add.commute)
  from this [of kSegHeaderSize "data seg"] this [of 0 ?bytes] pay
  have "bytes_at (kSegHeaderSize + kProtHeaderSize) (first_piece i payload) (data seg)
      = take (first_piece i payload) payload"
    by (simp add: kProtHeaderSize_def first_piece_def bytes_at_def)
  then show "read_mem (kSegHeaderSize + kProtHeaderSize) (first_piece i payload) (data seg)
      = Inr (take (first_piece i payload) payload)"
    using n(2) wfs by (simp add: read_mem_def seg_consts kProtHeaderSize_def first_piece_def)
qed

lemma recv_packet_assemble:
  assumes wf: "sm_wf held sm" and q: "queue_repr seq_no d R (abs_queue sm (recv_queue ctrl))"
    and len: "payload \<noteq> []" "length payload < 2 ^ 32" and arr: "packet_arrived (packet_bytes i payload) d ctrl R"
    and asm: "assemble (packet_bytes i payload) (frag_count (packet_bytes i payload) - 1) 1
      (of_nat (first_piece i payload)) (first_buffer i payload) = Inr b"
  shows "\<exists>sm'. recv_packet ctrl sm = Inr ((of_nat (length payload), Some b), sm') \<and> sm_wf held sm'
    \<and> queue_repr seq_no (d + frag_count (packet_bytes i payload)) R (abs_queue sm' (recv_queue ctrl))"
proof -
  let ?bytes = "packet_bytes i payload" and ?qt = "recv_queue ctrl"
  let ?pd = "\<lparr>pd_id = i, pd_len = of_nat (length payload), pd_data = []\<rparr>"
  have ne: "?bytes \<noteq> []" by simp
  note last = frag_count_last [OF frag_count_pos ne]
  have d: "d \<in> seqn seq_no ` R" using packet_arrivedD(1) [OF arr frag_count_pos] by simp
  obtain p s1 where s1: "dequeue (recv_deq ctrl) sm = Inr (Some p, s1)" "mem sm p \<in> R"
    "seqn seq_no (mem sm p) = d" "queue_repr seq_no (Suc d) R (abs_queue s1 ?qt)"
    "sm_wf (add_mset p held) s1" "mem s1 = mem sm"
    using dequeue_abs [OF wf q d] by blast
  define seg where "seg = mem s1 p"
  have f: "is_fragment ?bytes (of_nat d) ctrl 0 seg"
    unfolding seg_def s1(6) using packet_arrivedD(2) [OF arr frag_count_pos s1(2)] s1(3) by simp
  note ff = first_fragment [OF f]
  have pl: "unat (of_nat (length payload) :: u32) = length payload"
    using len(2) by (rule unat_of_nat_u32)
  have nz: "(of_nat (length payload) :: u32) \<noteq> 0" using pl len(1) by (metis length_0_conv unat_0)
  have wr: "write_mem 0 (take (first_piece i payload) payload) (replicate (length payload) 0)
      = Inr (first_buffer i payload)"
    using first_piece_bounds(3) [of i payload] by (simp add: first_buffer_def)
  obtain s2 where s2: "add_free_segment_to_list p s1 = Inr s2" "sm_wf held s2"
    "abs_queue s2 ?qt = abs_queue s1 ?qt" using add_free_abs [OF s1(5)] by blast
  have q2: "queue_repr seq_no (d + 1) R (abs_queue s2 ?qt)" using s1(4) s2(3) by simp
  define fuel where "fuel = length (mMainQueue (mSegmentQueues s2 ?qt))"
  have dtd: "(if ctrl then kDeqRecvControl else kDeqRecvData) = recv_deq ctrl"
    by (simp add: recv_deq_def)
  have step: "recv_from_segment_manager ctrl sm =
    (if has_more_fragments seg
     then and_then (recv_loop fuel (recv_deq ctrl) (of_nat (first_piece i payload)) (first_buffer i payload) s2)
            (\<lambda>(buf, sm3). Inr ((?pd, Some buf), sm3))
     else Inr ((?pd, Some (first_buffer i payload)), s2))"
    using nz by (simp add: recv_from_segment_manager_def Let_def dtd s1(1) seg_def [symmetric] ff pl wr
        s2(1) fuel_def)
  have more: "has_more_fragments seg \<longleftrightarrow> 1 < frag_count ?bytes"
    using last(2) fragment_kind(3) [OF f] by simp
  have "\<exists>sm'. recv_from_segment_manager ctrl sm = Inr ((?pd, Some b), sm')
    \<and> sm_wf held sm' \<and> queue_repr seq_no (d + frag_count ?bytes) R (abs_queue sm' ?qt)"
  proof (cases "frag_count ?bytes - 1")
    case 0
    then have "\<not> has_more_fragments seg" "frag_count ?bytes = 1"
      unfolding more using frag_count_pos [of i payload] by linarith+
    moreover have "first_buffer i payload = b" using asm unfolding 0 by simp
    ultimately show ?thesis using step s2(2) q2 by simp
  next
    case (Suc m)
    have fc: "1 + Suc m = frag_count ?bytes" using Suc by simp
    have "Suc m \<le> fuel" unfolding fuel_def
    proof (rule main_queue_enough [OF q2])
      fix j assume "j < Suc m"
      then show "d + 1 + j \<in> seqn seq_no ` R" using packet_arrivedD(1) [OF arr, of "Suc j"] fc by simp
    qed
    then have mf: "m < fuel" by simp
    from recv_loop_assemble [OF s2(2) q2 arr ne fc mf asm [unfolded Suc]] step more fc show ?thesis by auto
  qed
  then show ?thesis by (auto simp: recv_packet_def)
qed

lemma recv_packet_empty:
  assumes wf: "sm_wf held sm" and q: "queue_repr seq_no d R (abs_queue sm (recv_queue ctrl))"
    and arr: "packet_arrived (packet_bytes i []) d ctrl R"
  shows "\<exists>sm' p. recv_packet ctrl sm = Inr ((0, None), sm') \<and> sm_wf (add_mset p held) sm'
    \<and> queue_repr seq_no (d + frag_count (packet_bytes i [])) R (abs_queue sm' (recv_queue ctrl))"
proof -
  have d: "d \<in> seqn seq_no ` R" using packet_arrivedD(1) [OF arr frag_count_pos] by simp
  obtain p s1 where s1: "dequeue (recv_deq ctrl) sm = Inr (Some p, s1)" "mem sm p \<in> R"
    "seqn seq_no (mem sm p) = d" "queue_repr seq_no (Suc d) R (abs_queue s1 (recv_queue ctrl))"
    "sm_wf (add_mset p held) s1" "mem s1 = mem sm"
    using dequeue_abs [OF wf q d] by blast
  have "is_fragment (packet_bytes i []) (of_nat d) ctrl 0 (mem s1 p)"
    unfolding s1(6) using packet_arrivedD(2) [OF arr frag_count_pos s1(2)] s1(3) by simp
  note ff = first_fragment [OF this]
  have "recv_packet ctrl sm = Inr ((0, None), s1)"
    using s1(1) ff(1) by (simp add: recv_packet_def recv_from_segment_manager_def Let_def
        recv_deq_def [symmetric])
  moreover have "frag_count (packet_bytes i []) = 1" by (simp add: frag_count_def kSegSize_def)
  ultimately show ?thesis using s1(4,5) by auto
qed

lemma recv_packet_ok:
  assumes wf: "sm_wf held sm" and q: "queue_repr seq_no d R (abs_queue sm (recv_queue ctrl))"
    and len: "length payload \<le> 66042" and arr: "packet_arrived (packet_bytes i payload) d ctrl R"
  shows "\<exists>sm' held'. recv_packet ctrl sm = Inr ((of_nat (length payload), received payload), sm')
    \<and> sm_wf held' sm'
    \<and> queue_repr seq_no (d + frag_count (packet_bytes i payload)) R (abs_queue sm' (recv_queue ctrl))"
proof (cases "payload = []")
  case True
  with recv_packet_empty [OF wf q, of i] arr show ?thesis by (auto simp: received_def)
next
  case False
  let ?bytes = "packet_bytes i payload"
  have "assemble ?bytes (frag_count ?bytes - 1) 1 (of_nat (first_piece i payload)) (first_buffer i payload)
      = Inr payload"
  proof (cases "frag_count ?bytes - 1")
    case 0
    then have "\<not> Suc 0 < frag_count ?bytes" by simp
    then have "\<not> frag_len ?bytes 0 < length ?bytes"
      using frag_count_last(2) [OF frag_count_pos, of i payload] by simp
    then have "first_piece i payload = length payload"
      using first_piece_bounds(1,3) [of i payload] by simp
    then show ?thesis using first_buffer_props [of i payload] unfolding 0 by simp
  next
    case (Suc m)
    then have "frag_len ?bytes 0 = kSegSize"
      by (intro frag_count_last(3) [OF frag_count_pos]) simp_all
    then have fp: "first_piece i payload = kSegSize * 1 - 6" by (simp add: first_piece_def)
    have fc: "1 + Suc m = frag_count ?bytes" using Suc by simp
    have "assemble ?bytes (Suc m) 1 (of_nat (kSegSize * 1 - 6)) (first_buffer i payload) = Inr (drop 6 ?bytes)"
    proof (rule assemble_small [OF fc])
      show "length ?bytes \<le> 129 * kSegSize" using len by (simp add: kSegSize_def)
      show "take (kSegSize * 1 - 6) (first_buffer i payload) = take (kSegSize * 1 - 6) (drop 6 ?bytes)"
        using first_buffer_props(2) [of i payload] fp by simp
    qed (simp_all add: first_buffer_props(1))
    then show ?thesis unfolding Suc fp by simp
  qed
  from recv_packet_assemble [OF wf q False _ arr this] len False show ?thesis
    by (auto simp: received_def)
qed

text \<open>A longer packet is delivered with zeros from position 66048 on.\<close>

lemma recv_packet_big:
  assumes wf: "sm_wf held sm" and q: "queue_repr seq_no d R (abs_queue sm (recv_queue ctrl))"
    and len: "66048 \<le> length payload" "length payload < 2 ^ 32"
    and arr: "packet_arrived (packet_bytes i payload) d ctrl R"
  shows "\<exists>sm' b. recv_packet ctrl sm = Inr ((of_nat (length payload), Some b), sm') \<and> length b = length payload
    \<and> drop 66048 b = replicate (length payload - 66048) 0"
proof -
  let ?bytes = "packet_bytes i payload"
  have "66048 \<le> length (first_buffer i payload)" using len(1) by (simp add: first_buffer_props)
  moreover have "kSegSize * j < length ?bytes" if "1 \<le> j" "j < 1 + (frag_count ?bytes - 1)" for j
    using that frag_count_last(1) [of j ?bytes] by simp
  ultimately obtain b where b: "assemble ?bytes (frag_count ?bytes - 1) 1 (of_nat (first_piece i payload))
      (first_buffer i payload) = Inr b" "length b = length (first_buffer i payload)"
    "drop 66048 b = drop 66048 (first_buffer i payload)"
    using assemble_big by blast
  have "drop 66048 (first_buffer i payload) = drop 66048 (replicate (length payload) 0)"
    unfolding first_buffer_def using first_piece_bounds(2,3) [of i payload] len(1)
    by (intro put_bytes_drop) auto
  then have "drop 66048 b = replicate (length payload - 66048) 0" using b(3) by simp
  moreover have "payload \<noteq> []" using len(1) by auto
  ultimately show ?thesis
    using recv_packet_assemble [OF wf q _ len(2) arr b(1)] b(2) by (auto simp: first_buffer_props(1))
qed

section \<open>Sending a packet\<close>

definition send_queue :: "bool \<Rightarrow> queue_type" where
  "send_queue is_control = (if is_control then kSQSendControl else kSQSendData)"

text \<open>The sending side has numbered \<open>n\<close> segments, all of them in order in its send queue.\<close>

definition send_ready :: "bool \<Rightarrow> nat \<Rightarrow> segment list \<Rightarrow> endpoint \<Rightarrow> bool" where
  "send_ready ctrl n frs ep \<longleftrightarrow> ep_state ep = kCoreStateReady \<and> (\<exists>held. sm_wf held (ep_sm ep))
     \<and> mPendingQueue (abs_queue (ep_sm ep) (send_queue ctrl)) = []
     \<and> mMainQueue (abs_queue (ep_sm ep) (send_queue ctrl)) = frs
     \<and> mExpectedSeqNo (abs_queue (ep_sm ep) (send_queue ctrl)) = of_nat n
     \<and> mNextSeqNo (ep_sm ep) (if ctrl then kSNControl else kSNData) = of_nat n"

lemma serialize_packet:
  assumes "length payload < 2 ^ 32 - 6"
  shows "serialize \<lparr>pd_id = i, pd_len = of_nat (length payload), pd_data = payload\<rparr> payload 0
      (of_nat (length payload)) = Inr (packet_bytes i payload)"
  using serialize_eq [OF assms, of "\<lparr>pd_id = i, pd_len = of_nat (length payload), pd_data = payload\<rparr>"]
  by (simp add: packet_bytes_def)

lemma core_send_ok:
  assumes r: "send_ready ctrl n frs ep" and len: "length payload < 2 ^ 32 - 512"
  shows "\<exists>ep' new. core_send payload ctrl now ep = Inr (0, ep')
    \<and> send_ready ctrl (n + frag_count (packet_bytes (sPacketId ep) payload)) (frs @ new) ep'
    \<and> sPacketId ep' = sPacketId ep + 1
    \<and> length new = frag_count (packet_bytes (sPacketId ep) payload)
    \<and> (\<forall>i<length new. is_fragment (packet_bytes (sPacketId ep) payload) (of_nat n) ctrl i (new ! i))"
proof -
  let ?b = "packet_bytes (sPacketId ep) payload" and ?qt = "send_queue ctrl"
  let ?sn = "if ctrl then kSNControl else kSNData"
  define k where "k = frag_count ?b"
  obtain held where wf: "sm_wf held (ep_sm ep)" using r by (auto simp: send_ready_def)
  have k: "k < 2 ^ 32 - 1"
    using len by (simp add: k_def frag_count_def kSegSize_def)
  then have uk: "unat (of_nat k :: u32) = k" by (intro unat_of_nat_u32) simp
  have kd: "(length ?b + kSegSize - 1) div kSegSize = k" by (simp add: k_def frag_count_def)
  define s1 where "s1 = (ep_sm ep)\<lparr>mNextSeqNo := (mNextSeqNo (ep_sm ep))(?sn := of_nat n + of_nat k)\<rparr>"
  have nx: "get_next_seq_no ?sn (of_nat k) (ep_sm ep) = (of_nat n, s1)"
    using r by (simp add: get_next_seq_no_def s1_def send_ready_def)
  have w1: "sm_wf held s1" using wf by (simp add: sm_wf_def heap_wf_def s1_def)
  have a1: "abs_queue s1 ?qt = abs_queue (ep_sm ep) ?qt" by (simp add: abs_queue_def s1_def)
  have r1: "mPendingQueue (abs_queue s1 ?qt) = []" "mMainQueue (abs_queue s1 ?qt) = frs"
    "mExpectedSeqNo (abs_queue s1 ?qt) = of_nat n + of_nat 0"
    using r unfolding a1 by (simp_all add: send_ready_def)
  let ?sec = "word_of_int (fst now) :: i32" and ?usec = "word_of_int (snd now) :: i32"
  have len2: "length ?b < 2 ^ 32" using len by simp
  have k0: "0 + k = frag_count ?b" by (simp add: k_def)
  obtain s2 new where s2: "send_loop k ?b (of_nat (kSegSize * 0)) (of_nat n + of_nat 0) ctrl ?sec ?usec s1 = Inr s2"
    "sm_wf held s2" "mMainQueue (abs_queue s2 ?qt) = frs @ new" "mPendingQueue (abs_queue s2 ?qt) = []"
    "mExpectedSeqNo (abs_queue s2 ?qt) = of_nat n + of_nat (0 + k)" "length new = k"
    "\<forall>j<k. is_fragment ?b (of_nat n) ctrl (0 + j) (new ! j)" "mNextSeqNo s2 = mNextSeqNo s1"
    using send_loop_ok [where sec = ?sec and usec = ?usec, OF w1 send_queue_def r1(1,3) k0 len2 packet_bytes_not_empty]
    unfolding r1(2) by blast
  let ?ep1 = "ep\<lparr>mSendRequestSize := set_value (of_nat (length payload)) (mSendRequestSize ep),
    mSendArrivalTime := arrive now (mSendArrivalTime ep)\<rparr>"
  let ?ep' = "?ep1\<lparr>sPacketId := sPacketId ep + 1, ep_sm := s2\<rparr>"
  have "send_packet ?b ctrl ?sec ?usec (ep_sm ep) = Inr (0, s2)"
    unfolding send_packet_def send_to_segment_manager_def kd Let_def
    using nx s2(1) uk k by simp
  moreover have "serialize \<lparr>pd_id = sPacketId ep, pd_len = of_nat (length payload), pd_data = payload\<rparr> payload 0
      (of_nat (length payload)) = Inr ?b"
    using len by (intro serialize_packet) simp
  ultimately have "core_send payload ctrl now ep = Inr (0, ?ep')"
    using r by (simp add: core_send_def send_ready_def data_to_protocol_data_def Let_def)
  moreover have "send_ready ctrl (n + k) (frs @ new) ?ep'"
    using r s2 by (auto simp: send_ready_def s1_def)
  ultimately show ?thesis using s2(6,7) unfolding k_def by auto
qed

text \<open>A list of packets, one after the other.\<close>

fun send_all :: "u8 list list \<Rightarrow> bool \<Rightarrow> int \<times> int \<Rightarrow> endpoint \<Rightarrow> fault + endpoint" where
  "send_all [] ctrl now ep = Inr ep"
| "send_all (x # xs) ctrl now ep = and_then (core_send x ctrl now ep) (\<lambda>r. send_all xs ctrl now (snd r))"

fun stream_size :: "u16 \<Rightarrow> u8 list list \<Rightarrow> nat" where
  "stream_size i [] = 0"
| "stream_size i (x # xs) = frag_count (packet_bytes i x) + stream_size (i + 1) xs"

text \<open>\<open>frs\<close> holds, from position \<open>n\<close> on, the fragments of the packets with ids from \<open>i\<close> on.\<close>

fun stream_at :: "bool \<Rightarrow> segment list \<Rightarrow> nat \<Rightarrow> u16 \<Rightarrow> u8 list list \<Rightarrow> bool" where
  "stream_at ctrl frs n i [] \<longleftrightarrow> length frs = n"
| "stream_at ctrl frs n i (x # xs) \<longleftrightarrow>
     (\<forall>j<frag_count (packet_bytes i x). is_fragment (packet_bytes i x) (of_nat n) ctrl j (frs ! (n + j)))
     \<and> stream_at ctrl frs (n + frag_count (packet_bytes i x)) (i + 1) xs"

lemma send_all_ok:
  assumes "send_ready ctrl (length frs) frs ep" "\<forall>x\<in>set xs. length x < 2 ^ 32 - 512"
  shows "\<exists>ep' frs'. send_all xs ctrl now ep = Inr ep' \<and> send_ready ctrl (length frs') frs' ep'
    \<and> take (length frs) frs' = frs \<and> length frs' = length frs + stream_size (sPacketId ep) xs
    \<and> stream_at ctrl frs' (length frs) (sPacketId ep) xs"
  using assms
proof (induction xs arbitrary: ep frs)
  case (Cons x xs)
  let ?b = "packet_bytes (sPacketId ep) x"
  obtain ep1 new where e1: "core_send x ctrl now ep = Inr (0, ep1)"
    "send_ready ctrl (length frs + frag_count ?b) (frs @ new) ep1" "sPacketId ep1 = sPacketId ep + 1"
    "length new = frag_count ?b" "\<forall>i<length new. is_fragment ?b (of_nat (length frs)) ctrl i (new ! i)"
    using core_send_ok [OF Cons.prems(1), of x now] Cons.prems(2) by auto
  have "send_ready ctrl (length (frs @ new)) (frs @ new) ep1" using e1(2,4) by simp
  from Cons.IH [OF this] Cons.prems(2) obtain ep' frs' where e2: "send_all xs ctrl now ep1 = Inr ep'"
    "send_ready ctrl (length frs') frs' ep'" "take (length (frs @ new)) frs' = frs @ new"
    "length frs' = length (frs @ new) + stream_size (sPacketId ep1) xs"
    "stream_at ctrl frs' (length (frs @ new)) (sPacketId ep1) xs" by auto
  have "frs' ! (length frs + j) = new ! j" if "j < length new" for j
    using nth_take [of "length frs + j" "length (frs @ new)" frs'] that unfolding e2(3) by simp
  moreover have "take (length frs) frs' = frs"
    using arg_cong [OF e2(3), of "take (length frs)"] by simp
  ultimately show ?case using e1 e2 by (intro exI [of _ ep'] exI [of _ frs']) simp
qed auto

section \<open>The whole path\<close>

text \<open>A segment of the sender, the time it is stamped with, and the time it arrives.\<close>

type_synonym arrival = "segment \<times> (i32 \<times> i32) \<times> (int \<times> int)"

definition wire_buffer :: "arrival \<Rightarrow> u8 list" where
  "wire_buffer a = (case a of (seg, (sec, usec), now) \<Rightarrow> stamp_media_ts sec usec (data seg))"

fun receive_all :: "arrival list \<Rightarrow> endpoint \<Rightarrow> fault + endpoint" where
  "receive_all [] ep = Inr ep"
| "receive_all (a # as) ep =
     and_then (receiver_round (int SEGMENT_DATA_SIZE) 0 (wire_buffer a) (snd (snd a)) ep)
       (\<lambda>r. receive_all as (snd r))"

fun core_receive_n :: "nat \<Rightarrow> bool \<Rightarrow> endpoint \<Rightarrow> fault + (i32 \<times> u8 list option) list \<times> endpoint" where
  "core_receive_n 0 ctrl ep = Inr ([], ep)"
| "core_receive_n (Suc n) ctrl ep =
     and_then (core_receive ctrl ep) (\<lambda>r. and_then (core_receive_n n ctrl (snd r)) (\<lambda>s.
       Inr (fst r # fst s, snd s)))"

lemma receive_all_ok:
  assumes "sm_wf held (ep_sm ep)" "queue_repr seq_no d R (abs_queue (ep_sm ep) (recv_queue ctrl))"
    and "\<forall>s\<in>fst ` set as. \<exists>bytes n i. is_fragment bytes n ctrl i s"
    and "distinct (map (\<lambda>a. seqn seq_no (fst a)) as)"
    and "(\<lambda>a. seqn seq_no (fst a)) ` set as \<inter> seqn seq_no ` R = {}"
    and "\<forall>a\<in>set as. seqn seq_no (fst a) < 2 ^ 32 - 1"
  shows "\<exists>ep' R' held'. receive_all as ep = Inr ep' \<and> sm_wf held' (ep_sm ep') \<and> ep_state ep' = ep_state ep
    \<and> queue_repr seq_no d (R' \<union> R) (abs_queue (ep_sm ep') (recv_queue ctrl))
    \<and> (\<forall>r\<in>R'. \<exists>s\<in>fst ` set as. seq_no r = seq_no s \<and> carries ctrl s r)
    \<and> (\<forall>s\<in>fst ` set as. \<exists>r\<in>R'. seq_no r = seq_no s)"
  using assms
proof (induction as arbitrary: ep R held)
  case Nil
  then show ?case by (intro exI [of _ ep] exI [of _ "{}"] exI [of _ held]) simp
next
  case (Cons a as)
  obtain seg sec usec now where a: "a = (seg, (sec, usec), now)" by (metis surj_pair)
  obtain bytes n i where f: "is_fragment bytes n ctrl i seg" using Cons.prems(3) a by auto
  have num: "n + of_nat i = seq_no seg" using is_fragmentD(2) [OF f] by simp
  have new: "unat (n + of_nat i) \<notin> seqn seq_no ` R" "unat (n + of_nat i) < 2 ^ 32 - 1"
    using Cons.prems(5,6) a unfolding num by auto
  obtain e1 s leak where e1: "receiver_round (int SEGMENT_DATA_SIZE) 0 (stamp_media_ts sec usec (data seg)) now ep
      = Inr (Loop_next, e1)"
    "sm_wf (add_mset leak held) (ep_sm e1)" "is_fragment bytes n ctrl i s" "carries ctrl seg s"
    "queue_repr seq_no d (insert s R) (abs_queue (ep_sm e1) (recv_queue ctrl))" "ep_state e1 = ep_state ep"
    using receiver_round_ok [OF Cons.prems(1) f Cons.prems(2) new] by blast
  have sn: "seq_no s = seq_no seg" using is_fragmentD(2) [OF e1(3)] num by simp
  have dj: "(\<lambda>a. seqn seq_no (fst a)) ` set as \<inter> seqn seq_no ` insert s R = {}"
    using Cons.prems(4,5) a sn by auto
  obtain ep' R' held' where e2: "receive_all as e1 = Inr ep'" "sm_wf held' (ep_sm ep')" "ep_state ep' = ep_state e1"
    "queue_repr seq_no d (R' \<union> insert s R) (abs_queue (ep_sm ep') (recv_queue ctrl))"
    "\<forall>r\<in>R'. \<exists>s\<in>fst ` set as. seq_no r = seq_no s \<and> carries ctrl s r"
    "\<forall>s\<in>fst ` set as. \<exists>r\<in>R'. seq_no r = seq_no s"
    using Cons.IH [OF e1(2,5) _ _ dj] Cons.prems(3,4,6) by auto
  have "receive_all (a # as) ep = Inr ep'" using e1(1) e2(1) a by (simp add: wire_buffer_def)
  moreover have "queue_repr seq_no d (insert s R' \<union> R) (abs_queue (ep_sm ep') (recv_queue ctrl))"
    using e2(4) by simp
  moreover have "\<forall>r\<in>insert s R'. \<exists>s\<in>fst ` set (a # as). seq_no r = seq_no s \<and> carries ctrl s r"
    using e2(5) sn e1(4) a by auto
  moreover have "\<forall>s'\<in>fst ` set (a # as). \<exists>r\<in>insert s R'. seq_no r = seq_no s'"
    using e2(6) sn a by auto
  ultimately show ?case using e2(2,3) e1(6) by (intro exI [of _ ep'] exI [of _ "insert s R'"] exI [of _ held']) simp
qed

lemma stream_at_cover:
  assumes "stream_at ctrl frs n i xs" "n \<le> m" "m < length frs"
  shows "\<exists>bytes n' j. m = n' + j \<and> is_fragment bytes (of_nat n') ctrl j (frs ! m)"
  using assms
proof (induction ctrl frs n i xs rule: stream_at.induct)
  case (2 ctrl frs n i x xs)
  show ?case
  proof (cases "m < n + frag_count (packet_bytes i x)")
    case True
    then have "m - n < frag_count (packet_bytes i x)" "n + (m - n) = m" using "2.prems"(2) by linarith+
    with "2.prems"(1) show ?thesis unfolding stream_at.simps by metis
  next
    case False
    with 2 show ?thesis by simp
  qed
qed simp

text \<open>
  What has to hold of the arrived segments, given the sent ones: there is one for every number,
  and it is the sent one.
\<close>

lemma stream_arrived:
  assumes "stream_at ctrl frs n i (x # xs)"
    and num: "\<And>m. m < length frs \<Longrightarrow> seqn seq_no (frs ! m) = m" and len: "n + frag_count (packet_bytes i x) \<le> length frs"
    and R: "\<forall>r\<in>R. \<exists>s\<in>set frs. seq_no r = seq_no s \<and> carries ctrl s r" "\<forall>s\<in>set frs. \<exists>r\<in>R. seq_no r = seq_no s"
  shows "packet_arrived (packet_bytes i x) n ctrl R"
  unfolding packet_arrived_def
proof (intro allI impI conjI ballI)
  fix j assume j: "j < frag_count (packet_bytes i x)"
  then have lt: "n + j < length frs" using len by simp
  then obtain r where "r \<in> R" "seq_no r = seq_no (frs ! (n + j))" using R(2) by (meson nth_mem)
  then have "r \<in> R" "seqn seq_no r = n + j" using num [OF lt] by simp_all
  then show "n + j \<in> seqn seq_no ` R" by (metis imageI)
  fix r assume r: "r \<in> R" "seqn seq_no r = n + j"
  then obtain m where m: "m < length frs" "seq_no r = seq_no (frs ! m)" "carries ctrl (frs ! m) r"
    using R(1) by (metis in_set_conv_nth)
  then have "m = n + j" using num [OF m(1)] r(2) by simp
  with assms(1) j m(3) show "is_fragment (packet_bytes i x) (of_nat n) ctrl j r"
    by (simp add: carries_def)
qed

lemma stream_at_length: "stream_at ctrl frs n i xs \<Longrightarrow> length frs = n + stream_size i xs"
  by (induction ctrl frs n i xs rule: stream_at.induct) auto

lemma core_receive_stream:
  assumes "stream_at ctrl frs n i xs" and num: "\<And>m. m < length frs \<Longrightarrow> seqn seq_no (frs ! m) = m"
    and R: "\<forall>r\<in>R. \<exists>s\<in>set frs. seq_no r = seq_no s \<and> carries ctrl s r" "\<forall>s\<in>set frs. \<exists>r\<in>R. seq_no r = seq_no s"
    and "sm_wf held (ep_sm ep)" "queue_repr seq_no n R (abs_queue (ep_sm ep) (recv_queue ctrl))"
    and "ep_state ep = kCoreStateReady" "\<forall>x\<in>set xs. length x \<le> 66042"
  shows "\<exists>ep'. core_receive_n (length xs) ctrl ep = Inr (map (\<lambda>x. (of_nat (length x), received x)) xs, ep')"
  using assms(1,5-)
proof (induction xs arbitrary: n i ep held)
  case (Cons x xs)
  have st: "stream_at ctrl frs (n + frag_count (packet_bytes i x)) (i + 1) xs"
    using Cons.prems(1) by simp
  have "n + frag_count (packet_bytes i x) \<le> length frs"
    using stream_at_length [OF st] by simp
  from stream_arrived [OF Cons.prems(1) num this R]
  have arr: "packet_arrived (packet_bytes i x) n ctrl R" by blast
  obtain s1 held1 where s1: "recv_packet ctrl (ep_sm ep) = Inr ((of_nat (length x), received x), s1)"
    "sm_wf held1 s1" "queue_repr seq_no (n + frag_count (packet_bytes i x)) R (abs_queue s1 (recv_queue ctrl))"
    using recv_packet_ok [OF Cons.prems(2,3) _ arr] Cons.prems(5) by auto
  let ?e1 = "ep\<lparr>ep_sm := s1\<rparr>"
  have c: "core_receive ctrl ep = Inr ((of_nat (length x), received x), ?e1)"
    using s1(1) Cons.prems(4) by (simp add: core_receive_def)
  have "sm_wf held1 (ep_sm ?e1)"
    "queue_repr seq_no (n + frag_count (packet_bytes i x)) R (abs_queue (ep_sm ?e1) (recv_queue ctrl))"
    "ep_state ?e1 = kCoreStateReady" "\<forall>x\<in>set xs. length x \<le> 66042"
    using s1(2,3) Cons.prems(4,5) by simp_all
  from Cons.IH [OF st this] c show ?case by auto
qed simp

text \<open>Two freshly started sides; \<open>c\<close> is the value of the freshly constructed counters.\<close>

definition fresh_endpoint :: "counter \<Rightarrow> endpoint" where
  "fresh_endpoint c = \<lparr>ep_state = kCoreStateReady, sPacketId = 0, ep_sm = seg_mgr_ctor c,
     mSendRequestSize = c, mSendArrivalTime = arrival_ctor c, mSendRTT = c, mMediaRTT = c\<rparr>"

lemma fresh_send_ready: "send_ready ctrl 0 [] (fresh_endpoint c)"
  using sm_wf_ctor [of c]
  by (auto simp: send_ready_def fresh_endpoint_def abs_queue_def seg_mgr_ctor_def squeue_ctor_def map_squeue_def)

lemma fresh_queue_repr:
  "queue_repr seq_no 0 {} (abs_queue (ep_sm (fresh_endpoint (counter_ctor ptr on tot cnt))) qt)"
proof -
  have "abs_queue (ep_sm (fresh_endpoint c)) qt = squeue_ctor c" for c
    by (simp add: abs_queue_def fresh_endpoint_def seg_mgr_ctor_def squeue_ctor_def map_squeue_def)
  then show ?thesis by (simp add: queue_repr_empty)
qed

text \<open>The receiver's queue represents a set of segments \<open>R\<close> that are the sent ones.\<close>

definition holds_stream :: "bool \<Rightarrow> segment list \<Rightarrow> endpoint \<Rightarrow> segment set \<Rightarrow> bool" where
  "holds_stream ctrl frs b R \<longleftrightarrow> (\<exists>held. sm_wf held (ep_sm b)) \<and> ep_state b = kCoreStateReady
     \<and> queue_repr seq_no 0 R (abs_queue (ep_sm b) (recv_queue ctrl))
     \<and> (\<forall>r\<in>R. \<exists>s\<in>set frs. seq_no r = seq_no s \<and> carries ctrl s r)
     \<and> (\<forall>s\<in>set frs. \<exists>r\<in>R. seq_no r = seq_no s)"

lemma stream_numbers:
  assumes st: "stream_at ctrl frs 0 0 xs" and len: "length frs < 2 ^ 32 - 1" and m: "m < length frs"
  shows "seqn seq_no (frs ! m) = m" "\<exists>bytes n i. is_fragment bytes n ctrl i (frs ! m)"
proof -
  obtain bytes n j where j: "m = n + j" "is_fragment bytes (of_nat n) ctrl j (frs ! m)"
    using stream_at_cover [OF st _ m] by blast
  have "m < 2 ^ 32" using m len by linarith
  moreover have "seq_no (frs ! m) = of_nat m" using is_fragmentD(2) [OF j(2)] j(1) by simp
  ultimately show "seqn seq_no (frs ! m) = m" by (simp only: unat_of_nat_u32)
  show "\<exists>bytes n i. is_fragment bytes n ctrl i (frs ! m)" using j(2) by blast
qed

lemma stream_received:
  assumes st: "stream_at ctrl frs 0 0 xs" and len: "length frs < 2 ^ 32 - 1" and as: "mset (map fst as) = mset frs"
  shows "\<exists>b R. receive_all as (fresh_endpoint (counter_ctor ptr on tot cnt)) = Inr b \<and> holds_stream ctrl frs b R"
proof -
  let ?num = "\<lambda>a :: arrival. seqn seq_no (fst a)"
  have sf: "fst ` set as = set frs" using mset_eq_setD [OF as] by simp
  have nums: "map (seqn seq_no) frs = [0..<length frs]"
    using stream_numbers(1) [OF st len] by (intro nth_equalityI) auto
  have "mset (map (seqn seq_no) (map fst as)) = mset (map (seqn seq_no) frs)"
    using as unfolding mset_map by simp
  then have ms: "mset (map ?num as) = mset [0..<length frs]" unfolding nums by (simp add: comp_def)
  have d: "distinct (map ?num as)" using mset_eq_imp_distinct_iff [OF ms] by simp
  have fr: "\<forall>s\<in>fst ` set as. \<exists>bytes n i. is_fragment bytes n ctrl i s"
    unfolding sf using stream_numbers(2) [OF st len] by (metis in_set_conv_nth)
  have im: "?num ` set as = {0..<length frs}" using mset_eq_setD [OF ms] by simp
  have bd: "\<forall>a\<in>set as. ?num a < 2 ^ 32 - 1"
  proof
    fix a assume "a \<in> set as"
    then have "?num a \<in> {0..<length frs}" unfolding im [symmetric] by (rule imageI)
    then show "?num a < 2 ^ 32 - 1" using len unfolding atLeastLessThan_iff by linarith
  qed
  have wf: "sm_wf {#} (ep_sm (fresh_endpoint (counter_ctor ptr on tot cnt)))"
    by (simp add: fresh_endpoint_def sm_wf_ctor)
  have rd: "ep_state (fresh_endpoint (counter_ctor ptr on tot cnt)) = kCoreStateReady"
    by (simp add: fresh_endpoint_def)
  have dj: "?num ` set as \<inter> seqn seq_no ` {} = {}" by simp
  from receive_all_ok [OF wf fresh_queue_repr fr d dj bd] obtain b R held where
    "receive_all as (fresh_endpoint (counter_ctor ptr on tot cnt)) = Inr b"
    "sm_wf held (ep_sm b)" "ep_state b = kCoreStateReady"
    "queue_repr seq_no 0 R (abs_queue (ep_sm b) (recv_queue ctrl))"
    "\<forall>r\<in>R. \<exists>s\<in>set frs. seq_no r = seq_no s \<and> carries ctrl s r"
    "\<forall>s\<in>set frs. \<exists>r\<in>R. seq_no r = seq_no s"
    unfolding sf rd Un_empty_right by (elim exE conjE) (rule that)
  then have "receive_all as (fresh_endpoint (counter_ctor ptr on tot cnt)) = Inr b" "holds_stream ctrl frs b R"
    unfolding holds_stream_def by blast+
  then show ?thesis by blast
qed

text \<open>From the sender's payloads to the state in which the receiver has every segment.\<close>

lemma stream_transfer:
  assumes len: "\<forall>x\<in>set xs. length x < 2 ^ 32 - 512" and total_size: "stream_size 0 xs < 2 ^ 32 - 1"
  shows "\<exists>a frs. send_all xs ctrl now (fresh_endpoint c) = Inr a \<and> stream_at ctrl frs 0 0 xs
    \<and> mMainQueue (abs_queue (ep_sm a) (send_queue ctrl)) = frs
    \<and> (\<forall>m<length frs. seqn seq_no (frs ! m) = m)
    \<and> (\<forall>as. mset (map fst as) = mset frs \<longrightarrow>
        (\<exists>b R. receive_all as (fresh_endpoint (counter_ctor ptr on tot cnt)) = Inr b
          \<and> holds_stream ctrl frs b R))"
proof -
  have r: "send_ready ctrl (length []) [] (fresh_endpoint c)" using fresh_send_ready by simp
  have z: "sPacketId (fresh_endpoint c) = 0" by (simp add: fresh_endpoint_def)
  obtain a frs where a: "send_all xs ctrl now (fresh_endpoint c) = Inr a" "send_ready ctrl (length frs) frs a"
    "length frs = 0 + stream_size 0 xs" "stream_at ctrl frs 0 0 xs"
    using send_all_ok [OF r len, of now] unfolding z list.size(3) by blast
  have st: "stream_at ctrl frs 0 0 xs" and l: "length frs < 2 ^ 32 - 1"
    using a(3,4) total_size by simp_all
  have "mMainQueue (abs_queue (ep_sm a) (send_queue ctrl)) = frs"
    using a(2) unfolding send_ready_def by blast
  with a(1) st stream_numbers(1) [OF st l] stream_received [OF st l] show ?thesis by blast
qed

lemma stream_delivery:
  assumes "\<forall>x\<in>set xs. length x \<le> 66042" and "stream_size 0 xs < 2 ^ 32 - 1"
  shows "\<exists>a. send_all xs ctrl now (fresh_endpoint (counter_ctor p1 o1 t1 n1)) = Inr a
    \<and> (\<forall>as. mset (map fst as) = mset (mMainQueue (abs_queue (ep_sm a) (send_queue ctrl))) \<longrightarrow>
        (\<exists>b b'. receive_all as (fresh_endpoint (counter_ctor p2 o2 t2 n2)) = Inr b
          \<and> core_receive_n (length xs) ctrl b
            = Inr (map (\<lambda>x. (of_nat (length x), received x)) xs, b')))"
proof -
  let ?c2 = "counter_ctor p2 o2 t2 n2"
  have len: "\<forall>x\<in>set xs. length x < 2 ^ 32 - 512" using assms(1) by fastforce
  obtain a frs where a: "send_all xs ctrl now (fresh_endpoint (counter_ctor p1 o1 t1 n1)) = Inr a"
    "stream_at ctrl frs 0 0 xs" "mMainQueue (abs_queue (ep_sm a) (send_queue ctrl)) = frs"
    "\<forall>m<length frs. seqn seq_no (frs ! m) = m"
    "\<forall>as. mset (map fst as) = mset frs \<longrightarrow> (\<exists>b R. receive_all as (fresh_endpoint ?c2) = Inr b
      \<and> holds_stream ctrl frs b R)"
    using stream_transfer [OF len assms(2), where ctrl = ctrl and now = now and c = "counter_ctor p1 o1 t1 n1"
      and ptr = p2 and on = o2 and tot = t2 and cnt = n2] by (elim exE conjE) (rule that)
  have "\<exists>b b'. receive_all as (fresh_endpoint ?c2) = Inr b
      \<and> core_receive_n (length xs) ctrl b = Inr (map (\<lambda>x. (of_nat (length x), received x)) xs, b')"
    if as: "mset (map fst as) = mset frs" for as
  proof -
    obtain b R where br: "receive_all as (fresh_endpoint ?c2) = Inr b" "holds_stream ctrl frs b R"
      using a(5) as by blast
    then obtain held where b: "receive_all as (fresh_endpoint ?c2) = Inr b" "sm_wf held (ep_sm b)"
      "ep_state b = kCoreStateReady" "queue_repr seq_no 0 R (abs_queue (ep_sm b) (recv_queue ctrl))"
      "\<forall>r\<in>R. \<exists>s\<in>set frs. seq_no r = seq_no s \<and> carries ctrl s r" "\<forall>s\<in>set frs. \<exists>r\<in>R. seq_no r = seq_no s"
      unfolding holds_stream_def by blast
    from core_receive_stream [OF a(2) _ b(5,6,2,4,3) assms(1)] a(4) b(1) show ?thesis by blast
  qed
  with a(1) show ?thesis unfolding a(3) [symmetric] by blast
qed

section \<open>Properties\<close>





end
