(* ===== verification/AdapterThreads.thy ===== *)
theory AdapterThreads
  imports AdapterContract Delivery
begin

text \<open>
  The two threads of an adapter (linux/core/src/SenderThread.cpp, ReceiverThread.cpp) as step relations:
  a program counter, the adapter, the endpoint, and the segment the sender has in its hands. Each
  step is one visit of a lock or one call, so that the steps of other threads can come between
  any two. The reconnection under \<open>EXP_RECONNECT_ADAPTER_ENABLED\<close> is switched off in configs/ExpConfig.h.
\<close>

section \<open>The sender thread\<close>

datatype sender_pc =
    S_start | S_running_check | S_wait_enable | S_loop_head | S_pause_check | S_paused_wait
  | S_pick | S_got addr | S_send addr | S_loop_exit | S_finished

record 'cb config =
  pc :: sender_pc
  cAdapter :: "'cb adapter"
  cSender :: sender_thread
  cEp :: endpoint

text \<open>The adapter always points to the same sender thread object.\<close>

definition held_by :: "sender_pc \<Rightarrow> addr multiset" where
  "held_by p = (case p of S_got a \<Rightarrow> {#a#} | S_send a \<Rightarrow> {#a#} | _ \<Rightarrow> {#})"

text \<open>
  After the transmission: the segment is disposed of, the last sequence number is recorded on
  success, and the loop goes on or ends.
\<close>

definition finish_send ::
    "int \<Rightarrow> int \<Rightarrow> addr \<Rightarrow> u8 list \<Rightarrow> 'cb adapter \<Rightarrow> sender_thread \<Rightarrow> seg_mgr
     \<Rightarrow> sender_pc \<times> sender_thread \<times> seg_mgr" where
  "finish_send res errno p buf a s sm =
     (let sm0 = set_seg p ((mem sm p)\<lparr>data := buf\<rparr>) sm in
      case after_send res errno (mIsDisconnectingOnPurpose a) p sm0 of (ex, sm1) \<Rightarrow>
        (case ex of
           Loop_continue \<Rightarrow> (S_loop_head, s, sm1)
         | Loop_break \<Rightarrow> (S_loop_exit, s, sm1)
         | Loop_next \<Rightarrow>
             (S_loop_head,
              if is_control_segment (mem sm p) then s\<lparr>last_seq_no_control := seq_no (mem sm p)\<rparr>
              else s\<lparr>last_seq_no_data := seq_no (mem sm p)\<rparr>, sm1)))"

inductive sender_step :: "'cb config \<Rightarrow> 'cb config \<Rightarrow> bool" where
  thread_starts: "pc c = S_start \<Longrightarrow>
    sender_step c (c\<lparr>pc := S_running_check, cSender := (cSender c)
      \<lparr>is_thread_running := True, is_loop_enabled := False, is_loop_paused := False\<rparr>\<rparr>)"
| thread_runs: "pc c = S_running_check \<Longrightarrow> is_thread_running (cSender c) \<Longrightarrow>
    sender_step c (c\<lparr>pc := S_wait_enable\<rparr>)"
| thread_ends: "pc c = S_running_check \<Longrightarrow> \<not> is_thread_running (cSender c) \<Longrightarrow>
    sender_step c (c\<lparr>pc := S_finished, cSender := (cSender c)\<lparr>is_thread_running := False, launched := False\<rparr>\<rparr>)"
| enabled: "pc c = S_wait_enable \<Longrightarrow> is_loop_enabled (cSender c) \<Longrightarrow>
    sender_step c (c\<lparr>pc := S_loop_head, cSender := (cSender c)\<lparr>is_loop_ends := False\<rparr>\<rparr>)"
| loop_goes_on: "pc c = S_loop_head \<Longrightarrow> is_loop_enabled (cSender c) \<Longrightarrow>
    sender_step c (c\<lparr>pc := S_pause_check\<rparr>)"
| loop_disabled: "pc c = S_loop_head \<Longrightarrow> \<not> is_loop_enabled (cSender c) \<Longrightarrow>
    sender_step c (c\<lparr>pc := S_loop_exit\<rparr>)"
| falls_asleep: "pc c = S_pause_check \<Longrightarrow> is_loop_paused (cSender c) \<Longrightarrow>
    sender_step c (c\<lparr>pc := S_paused_wait, cAdapter := set_state kSleeping (cAdapter c)\<rparr>)"
| not_paused: "pc c = S_pause_check \<Longrightarrow> \<not> is_loop_paused (cSender c) \<Longrightarrow>
    sender_step c (c\<lparr>pc := S_pick\<rparr>)"
| resumed: "pc c = S_paused_wait \<Longrightarrow> \<not> is_loop_paused (cSender c) \<Longrightarrow>
    sender_step c (c\<lparr>pc := S_pause_check,
      cAdapter := (if mState (cAdapter c) \<noteq> kDisconnecting \<and> mState (cAdapter c) \<noteq> kDisconnected
                   then set_state kActive (cAdapter c) else cAdapter c)\<rparr>)"
| picked: "pc c = S_pick \<Longrightarrow> pick_segment (ep_sm (cEp c)) = Inr (Some p, sm) \<Longrightarrow>
    sender_step c (c\<lparr>pc := S_got p, cEp := (cEp c)\<lparr>ep_sm := sm\<rparr>\<rparr>)"
| suspended: "pc c = S_got p \<Longrightarrow> is_loop_paused (cSender c) \<Longrightarrow>
    sender_step c (c\<lparr>pc := S_loop_head, cEp := (cEp c)\<lparr>ep_sm := add_failed_segment_to_list p (ep_sm (cEp c))\<rparr>\<rparr>)"
| transmits: "pc c = S_got p \<Longrightarrow> \<not> is_loop_paused (cSender c) \<Longrightarrow>
    sender_step c (c\<lparr>pc := S_send p\<rparr>)"
| sent: "pc c = S_send p \<Longrightarrow>
    adapter_send (data (mem (ep_sm (cEp c)) p)) now res0 errno (cAdapter c) = Inr (res, buf, a) \<Longrightarrow>
    finish_send res errno p buf a (cSender c) (ep_sm (cEp c)) = (pc', s, sm) \<Longrightarrow>
    sender_step c (c\<lparr>pc := pc', cAdapter := a, cSender := s, cEp := (cEp c)\<lparr>ep_sm := sm\<rparr>\<rparr>)"
| loop_ends: "pc c = S_loop_exit \<Longrightarrow>
    sender_step c (c\<lparr>pc := S_running_check, cSender := (cSender c)
      \<lparr>is_loop_enabled := False, is_loop_paused := False, is_loop_ends := True\<rparr>\<rparr>)"

text \<open>
  A waiter in \<open>dequeue\<close> that is notified while there is still nothing to send returns to the head of the
  loop; the notification comes from outside.
\<close>

inductive sender_woken :: "'cb config \<Rightarrow> 'cb config \<Rightarrow> bool" where
  "pc c = S_pick \<Longrightarrow> pick_segment (ep_sm (cEp c)) = Inl Would_block \<Longrightarrow>
   dequeue_woken kDeqSendControlData (ep_sm (cEp c)) = Inr (None, sm) \<Longrightarrow>
   sender_woken c (c\<lparr>pc := S_loop_head\<rparr>)"

inductive_simps sender_step_simps: "sender_step c c'"
inductive_cases sender_stepE: "sender_step c c'"

section \<open>No segment is lost or duplicated\<close>

lemma stamp_segment_wf: "segment_wf s \<Longrightarrow> segment_wf (s\<lparr>data := stamp_media_ts a b (data s)\<rparr>)"
  by (simp add: segment_wf_def)

lemma adapter_send_buffer:
  assumes "adapter_send buf now res0 errno a = Inr (res, buf', a')"
  shows "buf' = buf \<or> (\<exists>x y. buf' = stamp_media_ts x y buf)"
  using assms by (auto simp: adapter_send_def Let_def split: if_splits option.splits prod.splits)

lemma after_send_wf:
  assumes wf: "sm_wf (add_mset p held) sm" and srt: "\<And>sn. sent_sorted sm sn"
    and r: "after_send res errno purpose p sm = (ex, sm')"
  shows "sm_wf held sm'" "sent_sorted sm' sn"
proof -
  have f: "sm_wf held (add_failed_segment_to_list p sm)" by (rule add_failed_wf [OF wf])
  have fs: "sent_sorted (add_failed_segment_to_list p sm) sn'" for sn'
    using srt by (simp add: sent_sorted_def add_failed_segment_to_list_def)
  have "sm' = add_failed_segment_to_list p sm \<or>
      (\<exists>sn. sm' = add_sent_segment_to_list sn p sm)"
    using r by (auto simp: after_send_def Let_def split: if_splits)
  then show "sm_wf held sm'" "sent_sorted sm' sn"
    using f fs add_sent_wf [OF wf srt] add_sent_sorted srt by auto
qed

lemma pick_segment_wf:
  assumes wf: "sm_wf held sm" and r: "pick_segment sm = Inr (Some p, sm')"
  shows "sm_wf (add_mset p held) sm' \<and> mem sm' = mem sm \<and> mSentSegmentLists sm' = mSentSegmentLists sm"
proof (cases "mFailedSegmentList sm")
  case Nil
  then have d: "dequeue kDeqSendControlData sm = Inr (Some p, sm')"
    using r by (simp add: pick_segment_def pop_failed_segment_def)
  from dequeue_wf [OF wf d] dequeue_sent [OF d] show ?thesis by simp
next
  case (Cons q qs)
  then have d: "pop_failed_segment sm = (Some p, sm')"
    using r by (simp add: pick_segment_def pop_failed_segment_def)
  from pop_failed_wf [OF wf d] d Cons show ?thesis by (auto simp: pop_failed_segment_def)
qed

definition sm_ok :: "addr multiset \<Rightarrow> 'cb config \<Rightarrow> bool" where
  "sm_ok others c \<longleftrightarrow> sm_wf (held_by (pc c) + others) (ep_sm (cEp c)) \<and> (\<forall>sn. sent_sorted (ep_sm (cEp c)) sn)"

lemma sent_sorted_set_seg:
  assumes "seq_no s = sqn sm p"
  shows "sent_sorted (set_seg p s sm) sn = sent_sorted sm sn"
  by (rule sent_sorted_cong) (simp_all add: assms)

lemma finish_send_effect:
  assumes "finish_send res errno p buf a s0 sm = (pc', s, sm')"
  shows "\<exists>ex. after_send res errno (mIsDisconnectingOnPurpose a) p (set_seg p ((mem sm p)\<lparr>data := buf\<rparr>) sm) = (ex, sm')
    \<and> held_by pc' = {#}"
proof -
  obtain ex sm1 where af: "after_send res errno (mIsDisconnectingOnPurpose a) p
      (set_seg p ((mem sm p)\<lparr>data := buf\<rparr>) sm) = (ex, sm1)" by fastforce
  with assms show ?thesis
    by (cases ex) (auto simp: finish_send_def Let_def held_by_def)
qed

lemma sent_step_ok:
  assumes ok: "sm_ok others c" and pc: "pc c = S_send p"
    and snd: "adapter_send (data (mem (ep_sm (cEp c)) p)) now res0 errno (cAdapter c) = Inr (res, buf, a)"
    and fin: "finish_send res errno p buf a s0 (ep_sm (cEp c)) = (pc', s, sm)"
  shows "sm_wf (held_by pc' + others) sm \<and> (\<forall>sn. sent_sorted sm sn)"
proof -
  define m where "m = ep_sm (cEp c)"
  have wf: "sm_wf (add_mset p others) m" and srt: "\<And>sn. sent_sorted m sn"
    using ok pc by (simp_all add: sm_ok_def held_by_def m_def)
  have "p \<in> live m" using heap_wfD(2) [OF sm_wfD(1) [OF wf], of p] by simp
  then have "segment_wf (mem m p)" by (rule heap_wfD(3) [OF sm_wfD(1) [OF wf]])
  then have sw: "segment_wf ((mem m p)\<lparr>data := buf\<rparr>)"
    using adapter_send_buffer [OF snd] stamp_segment_wf unfolding m_def by auto
  obtain ex where ex: "after_send res errno (mIsDisconnectingOnPurpose a) p
      (set_seg p ((mem m p)\<lparr>data := buf\<rparr>) m) = (ex, sm)" "held_by pc' = {#}"
    using finish_send_effect [OF fin] unfolding m_def by blast
  have wf0: "sm_wf (add_mset p others) (set_seg p ((mem m p)\<lparr>data := buf\<rparr>) m)"
    by (rule set_seg_wf [OF wf sw])
  have srt0: "\<And>sn. sent_sorted (set_seg p ((mem m p)\<lparr>data := buf\<rparr>) m) sn"
    using srt by (subst sent_sorted_set_seg) simp_all
  from after_send_wf [OF wf0 srt0 ex(1)] ex(2) show ?thesis by simp
qed

lemma sender_step_ok:
  assumes "sender_step c c'" "sm_ok others c"
  shows "sm_ok others c'"
  using assms
proof (cases rule: sender_step.cases)
  case (picked p sm)
  then show ?thesis using assms(2) pick_segment_wf [of others "ep_sm (cEp c)" p sm]
    by (simp add: sm_ok_def held_by_def sent_sorted_def)
next
  case (suspended p)
  then show ?thesis using assms(2) add_failed_wf [of p others "ep_sm (cEp c)"]
    by (simp add: sm_ok_def held_by_def sent_sorted_def add_failed_segment_to_list_def)
next
  case (sent p now res0 errno res buf a pc' s sm)
  from sent_step_ok [OF assms(2) sent(2-4)] show ?thesis by (simp add: sent(1) sm_ok_def)
qed (simp_all add: sm_ok_def held_by_def)

lemma sender_steps_ok:
  assumes "sender_step\<^sup>*\<^sup>* c c'" "sm_ok others c"
  shows "sm_ok others c'"
  using assms by (induction rule: rtranclp_induct) (auto intro: sender_step_ok)


definition example_config :: "nat config" where
  "example_config = \<lparr>pc = S_start, cAdapter = example_adapter, cSender = example_thread,
     cEp = fresh_endpoint (counter_ctor 0 True 0 0)\<rparr>"


section \<open>A disconnection that waits for traffic\<close>

text \<open>
  What \<open>__disconnect_internal\<close> has done to a sleeping sender before it waits for the end of its loop:
  the loop is disabled and no longer paused. Nothing is waiting to be sent.
\<close>

definition waits_for_sender :: "'cb config \<Rightarrow> bool" where
  "waits_for_sender c \<longleftrightarrow> \<not> is_loop_enabled (cSender c) \<and> \<not> is_loop_paused (cSender c)
     \<and> \<not> is_loop_ends (cSender c) \<and> mFailedSegmentList (ep_sm (cEp c)) = []
     \<and> get_queue_length (mSegmentQueues (ep_sm (cEp c)) kSQSendControl) = 0
     \<and> get_queue_length (mSegmentQueues (ep_sm (cEp c)) kSQSendData) = 0"

definition before_dequeue :: "sender_pc \<Rightarrow> bool" where
  "before_dequeue p \<longleftrightarrow> p = S_paused_wait \<or> p = S_pause_check \<or> p = S_pick"

lemma nothing_to_pick:
  assumes "waits_for_sender c"
  shows "pick_segment (ep_sm (cEp c)) = Inl Would_block"
  using assms by (simp add: waits_for_sender_def pick_segment_def pop_failed_segment_def dequeue_def
      wait_for_dequeue_required_def)

lemma waits_step:
  assumes "sender_step c c'" "waits_for_sender c" "before_dequeue (pc c)"
  shows "waits_for_sender c' \<and> before_dequeue (pc c')"
  using assms
proof (cases rule: sender_step.cases)
  case (picked p sm)
  then show ?thesis using nothing_to_pick [OF assms(2)] by simp
qed (auto simp: waits_for_sender_def before_dequeue_def)

lemma waits_steps:
  assumes "sender_step\<^sup>*\<^sup>* c c'" "waits_for_sender c" "before_dequeue (pc c)"
  shows "waits_for_sender c' \<and> before_dequeue (pc c')"
  using assms by (induction rule: rtranclp_induct) (auto dest: waits_step)

text \<open>
  C23: a disconnection of a sleeping adapter can wait for ever. The disconnecting thread disables and
  resumes the sender and then waits for its loop to end. The resumed sender does not look at the
  flag again before it takes the next segment: with nothing to send it blocks there, and however
  long it runs, its loop does not end. Notifying the queue would be enough: the sender would
  then leave its loop.
\<close>

theorem disconnect_waits_for_traffic:
  assumes "pc c = S_paused_wait" "waits_for_sender c"
  shows "(\<forall>c'. sender_step\<^sup>*\<^sup>* c c' \<longrightarrow> \<not> is_loop_ends (cSender c'))
    \<and> (\<exists>c1 c2 c3. sender_step\<^sup>*\<^sup>* c c1 \<and> pc c1 = S_pick \<and> (\<forall>c'. \<not> sender_step c1 c')
        \<and> sender_woken c1 c2 \<and> sender_step\<^sup>*\<^sup>* c2 c3 \<and> is_loop_ends (cSender c3))"
proof (intro conjI allI impI)
  fix c' assume "sender_step\<^sup>*\<^sup>* c c'"
  with waits_steps [OF this assms(2)] assms(1) show "\<not> is_loop_ends (cSender c')"
    by (simp add: before_dequeue_def waits_for_sender_def)
next
  have np: "\<not> is_loop_paused (cSender c)" and ne: "\<not> is_loop_enabled (cSender c)"
    using assms(2) by (simp_all add: waits_for_sender_def)
  define c0 where "c0 = c\<lparr>pc := S_pause_check,
      cAdapter := (if mState (cAdapter c) \<noteq> kDisconnecting \<and> mState (cAdapter c) \<noteq> kDisconnected
                   then set_state kActive (cAdapter c) else cAdapter c)\<rparr>"
  define c1 where "c1 = c0\<lparr>pc := S_pick\<rparr>"
  define c2 where "c2 = c1\<lparr>pc := S_loop_head\<rparr>"
  define c3 where "c3 = c2\<lparr>pc := S_loop_exit\<rparr>"
  define c4 where "c4 = c3\<lparr>pc := S_running_check, cSender := (cSender c3)
      \<lparr>is_loop_enabled := False, is_loop_paused := False, is_loop_ends := True\<rparr>\<rparr>"
  have "sender_step c c0" unfolding c0_def by (rule sender_step.resumed [OF assms(1) np])
  moreover have "sender_step c0 c1" unfolding c1_def
    by (rule sender_step.not_paused) (simp_all add: c0_def np)
  ultimately have s1: "sender_step\<^sup>*\<^sup>* c c1" by (meson r_into_rtranclp rtranclp.rtrancl_into_rtrancl)
  have w1: "waits_for_sender c1" using assms(2) by (simp add: c1_def c0_def waits_for_sender_def)
  have stuck: "\<not> sender_step c1 c'" for c'
  proof
    assume "sender_step c1 c'"
    then show False using nothing_to_pick [OF w1]
      by (cases rule: sender_step.cases) (simp_all add: c1_def)
  qed
  have "dequeue_woken kDeqSendControlData (ep_sm (cEp c1)) = Inr (None, ep_sm (cEp c1))"
    using w1 by (simp add: waits_for_sender_def dequeue_woken_def get_target_queue_type_def)
  then have s2: "sender_woken c1 c2"
    unfolding c2_def using nothing_to_pick [OF w1] by (intro sender_woken.intros) (simp_all add: c1_def)
  have "sender_step c2 c3" unfolding c3_def
    by (rule sender_step.loop_disabled) (simp_all add: c2_def c1_def c0_def ne)
  moreover have "sender_step c3 c4" unfolding c4_def by (rule sender_step.loop_ends) (simp add: c3_def)
  ultimately have s4: "sender_step\<^sup>*\<^sup>* c2 c4" by (meson r_into_rtranclp rtranclp.rtrancl_into_rtrancl)
  have "is_loop_ends (cSender c4)" "pc c1 = S_pick" by (simp_all add: c4_def c1_def)
  with s1 stuck s2 s4 show "\<exists>c1 c2 c3. sender_step\<^sup>*\<^sup>* c c1 \<and> pc c1 = S_pick \<and> (\<forall>c'. \<not> sender_step c1 c')
        \<and> sender_woken c1 c2 \<and> sender_step\<^sup>*\<^sup>* c2 c3 \<and> is_loop_ends (cSender c3)" by blast
qed

definition waiting_config :: "nat config" where
  "waiting_config = \<lparr>pc = S_paused_wait, cAdapter = sleeping_adapter\<lparr>mState := kDisconnecting\<rparr>,
     cSender = example_thread\<lparr>is_loop_enabled := False, is_loop_paused := False, is_loop_ends := False\<rparr>,
     cEp = fresh_endpoint (counter_ctor 0 True 0 0)\<rparr>"

theorem disconnect_waits_for_traffic_witness:
  "\<exists>c1 c2 c3. sender_step\<^sup>*\<^sup>* waiting_config c1 \<and> pc c1 = S_pick \<and> (\<forall>c'. \<not> sender_step c1 c')
     \<and> sender_woken c1 c2 \<and> sender_step\<^sup>*\<^sup>* c2 c3 \<and> is_loop_ends (cSender c3)"
proof -
  have "pc waiting_config = S_paused_wait" "waits_for_sender waiting_config"
    by (simp_all add: waiting_config_def waits_for_sender_def fresh_endpoint_def seg_mgr_ctor_def
        squeue_ctor_def get_queue_length_def counter_ctor_def)
  from disconnect_waits_for_traffic [OF this] show ?thesis by blast
qed

section \<open>The receiver thread\<close>

text \<open>
  One round with its call of the adapter: \<open>res\<close> and \<open>errno\<close> are those of the socket plugin, \<open>buf\<close> is what the
  buffer holds afterwards.
\<close>

definition receiver_pass ::
    "int \<Rightarrow> int \<Rightarrow> u8 list \<Rightarrow> int \<times> int \<Rightarrow> 'cb adapter \<Rightarrow> endpoint \<Rightarrow> fault + loop_exit \<times> 'cb adapter \<times> endpoint"
  where
  "receiver_pass res errno buf now a ep =
     and_then (adapter_receive SEGMENT_DATA_SIZE res errno a) (\<lambda>(ret, a1).
     and_then (receiver_round ret errno buf now ep) (\<lambda>(ex, ep1). Inr (ex, a1, ep1)))"

datatype receiver_pc =
  R_start | R_running_check | R_wait_enable | R_loop_head | R_round | R_loop_exit | R_finished

record 'cb rconfig =
  rpc :: receiver_pc
  rAdapter :: "'cb adapter"
  rThread :: loop_thread
  rEp :: endpoint

inductive receiver_step :: "'cb rconfig \<Rightarrow> 'cb rconfig \<Rightarrow> bool" where
  r_starts: "rpc c = R_start \<Longrightarrow>
    receiver_step c (c\<lparr>rpc := R_running_check, rThread := (rThread c)
      \<lparr>is_thread_running := True, is_loop_enabled := False\<rparr>\<rparr>)"
| r_runs: "rpc c = R_running_check \<Longrightarrow> is_thread_running (rThread c) \<Longrightarrow>
    receiver_step c (c\<lparr>rpc := R_wait_enable\<rparr>)"
| r_ends: "rpc c = R_running_check \<Longrightarrow> \<not> is_thread_running (rThread c) \<Longrightarrow>
    receiver_step c (c\<lparr>rpc := R_finished, rThread := (rThread c)\<lparr>is_thread_running := False, launched := False\<rparr>\<rparr>)"
| r_enabled: "rpc c = R_wait_enable \<Longrightarrow> is_loop_enabled (rThread c) \<Longrightarrow>
    receiver_step c (c\<lparr>rpc := R_loop_head, rThread := (rThread c)\<lparr>is_loop_ends := False\<rparr>\<rparr>)"
| r_goes_on: "rpc c = R_loop_head \<Longrightarrow> is_loop_enabled (rThread c) \<Longrightarrow>
    receiver_step c (c\<lparr>rpc := R_round\<rparr>)"
| r_disabled: "rpc c = R_loop_head \<Longrightarrow> \<not> is_loop_enabled (rThread c) \<Longrightarrow>
    receiver_step c (c\<lparr>rpc := R_loop_exit\<rparr>)"
| r_round: "rpc c = R_round \<Longrightarrow> length buf = SEGMENT_DATA_SIZE \<Longrightarrow>
    receiver_pass res errno buf now (rAdapter c) (rEp c) = Inr (ex, a, ep) \<Longrightarrow>
    receiver_step c (c\<lparr>rpc := (if ex = Loop_break then R_loop_exit else R_loop_head), rAdapter := a, rEp := ep\<rparr>)"
| r_loop_ends: "rpc c = R_loop_exit \<Longrightarrow>
    receiver_step c (c\<lparr>rpc := R_running_check, rThread := (rThread c)
      \<lparr>is_loop_enabled := False, is_loop_ends := True\<rparr>\<rparr>)"

inductive_cases receiver_stepE: "receiver_step c c'"

text \<open>
  C34: a segment that has been received completely is dropped if \<open>errno\<close> still holds an earlier EINTR, EAGAIN
  or EINPROGRESS, which a successful call does not reset: the round reports that the loop goes on, no
  queue has changed, and the segment that held the data is neither queued nor given back.
\<close>

theorem stale_errno_drops_segment:
  assumes "errno \<in> {EINTR, EAGAIN, EINPROGRESS}" and "mState a \<in> {kActive, kGoingSleeping, kSleeping, kWakingUp}"
    and "mServerSocket a = Some kOpened" and wf: "sm_wf held (ep_sm ep)"
  shows "\<exists>a' ep' leak. receiver_pass (int SEGMENT_DATA_SIZE) errno buf now a ep = Inr (Loop_continue, a', ep')
    \<and> (\<forall>qt. qt \<noteq> kSQUnknown \<longrightarrow> abs_queue (ep_sm ep') qt = abs_queue (ep_sm ep) qt)
    \<and> leak \<notin># held + owned (ep_sm ep') \<and> leak \<in> live (ep_sm ep')"
proof -
  obtain p s1 where s1: "pop_free_segment (ep_sm ep) = Inr (p, s1)" "sm_wf (add_mset p held) s1"
    "\<forall>qt. qt \<noteq> kSQUnknown \<longrightarrow> abs_queue s1 qt = abs_queue (ep_sm ep) qt"
    using pop_free_abs [OF wf] by blast
  let ?s2 = "set_seg p ((mem s1 p)\<lparr>data := buf\<rparr>) s1"
  have pos: "0 < int SEGMENT_DATA_SIZE" by (simp add: SEGMENT_DATA_SIZE_eq)
  obtain a' where a': "adapter_receive SEGMENT_DATA_SIZE (int SEGMENT_DATA_SIZE) errno a = Inr (int SEGMENT_DATA_SIZE, a')"
    using assms(2,3) pos by (auto simp: adapter_receive_def socket_receive_def Let_def)
  have "receive_buffer (int SEGMENT_DATA_SIZE) errno (int SEGMENT_DATA_SIZE) = RES_CONTINUE"
    using assms(1) by (auto simp: receive_buffer_def)
  then have r: "receiver_pass (int SEGMENT_DATA_SIZE) errno buf now a ep = Inr (Loop_continue, a', ep\<lparr>ep_sm := ?s2\<rparr>)"
    using a' s1(1) by (simp add: receiver_pass_def receiver_round_def Let_def)
  have q: "\<forall>qt. qt \<noteq> kSQUnknown \<longrightarrow> abs_queue ?s2 qt = abs_queue (ep_sm ep) qt"
    using s1(3) set_seg_abs [OF s1(2)] by simp
  have "p \<notin># held + owned s1"
    using heap_wfD(5) [OF sm_wfD(1) [OF s1(2)], of p] by (auto simp: not_in_iff)
  moreover have "p \<in> live s1" using heap_wfD(2) [OF sm_wfD(1) [OF s1(2)], of p] by simp
  ultimately show ?thesis using r q by auto
qed

theorem stale_errno_drops_segment_witness:
  "\<exists>a' ep'. receiver_pass (int SEGMENT_DATA_SIZE) EINTR (replicate 540 7) (0, 0) sleeping_adapter
     (fresh_endpoint (counter_ctor 0 True 0 0)) = Inr (Loop_continue, a', ep')"
proof -
  have "mState sleeping_adapter \<in> {kActive, kGoingSleeping, kSleeping, kWakingUp}"
    "mServerSocket sleeping_adapter = Some kOpened"
    by (simp_all add: sleeping_adapter_def)
  moreover have "sm_wf {#} (ep_sm (fresh_endpoint (counter_ctor 0 True 0 0)))"
    by (simp add: fresh_endpoint_def sm_wf_ctor)
  moreover have "EINTR \<in> {EINTR, EAGAIN, EINPROGRESS}" by simp
  ultimately show ?thesis using stale_errno_drops_segment by blast
qed

end
