(* ===== verification/TextNumbers.thy ===== *)
theory TextNumbers
  imports Prelude
begin

text \<open>
  Numbers as text, as the C++ library writes and reads them: \<open>std::to_string\<close>, \<open>std::stoi\<close> and
  \<open>std::stoul\<close>, and that reading inverts writing.
\<close>

abbreviation nl :: char where "nl \<equiv> CHR 0x0A"

section \<open>Numbers as text\<close>

definition digit_char :: "nat \<Rightarrow> char" where
  "digit_char d = char_of (48 + d)"

fun digits :: "nat \<Rightarrow> string" where
  "digits n = (if n < 10 then [digit_char n] else digits (n div 10) @ [digit_char (n mod 10)])"

declare digits.simps [simp del]

definition int_to_string :: "i32 \<Rightarrow> string" where
  "int_to_string w = (if sint w < 0 then CHR ''-'' # digits (nat (- sint w)) else digits (nat (sint w)))"

definition uint_to_string :: "u32 \<Rightarrow> string" where
  "uint_to_string w = digits (unat w)"

definition is_digit :: "char \<Rightarrow> bool" where
  "is_digit c \<longleftrightarrow> 48 \<le> (of_char c :: nat) \<and> (of_char c :: nat) \<le> 57"

definition is_space :: "char \<Rightarrow> bool" where
  "is_space c \<longleftrightarrow> (of_char c :: nat) = 32 \<or> (9 \<le> (of_char c :: nat) \<and> (of_char c :: nat) \<le> 13)"

definition digits_value :: "string \<Rightarrow> nat" where
  "digits_value ds = foldl (\<lambda>n c. 10 * n + (of_char c - 48)) 0 ds"

text \<open>
  \<open>strtol\<close> and \<open>strtoul\<close> in base 10: white space, an optional sign, as many digits as there are. No digit
  at all is an error. The sign and the magnitude are returned.
\<close>

definition parse_number :: "string \<Rightarrow> (bool \<times> nat) option" where
  "parse_number s =
     (let s1 = dropWhile is_space s;
          neg = (s1 \<noteq> [] \<and> hd s1 = CHR ''-'');
          s2 = (if s1 \<noteq> [] \<and> (hd s1 = CHR ''-'' \<or> hd s1 = CHR ''+'') then tl s1 else s1);
          ds = takeWhile is_digit s2
      in if ds = [] then None else Some (neg, digits_value ds))"

definition stoi :: "string \<Rightarrow> fault + i32" where
  "stoi s = (case parse_number s of None \<Rightarrow> Inl Uncaught_exception
     | Some (neg, n) \<Rightarrow>
        (let v = (if neg then - int n else int n)
         in if - (2 ^ 31) \<le> v \<and> v < 2 ^ 31 then Inr (word_of_int v) else Inl Uncaught_exception))"

text \<open>A 64-bit \<open>unsigned long\<close>, cut to the \<open>uint32_t\<close> it is stored in.\<close>

definition stoul :: "string \<Rightarrow> fault + u32" where
  "stoul s = (case parse_number s of None \<Rightarrow> Inl Uncaught_exception
     | Some (neg, n) \<Rightarrow>
        if n < 2 ^ 64 then Inr (word_of_int (if neg then - int n else int n)) else Inl Uncaught_exception)"

section \<open>Reading inverts writing\<close>

lemma of_char_digit: "d < 10 \<Longrightarrow> (of_char (digit_char d) :: nat) = 48 + d"
  by (simp add: digit_char_def of_char_of)

lemma is_digit_digit_char [simp]: "d < 10 \<Longrightarrow> is_digit (digit_char d)"
  by (simp add: is_digit_def of_char_digit)

lemma digits_are_digits: "c \<in> set (digits n) \<Longrightarrow> is_digit c"
  by (induction n rule: digits.induct) (subst (asm) digits.simps, auto split: if_splits)

lemma digits_not_empty: "digits n \<noteq> []"
  by (subst digits.simps) simp

lemma digits_value_append: "digits_value (xs @ [c]) = 10 * digits_value xs + (of_char c - 48)"
  by (simp add: digits_value_def)

lemma digits_value_digits [simp]: "digits_value (digits n) = n"
proof (induction n rule: digits.induct)
  case (1 n)
  show ?case
  proof (cases "n < 10")
    case True
    then show ?thesis by (subst digits.simps) (simp add: digits_value_def of_char_digit)
  next
    case False
    have "digits n = digits (n div 10) @ [digit_char (n mod 10)]" using False by (subst digits.simps) simp
    then have "digits_value (digits n) = 10 * (n div 10) + n mod 10"
      using "1.IH" [OF False] by (simp add: digits_value_append of_char_digit)
    also have "\<dots> = n" by simp
    finally show ?thesis .
  qed
qed

lemma is_digit_not:
  assumes "is_digit c"
  shows "\<not> is_space c" "c \<noteq> CHR ''-''" "c \<noteq> CHR ''+''" "c \<noteq> nl" "c \<noteq> CHR 0x00"
  using assms by (auto simp: is_digit_def is_space_def)

lemma parse_digits:
  assumes "rest = [] \<or> \<not> is_digit (hd rest)"
  shows "parse_number (digits n @ rest) = Some (False, n)"
    "parse_number (CHR ''-'' # digits n @ rest) = Some (True, n)"
proof -
  obtain c cs where d: "digits n = c # cs" using digits_not_empty by (cases "digits n") auto
  then have c: "is_digit c" using digits_are_digits [of c n] by simp
  have tw: "takeWhile is_digit (digits n @ rest) = digits n"
    using assms digits_are_digits by (subst takeWhile_append2) (auto simp: takeWhile_eq_Nil_iff)
  have dw: "dropWhile is_space (digits n @ rest) = digits n @ rest"
    using d is_digit_not(1) [OF c] by simp
  have hd: "hd (digits n @ rest) = c" using d by simp
  show "parse_number (digits n @ rest) = Some (False, n)"
    unfolding parse_number_def Let_def dw hd using is_digit_not(2,3) [OF c] tw digits_not_empty by simp
  have "\<not> is_space CHR ''-''" by (simp add: is_space_def)
  then show "parse_number (CHR ''-'' # digits n @ rest) = Some (True, n)"
    unfolding parse_number_def Let_def using tw digits_not_empty by simp
qed

lemma stoi_int_to_string:
  assumes "rest = [] \<or> \<not> is_digit (hd rest)"
  shows "stoi (int_to_string w @ rest) = Inr w"
proof -
  have r: "- (2 ^ 31) \<le> sint w" "sint w < 2 ^ 31"
    using sint_greater_eq [of w] sint_less [of w] by simp_all
  show ?thesis
  proof (cases "sint w < 0")
    case True
    have "int (nat (- sint w)) = - sint w" using True by simp
    with True r parse_digits(2) [OF assms, of "nat (- sint w)"] show ?thesis
      by (simp add: stoi_def int_to_string_def Let_def del: int_nat_eq nat_le_iff)
  next
    case False
    have "int (nat (sint w)) = sint w" using False by simp
    with False r parse_digits(1) [OF assms, of "nat (sint w)"] show ?thesis
      by (simp add: stoi_def int_to_string_def Let_def del: int_nat_eq nat_less_iff)
  qed
qed

lemma stoul_uint_to_string:
  assumes "rest = [] \<or> \<not> is_digit (hd rest)"
  shows "stoul (uint_to_string w @ rest) = Inr w"
proof -
  have "unat w < 2 ^ LENGTH(32)" by (rule unsigned_less)
  then have "unat w < 2 ^ 64" by simp
  then show ?thesis using parse_digits(1) [OF assms, of "unat w"] by (simp add: stoul_def uint_to_string_def)
qed

lemmas read_back = stoi_int_to_string [of "[]", simplified] stoul_uint_to_string [of "[]", simplified]

definition plain :: "string \<Rightarrow> bool" where
  "plain s \<longleftrightarrow> nl \<notin> set s \<and> CHR 0x00 \<notin> set s"

lemma plain_numbers [simp]: "plain (int_to_string w)" "plain (uint_to_string v)"
  using is_digit_not(4,5) digits_are_digits by (fastforce simp: plain_def int_to_string_def uint_to_string_def)+

section \<open>Pieces of a text\<close>

text \<open>The pieces that a loop of \<open>std::getline\<close> with the delimiter \<open>d\<close> yields. An empty last piece is none.\<close>

function tokens :: "char \<Rightarrow> string \<Rightarrow> string list" where
  "tokens d s = (if s = [] then [] else takeWhile (\<lambda>c. c \<noteq> d) s # tokens d (tl (dropWhile (\<lambda>c. c \<noteq> d) s)))"
  by pat_completeness auto
termination
proof (relation "measure (\<lambda>(d, s). length s)", simp)
  fix d :: char and s :: string assume "s \<noteq> []"
  then have "0 < length s" by simp
  then have "length (tl (dropWhile (\<lambda>c. c \<noteq> d) s)) < length s"
    using length_dropWhile_le [of "\<lambda>c. c \<noteq> d" s] unfolding length_tl by linarith
  then show "((d, tl (dropWhile (\<lambda>c. c \<noteq> d) s)), d, s) \<in> measure (\<lambda>(d, s). length s)" by simp
qed

declare tokens.simps [simp del]

lemma tokens_simps [simp]:
  "tokens d [] = []"
  "d \<notin> set l \<Longrightarrow> tokens d (l @ d # s) = l # tokens d s"
  "s \<noteq> [] \<Longrightarrow> d \<notin> set s \<Longrightarrow> tokens d s = [s]"
proof -
  show "tokens d [] = []" by (subst tokens.simps) simp
  show "tokens d (l @ d # s) = l # tokens d s" if "d \<notin> set l"
  proof -
    have "\<forall>c\<in>set l. c \<noteq> d" using that by auto
    then show ?thesis by (subst tokens.simps) (simp add: takeWhile_append2 dropWhile_append2)
  qed
  show "tokens d s = [s]" if "s \<noteq> []" "d \<notin> set s"
  proof -
    have t: "takeWhile (\<lambda>c. c \<noteq> d) s = s" and d: "dropWhile (\<lambda>c. c \<noteq> d) s = []"
      using that unfolding takeWhile_eq_all_conv dropWhile_eq_Nil_conv by blast+
    show ?thesis using that(1) tokens.simps [of d s] unfolding t d by (simp add: tokens.simps [of d "[]"])
  qed
qed

lemma first_token:
  assumes "s \<noteq> []"
  shows "tokens d s = takeWhile (\<lambda>c. c \<noteq> d) s # tokens d (tl (dropWhile (\<lambda>c. c \<noteq> d) s))"
  using assms by (subst tokens.simps) simp

end
