(* ===== verification/LineReader.thy ===== *)
theory LineReader
  imports TextNumbers
begin

text \<open>
  \<open>io::LineReader\<close> (linux/common/inc/csv.h): lines out of a file through a buffer of three blocks, of which
  the first two hold data and the third is read ahead. The block length is an argument (the code's is
  \<open>2 ^ 24\<close>), and so is what the new buffer holds before anything is read into it. The reader of the third
  block is the one without a thread; theory \<open>AsyncReader\<close> shows that the threaded one makes no difference. The
  refinement: the buffer is a window on the file, and \<open>next_line\<close> cuts the first line off.
\<close>

section \<open>The reader\<close>

text \<open>\<open>lr_source\<close> is what the byte source has not delivered yet, \<open>None\<close> when the reader got no source.\<close>

record line_reader =
  lr_buffer :: string
  data_begin :: nat
  data_end :: nat
  lr_source :: "string option"
  file_line :: u32

text \<open>\<open>fread\<close> of \<open>n\<close> bytes: what it delivers and what is left.\<close>

definition read_source :: "nat \<Rightarrow> string \<Rightarrow> string \<times> string" where
  "read_source n src = (take n src, drop n src)"

definition utf8_bom :: string where
  "utf8_bom = [CHR 0xEF, CHR 0xBB, CHR 0xBF]"

definition line_reader_init :: "nat \<Rightarrow> string \<Rightarrow> string \<Rightarrow> line_reader" where
  "line_reader_init block_len fresh contents =
     (case read_source (2 * block_len) contents of (got, left) \<Rightarrow>
      let buffer = put_bytes 0 got fresh in
      \<lparr>lr_buffer = buffer,
       data_begin = (if 3 \<le> length got \<and> take 3 buffer = utf8_bom then 3 else 0),
       data_end = length got,
       lr_source = (if length got = 2 * block_len then Some left else None),
       file_line = 0\<rparr>)"

definition shift_blocks :: "nat \<Rightarrow> line_reader \<Rightarrow> line_reader" where
  "shift_blocks block_len r =
     (if block_len \<le> data_begin r then
        let r1 = r\<lparr>lr_buffer := put_bytes 0 (bytes_at block_len block_len (lr_buffer r)) (lr_buffer r),
                   data_begin := data_begin r - block_len, data_end := data_end r - block_len\<rparr>
        in (case lr_source r1 of None \<Rightarrow> r1
            | Some src \<Rightarrow>
               (case read_source block_len src of (got, left) \<Rightarrow>
                let b2 = put_bytes (2 * block_len) got (lr_buffer r1)
                in r1\<lparr>lr_buffer := put_bytes block_len (bytes_at (2 * block_len) block_len b2) b2,
                      data_end := data_end r1 + length got, lr_source := Some left\<rparr>))
      else r)"

text \<open>The first newline at or behind \<open>i\<close>, or the end of the data. The byte is looked at before the end is tested.\<close>

function find_line_end :: "string \<Rightarrow> nat \<Rightarrow> nat \<Rightarrow> fault + nat" where
  "find_line_end buffer last_pos i =
     (if i < length buffer
      then if buffer ! i \<noteq> nl \<and> i \<noteq> last_pos then find_line_end buffer last_pos (Suc i) else Inr i
      else Inl Out_of_bounds)"
  by pat_completeness auto
termination by (relation "measure (\<lambda>(buffer, last_pos, i). length buffer - i)") auto

declare find_line_end.simps [simp del]

definition c_string_at :: "string \<Rightarrow> nat \<Rightarrow> string" where
  "c_string_at buffer i = takeWhile (\<lambda>c. c \<noteq> CHR 0x00) (drop i buffer)"

text \<open>The line at the start of the data, terminated in place by a null byte.\<close>

definition cut_line :: "nat \<Rightarrow> line_reader \<Rightarrow> fault + string option \<times> line_reader" where
  "cut_line block_len r =
     and_then (find_line_end (lr_buffer r) (data_end r) (data_begin r)) (\<lambda>line_end.
     and_then (require (line_end - data_begin r + 1 \<le> block_len) Uncaught_exception) (\<lambda>_.
     let r1 = (if lr_buffer r ! line_end = nl then r else r\<lparr>data_end := data_end r + 1\<rparr>);
         b1 = (lr_buffer r1)[line_end := CHR 0x00];
         b2 = (if line_end \<noteq> data_begin r1 \<and> b1 ! (line_end - 1) = CHR 0x0D then b1[line_end - 1 := CHR 0x00] else b1)
     in Inr (Some (c_string_at b2 (data_begin r1)), r1\<lparr>lr_buffer := b2, data_begin := line_end + 1\<rparr>)))"

definition next_line :: "nat \<Rightarrow> line_reader \<Rightarrow> fault + string option \<times> line_reader" where
  "next_line block_len r =
     (if data_begin r = data_end r then Inr (None, r)
      else
       (let r1 = r\<lparr>file_line := file_line r + 1\<rparr> in
        and_then (require (data_begin r1 < data_end r1) Assertion_failure) (\<lambda>_.
        and_then (require (data_end r1 \<le> block_len * 2) Assertion_failure) (\<lambda>_.
        cut_line block_len (shift_blocks block_len r1)))))"

section \<open>The buffer is a window on the file\<close>

definition left :: "line_reader \<Rightarrow> string" where
  "left r = (case lr_source r of None \<Rightarrow> [] | Some src \<Rightarrow> src)"

definition window :: "line_reader \<Rightarrow> string" where
  "window r = bytes_at (data_begin r) (data_end r - data_begin r) (lr_buffer r)"

definition unread :: "line_reader \<Rightarrow> string" where
  "unread r = window r @ left r"

definition reader_ok :: "nat \<Rightarrow> line_reader \<Rightarrow> bool" where
  "reader_ok bl r \<longleftrightarrow> 0 < bl \<and> length (lr_buffer r) = 3 * bl \<and> data_begin r \<le> data_end r \<and> data_end r \<le> 2 * bl
     \<and> (left r \<noteq> [] \<longrightarrow> data_end r = 2 * bl \<and> data_begin r < 2 * bl)"

definition strip_bom :: "string \<Rightarrow> string" where
  "strip_bom s = (if take 3 s = utf8_bom then drop 3 s else s)"

lemma length_window: "reader_ok bl r \<Longrightarrow> length (window r) = data_end r - data_begin r"
  by (simp add: window_def reader_ok_def)

lemma drop_take_append: "n \<le> m \<Longrightarrow> drop n (take m xs) @ drop m xs = drop n xs"
  using drop_append [of n "take m xs" "drop m xs"] by (cases "m \<le> length xs") auto

lemma init_ok:
  assumes "length fresh = 3 * bl" "2 \<le> bl"
  shows "reader_ok bl (line_reader_init bl fresh contents)"
    "unread (line_reader_init bl fresh contents) = strip_bom contents"
proof -
  have len: "length (take 3 contents) = 3" if "take 3 contents = utf8_bom"
    using that by (simp add: utf8_bom_def)
  have pre: "take 3 (put_bytes 0 (take (2 * bl) contents) fresh) = take 3 contents" if "3 \<le> length contents"
    using that assms by (simp add: put_bytes_def)
  have bom: "3 \<le> length contents" if "take 3 contents = utf8_bom" using len [OF that] by simp
  show "reader_ok bl (line_reader_init bl fresh contents)"
    using assms by (auto simp: reader_ok_def line_reader_init_def read_source_def Let_def left_def)
  have "window (line_reader_init bl fresh contents)
      = (if take 3 contents = utf8_bom then drop 3 (take (2 * bl) contents) else take (2 * bl) contents)"
    using assms bom pre
    by (auto simp: window_def line_reader_init_def read_source_def Let_def bytes_at_def put_bytes_def)
  moreover have "left (line_reader_init bl fresh contents) = drop (2 * bl) contents"
    by (auto simp: left_def line_reader_init_def read_source_def Let_def)
  moreover have "drop 3 (take (2 * bl) contents) @ drop (2 * bl) contents = drop 3 contents"
    using assms(2) by (intro drop_take_append) simp
  ultimately show "unread (line_reader_init bl fresh contents) = strip_bom contents"
    by (simp add: unread_def strip_bom_def)
qed

lemma shift_ok:
  assumes ok: "reader_ok bl r" and data: "data_begin r < data_end r"
  shows "reader_ok bl (shift_blocks bl r) \<and> unread (shift_blocks bl r) = unread r
    \<and> data_begin (shift_blocks bl r) < bl \<and> data_begin (shift_blocks bl r) < data_end (shift_blocks bl r)"
proof (cases "bl \<le> data_begin r")
  case False
  with ok data show ?thesis by (simp add: shift_blocks_def)
next
  case True
  define b1 where "b1 = put_bytes 0 (bytes_at bl bl (lr_buffer r)) (lr_buffer r)"
  have o: "0 < bl" "length (lr_buffer r) = 3 * bl" "data_end r \<le> 2 * bl" "left r \<noteq> [] \<Longrightarrow> data_end r = 2 * bl"
    using ok by (auto simp: reader_ok_def)
  have l1: "length b1 = 3 * bl" using o by (simp add: b1_def)
  have b1: "b1 ! i = lr_buffer r ! (bl + i)" if "i < bl" for i
    using that o by (simp add: b1_def nth_put_bytes nth_bytes_at)
  show ?thesis
  proof (cases "lr_source r")
    case None
    have "bytes_at (data_begin r - bl) (data_end r - data_begin r) b1 = window r"
      using o l1 True data by (intro nth_equalityI) (auto simp: window_def nth_bytes_at b1)
    with True None o l1 data show ?thesis
      by (auto simp: shift_blocks_def b1_def [symmetric] reader_ok_def unread_def left_def window_def)
  next
    case (Some src)
    define got where "got = take bl src"
    define b2 where "b2 = put_bytes (2 * bl) got b1"
    define b3 where "b3 = put_bytes bl (bytes_at (2 * bl) bl b2) b2"
    have g: "length got \<le> bl" "got \<noteq> [] \<Longrightarrow> data_end r = 2 * bl" using Some o by (auto simp: got_def left_def)
    have l: "length b2 = 3 * bl" "length b3 = 3 * bl" using l1 g by (simp_all add: b2_def b3_def)
    have b3: "b3 ! i = (if i < bl then lr_buffer r ! (bl + i) else got ! (i - bl))" if "i < bl + length got" for i
      using that l l1 g by (auto simp: b3_def b2_def nth_put_bytes nth_bytes_at b1)
    have "bytes_at (data_begin r - bl) (data_end r - data_begin r + length got) b3 = window r @ got"
    proof (rule nth_equalityI)
      show "length (bytes_at (data_begin r - bl) (data_end r - data_begin r + length got) b3) = length (window r @ got)"
        using o g l True data by (simp add: length_window [OF ok])
      fix i assume "i < length (bytes_at (data_begin r - bl) (data_end r - data_begin r + length got) b3)"
      then have i: "i < data_end r - data_begin r + length got" using o g l True data by simp
      show "bytes_at (data_begin r - bl) (data_end r - data_begin r + length got) b3 ! i = (window r @ got) ! i"
      proof (cases "i < data_end r - data_begin r")
        case True
        then have "data_begin r - bl + i < bl" using o(3) \<open>bl \<le> data_begin r\<close> by linarith
        with True \<open>bl \<le> data_begin r\<close> i o g l data show ?thesis
          by (simp add: nth_append length_window [OF ok] nth_bytes_at b3 window_def)
      next
        case False
        with i have "got \<noteq> []" by auto
        have e: "data_end r = 2 * bl" by (rule g(2)) fact
        then have ix: "\<not> data_begin r - bl + i < bl" "data_begin r - bl + i - bl = i - (data_end r - data_begin r)"
          "data_begin r - bl + i < bl + length got"
          using False \<open>bl \<le> data_begin r\<close> i data by linarith+
        have "(window r @ got) ! i = got ! (i - (data_end r - data_begin r))"
          using False by (simp add: nth_append length_window [OF ok])
        moreover have "bytes_at (data_begin r - bl) (data_end r - data_begin r + length got) b3 ! i
            = b3 ! (data_begin r - bl + i)"
          using i ix(3) l(2) g(1) True o by (intro nth_bytes_at) auto
        ultimately show ?thesis using ix b3 by simp
      qed
    qed
    moreover have s: "shift_blocks bl r = r\<lparr>lr_buffer := b3, data_begin := data_begin r - bl,
        data_end := data_end r - bl + length got, lr_source := Some (drop bl src)\<rparr>"
      using True Some by (simp add: shift_blocks_def Let_def read_source_def b1_def b2_def b3_def got_def)
    moreover have "drop bl src \<noteq> [] \<Longrightarrow> length got = bl \<and> data_end r = 2 * bl"
      using Some o by (cases "src = []") (auto simp: got_def left_def)
    moreover have "got @ drop bl src = src" by (simp add: got_def)
    ultimately show ?thesis
      using True o g l data Some by (auto simp: reader_ok_def unread_def left_def window_def)
  qed
qed


lemma find_line_end_spec:
  assumes "i \<le> e" "e < length buffer"
  shows "find_line_end buffer e i = Inr (i + length (takeWhile (\<lambda>c. c \<noteq> nl) (bytes_at i (e - i) buffer)))"
  using assms
proof (induction "e - i" arbitrary: i)
  case 0
  then show ?case by (subst find_line_end.simps) (simp add: bytes_at_def)
next
  case (Suc n)
  then have i: "i < e" "i < length buffer" by simp_all
  have "bytes_at i (e - i) buffer = buffer ! i # bytes_at (Suc i) (e - Suc i) buffer"
    using i by (simp add: bytes_at_def Cons_nth_drop_Suc [symmetric] Suc_diff_Suc [symmetric] del: Suc_diff_Suc)
  moreover have "find_line_end buffer e (Suc i)
      = Inr (Suc i + length (takeWhile (\<lambda>c. c \<noteq> nl) (bytes_at (Suc i) (e - Suc i) buffer)))"
    using Suc i by (intro Suc.hyps(1)) auto
  ultimately show ?case using i by (subst find_line_end.simps) simp
qed


section \<open>The next line\<close>

text \<open>What a line is to the caller: without a carriage return at its end, and cut at a null byte.\<close>

definition clean_line :: "string \<Rightarrow> string" where
  "clean_line s = takeWhile (\<lambda>c. c \<noteq> CHR 0x00) (if s \<noteq> [] \<and> last s = CHR 0x0D then butlast s else s)"

lemma terminated_line:
  assumes "drop d buf = s @ c # rest" "e = d + length s" "d \<le> length buf"
  shows "c_string_at (let b1 = buf[e := CHR 0x00]
      in if e \<noteq> d \<and> b1 ! (e - 1) = CHR 0x0D then b1[e - 1 := CHR 0x00] else b1) d = clean_line s"
proof -
  have l: "length (take d buf) = d" using assms(3) by simp
  have b: "buf = take d buf @ s @ c # rest" using assms(1) by (metis append_take_drop_id)
  have b1: "buf[e := CHR 0x00] = take d buf @ s @ CHR 0x00 # rest"
    using l assms(2) by (subst b) (simp add: list_update_append)
  show ?thesis
  proof (cases s rule: rev_cases)
    case Nil
    then show ?thesis using l assms(2) unfolding b1 by (simp add: c_string_at_def clean_line_def)
  next
    case (snoc s1 x)
    have n: "(take d buf @ s @ CHR 0x00 # rest) ! (e - 1) = x"
      using l assms(2) snoc by (simp add: nth_append)
    have u: "(take d buf @ s @ CHR 0x00 # rest)[e - 1 := CHR 0x00] = take d buf @ s1 @ CHR 0x00 # CHR 0x00 # rest"
      using l assms(2) snoc by (simp add: list_update_append)
    have e: "e \<noteq> d" using assms(2) snoc by simp
    have cut: "takeWhile (\<lambda>c. c \<noteq> CHR 0x00) (ys @ CHR 0x00 # zs) = takeWhile (\<lambda>c. c \<noteq> CHR 0x00) ys" for ys zs :: string
      by (induction ys) auto
    have d: "drop d (take d buf @ ys) = ys" for ys using l by simp
    show ?thesis
    proof (cases "x = CHR 0x0D")
      case True
      then show ?thesis using e snoc unfolding b1 Let_def n u c_string_at_def clean_line_def
        by (simp only: d cut simp_thms if_True last_snoc butlast_snoc snoc_eq_iff_butlast append_is_Nil_conv list.distinct)
    next
      case False
      then show ?thesis using e snoc unfolding b1 Let_def n c_string_at_def clean_line_def
        by (simp only: d cut simp_thms if_False last_snoc)
    qed
  qed
qed

lemma untouched_behind:
  assumes "e < j"
  shows "(let b1 = buf[e := x] in if P b1 then b1[e - 1 := y] else b1) ! j = buf ! j"
    "drop j (let b1 = buf[e := x] in if P b1 then b1[e - 1 := y] else b1) = drop j buf"
    "length (let b1 = buf[e := x] in if P b1 then b1[e - 1 := y] else b1) = length buf"
  using assms by (simp_all add: Let_def)


lemma cut_line_newline:
  assumes ok: "reader_ok bl r" and db: "data_begin r < bl" and n: "nl \<in> set (window r)"
    and short: "length (takeWhile (\<lambda>c. c \<noteq> nl) (window r)) < bl"
  shows "\<exists>r'. cut_line bl r = Inr (Some (clean_line (takeWhile (\<lambda>c. c \<noteq> nl) (window r))), r') \<and> reader_ok bl r'
    \<and> window r' = tl (dropWhile (\<lambda>c. c \<noteq> nl) (window r)) \<and> lr_source r' = lr_source r
    \<and> data_end r' = data_end r \<and> lr_buffer r' ! data_end r = lr_buffer r ! data_end r"
proof -
  define s where "s = takeWhile (\<lambda>c. c \<noteq> nl) (window r)"
  define more where "more = tl (dropWhile (\<lambda>c. c \<noteq> nl) (window r))"
  define e where "e = data_begin r + length s"
  define b2 where "b2 = (let b1 = (lr_buffer r)[e := CHR 0x00]
      in if e \<noteq> data_begin r \<and> b1 ! (e - 1) = CHR 0x0D then b1[e - 1 := CHR 0x00] else b1)"
  have "dropWhile (\<lambda>c. c \<noteq> nl) (window r) \<noteq> []" using n by (auto simp: dropWhile_eq_Nil_conv)
  then obtain c cs where c: "dropWhile (\<lambda>c. c \<noteq> nl) (window r) = c # cs" by (cases "dropWhile (\<lambda>c. c \<noteq> nl) (window r)") auto
  then have "c = nl" using hd_dropWhile [of "\<lambda>c. c \<noteq> nl" "window r"] by simp
  then have w: "window r = s @ nl # more"
    using takeWhile_dropWhile_id [of "\<lambda>c. c \<noteq> nl" "window r"] c by (simp add: s_def more_def)
  have o: "0 < bl" "length (lr_buffer r) = 3 * bl" "data_begin r \<le> data_end r" "data_end r \<le> 2 * bl"
    using ok by (auto simp: reader_ok_def)
  have len: "length s + Suc (length more) = data_end r - data_begin r"
    using length_window [OF ok] w by simp
  then have e: "e < data_end r" by (simp add: e_def)
  define post where "post = drop (data_end r) (lr_buffer r)"
  have buf: "drop (data_begin r) (lr_buffer r) = s @ nl # more @ post"
  proof -
    have "drop (data_end r - data_begin r) (drop (data_begin r) (lr_buffer r)) = post" using o by (simp add: post_def)
    then have "drop (data_begin r) (lr_buffer r) = window r @ post"
      using append_take_drop_id [of "data_end r - data_begin r" "drop (data_begin r) (lr_buffer r)"]
      by (simp only: window_def bytes_at_def)
    then show ?thesis using w by simp
  qed
  have f: "find_line_end (lr_buffer r) (data_end r) (data_begin r) = Inr e"
    using find_line_end_spec [of "data_begin r" "data_end r" "lr_buffer r"] o by (simp add: e_def s_def window_def)
  have at: "lr_buffer r ! e = nl"
    using nth_drop [of "data_begin r" "lr_buffer r" "length s"] buf o e by (simp add: e_def)
  have le: "e - data_begin r + 1 \<le> bl" using short by (simp add: e_def s_def)
  have "cut_line bl r = Inr (Some (c_string_at b2 (data_begin r)), r\<lparr>lr_buffer := b2, data_begin := e + 1\<rparr>)"
    using le unfolding cut_line_def f and_then_simps by (simp add: at b2_def Let_def)
  moreover have "c_string_at b2 (data_begin r) = clean_line s"
    unfolding b2_def by (rule terminated_line [OF buf]) (use o e_def in auto)
  moreover have u: "b2 ! data_end r = lr_buffer r ! data_end r" "drop (e + 1) b2 = drop (e + 1) (lr_buffer r)"
    "length b2 = length (lr_buffer r)"
    unfolding b2_def using e by (simp_all add: untouched_behind)
  moreover have "bytes_at (e + 1) (data_end r - (e + 1)) b2 = more"
  proof -
    have "drop (e + 1) (lr_buffer r) = drop (length s + 1) (drop (data_begin r) (lr_buffer r))"
      by (simp add: e_def ac_simps)
    also have "\<dots> = more @ post" unfolding buf by simp
    finally show ?thesis using u(2) len by (simp add: bytes_at_def e_def)
  qed
  moreover have "e + 1 < 2 * bl" using short db by (simp add: e_def s_def)
  ultimately show ?thesis using ok o e by (auto simp: reader_ok_def left_def window_def more_def s_def)
qed


lemma cut_line_end_of_data:
  assumes ok: "reader_ok bl r" and n: "nl \<notin> set (window r)"
  shows "bl \<le> length (window r) \<Longrightarrow> cut_line bl r = Inl Uncaught_exception"
    and "length (window r) < bl \<Longrightarrow> \<exists>r'. cut_line bl r = Inr (Some (clean_line (window r)), r')
      \<and> length (lr_buffer r') = length (lr_buffer r) \<and> data_begin r' = data_end r + 1 \<and> lr_source r' = lr_source r
      \<and> data_end r' = (if lr_buffer r ! data_end r = nl then data_end r else data_end r + 1)"
proof -
  have o: "0 < bl" "length (lr_buffer r) = 3 * bl" "data_begin r \<le> data_end r" "data_end r \<le> 2 * bl"
    using ok by (auto simp: reader_ok_def)
  have tw: "takeWhile (\<lambda>c. c \<noteq> nl) (window r) = window r"
    using n unfolding takeWhile_eq_all_conv by blast
  have f: "find_line_end (lr_buffer r) (data_end r) (data_begin r) = Inr (data_end r)"
    using find_line_end_spec [of "data_begin r" "data_end r" "lr_buffer r"] o length_window [OF ok]
    unfolding window_def [symmetric] tw by simp
  show "cut_line bl r = Inl Uncaught_exception" if "bl \<le> length (window r)"
    using that o(3) length_window [OF ok] unfolding cut_line_def f by (simp add: require_def)
  assume short: "length (window r) < bl"
  have buf: "drop (data_begin r) (lr_buffer r)
      = window r @ lr_buffer r ! data_end r # drop (Suc (data_end r)) (lr_buffer r)"
  proof -
    have "drop (data_end r - data_begin r) (drop (data_begin r) (lr_buffer r))
        = lr_buffer r ! data_end r # drop (Suc (data_end r)) (lr_buffer r)"
      using o by (simp add: Cons_nth_drop_Suc)
    then show ?thesis
      using append_take_drop_id [of "data_end r - data_begin r" "drop (data_begin r) (lr_buffer r)"]
      by (simp only: window_def bytes_at_def)
  qed
  have le: "data_end r - data_begin r + 1 \<le> bl" using short length_window [OF ok] by simp
  define b2 where "b2 = (let b1 = (lr_buffer r)[data_end r := CHR 0x00]
      in if data_end r \<noteq> data_begin r \<and> b1 ! (data_end r - 1) = CHR 0x0D then b1[data_end r - 1 := CHR 0x00] else b1)"
  have c: "c_string_at b2 (data_begin r) = clean_line (window r)"
    unfolding b2_def by (rule terminated_line [OF buf]) (use o length_window [OF ok] in auto)
  have l: "length b2 = length (lr_buffer r)" by (simp add: b2_def Let_def)
  have "\<exists>r'. cut_line bl r = Inr (Some (c_string_at b2 (data_begin r)), r') \<and> lr_buffer r' = b2
      \<and> data_begin r' = data_end r + 1 \<and> lr_source r' = lr_source r
      \<and> data_end r' = (if lr_buffer r ! data_end r = nl then data_end r else data_end r + 1)"
    using le unfolding cut_line_def f and_then_simps
    by (cases "lr_buffer r ! data_end r = nl") (simp_all add: b2_def Let_def)
  with c l show "\<exists>r'. cut_line bl r = Inr (Some (clean_line (window r)), r')
      \<and> length (lr_buffer r') = length (lr_buffer r) \<and> data_begin r' = data_end r + 1 \<and> lr_source r' = lr_source r
      \<and> data_end r' = (if lr_buffer r ! data_end r = nl then data_end r else data_end r + 1)" by auto
qed

lemma shift_stale:
  assumes "reader_ok bl r" "lr_source r = None" "data_end r < 2 * bl"
  shows "lr_source (shift_blocks bl r) = None" "data_end (shift_blocks bl r) < 2 * bl"
    "lr_buffer (shift_blocks bl r) ! data_end (shift_blocks bl r) = lr_buffer r ! data_end r"
  using assms by (auto simp: shift_blocks_def Let_def reader_ok_def nth_put_bytes nth_bytes_at)

lemma next_line_cut:
  assumes "reader_ok bl r" "unread r \<noteq> []"
  obtains r1 where "next_line bl r = cut_line bl r1" "reader_ok bl r1" "unread r1 = unread r" "data_begin r1 < bl"
    "data_begin r1 < data_end r1"
    "lr_source r = None \<Longrightarrow> data_end r < 2 * bl \<Longrightarrow> lr_source r1 = None \<and> data_end r1 < 2 * bl
       \<and> lr_buffer r1 ! data_end r1 = lr_buffer r ! data_end r"
proof -
  define r0 where "r0 = r\<lparr>file_line := file_line r + 1\<rparr>"
  have r0: "reader_ok bl r0" "unread r0 = unread r"
    using assms(1) by (simp_all add: r0_def reader_ok_def unread_def left_def window_def)
  have d: "data_begin r < data_end r"
  proof (rule ccontr)
    assume "\<not> data_begin r < data_end r"
    then have "data_begin r = data_end r" using assms(1) by (simp add: reader_ok_def)
    moreover from this have "left r = []" using assms(1) by (auto simp: reader_ok_def)
    ultimately show False using assms(2) by (simp add: unread_def window_def bytes_at_def)
  qed
  have "next_line bl r = cut_line bl (shift_blocks bl r0)"
    using d assms(1) by (simp add: next_line_def r0_def reader_ok_def Let_def mult.commute)
  moreover have "data_begin r0 < data_end r0" using d by (simp add: r0_def)
  note shift_ok [OF r0(1) this]
  moreover have "lr_source r = None \<Longrightarrow> data_end r < 2 * bl \<Longrightarrow> lr_source (shift_blocks bl r0) = None
      \<and> data_end (shift_blocks bl r0) < 2 * bl
      \<and> lr_buffer (shift_blocks bl r0) ! data_end (shift_blocks bl r0) = lr_buffer r ! data_end r"
    using shift_stale [OF r0(1)] by (simp add: r0_def)
  ultimately show thesis using that r0(2) by metis
qed


lemma takeWhile_window:
  "nl \<in> set w \<Longrightarrow> takeWhile (\<lambda>c. c \<noteq> nl) (w @ l) = takeWhile (\<lambda>c. c \<noteq> nl) w \<and>
     tl (dropWhile (\<lambda>c. c \<noteq> nl) (w @ l)) = tl (dropWhile (\<lambda>c. c \<noteq> nl) w) @ l"
  by (induction w) auto

lemma next_line_step:
  assumes ok: "reader_ok bl r" and n: "nl \<in> set (unread r)"
    and short: "length (takeWhile (\<lambda>c. c \<noteq> nl) (unread r)) < bl"
  shows "\<exists>r'. next_line bl r = Inr (Some (clean_line (takeWhile (\<lambda>c. c \<noteq> nl) (unread r))), r') \<and> reader_ok bl r'
    \<and> unread r' = tl (dropWhile (\<lambda>c. c \<noteq> nl) (unread r))
    \<and> (lr_source r = None \<and> data_end r < 2 * bl \<longrightarrow> lr_source r' = None \<and> data_end r' < 2 * bl
        \<and> lr_buffer r' ! data_end r' = lr_buffer r ! data_end r)"
proof -
  have "unread r \<noteq> []" using n by auto
  from next_line_cut [OF ok this] obtain r1 where r1: "next_line bl r = cut_line bl r1" "reader_ok bl r1"
    "unread r1 = unread r" "data_begin r1 < bl" "data_begin r1 < data_end r1"
    "lr_source r = None \<Longrightarrow> data_end r < 2 * bl \<Longrightarrow> lr_source r1 = None \<and> data_end r1 < 2 * bl
       \<and> lr_buffer r1 ! data_end r1 = lr_buffer r ! data_end r" by metis
  have w: "nl \<in> set (window r1)"
  proof (rule ccontr)
    assume no: "nl \<notin> set (window r1)"
    have "nl \<in> set (unread r1)" using n r1(3) by simp
    then have "nl \<in> set (left r1)" using no by (simp add: unread_def)
    then have "data_end r1 = 2 * bl" using r1(2) by (auto simp: reader_ok_def)
    then have "bl \<le> length (window r1)" using length_window [OF r1(2)] r1(4) by simp
    moreover have "length (window r1) \<le> length (takeWhile (\<lambda>c. c \<noteq> nl) (unread r1))"
      using no by (subst unread_def, subst takeWhile_append2) auto
    ultimately show False using short r1(3) by simp
  qed
  note tw = takeWhile_window [OF w, of "left r1", folded unread_def, unfolded r1(3)]
  from cut_line_newline [OF r1(2,4) w] short tw obtain r' where
    "cut_line bl r1 = Inr (Some (clean_line (takeWhile (\<lambda>c. c \<noteq> nl) (window r1))), r')" "reader_ok bl r'"
    "window r' = tl (dropWhile (\<lambda>c. c \<noteq> nl) (window r1))" "lr_source r' = lr_source r1"
    "data_end r' = data_end r1" "lr_buffer r' ! data_end r1 = lr_buffer r1 ! data_end r1" by auto
  with r1(1,6) tw show ?thesis by (auto simp: unread_def left_def)
qed

section \<open>All the lines\<close>

text \<open>At most \<open>n\<close> calls, as long as there are lines.\<close>

primrec read_lines :: "nat \<Rightarrow> nat \<Rightarrow> line_reader \<Rightarrow> fault + string list \<times> line_reader" where
  "read_lines 0 block_len r = Inr ([], r)"
| "read_lines (Suc n) block_len r =
     and_then (next_line block_len r) (\<lambda>(l, r1).
       case l of None \<Rightarrow> Inr ([], r1)
       | Some s \<Rightarrow> and_then (read_lines n block_len r1) (\<lambda>(ls, r2). Inr (s # ls, r2)))"

text \<open>The specification: the lines of a text.\<close>

abbreviation text_lines :: "string \<Rightarrow> string list" where
  "text_lines \<equiv> tokens nl"

lemma ends_with_newline:
  assumes "s = [] \<or> last s = nl"
  shows "s \<noteq> [] \<Longrightarrow> nl \<in> set s"
    and "tl (dropWhile (\<lambda>c. c \<noteq> nl) s) = [] \<or> last (tl (dropWhile (\<lambda>c. c \<noteq> nl) s)) = nl"
proof -
  show "s \<noteq> [] \<Longrightarrow> nl \<in> set s" using assms last_in_set by fastforce
  show "tl (dropWhile (\<lambda>c. c \<noteq> nl) s) = [] \<or> last (tl (dropWhile (\<lambda>c. c \<noteq> nl) s)) = nl"
    using assms by (induction s) (auto split: if_splits)
qed

lemma read_lines_all:
  assumes "reader_ok bl r" "unread r = [] \<or> last (unread r) = nl"
    "\<forall>l\<in>set (text_lines (unread r)). length l < bl" "length (text_lines (unread r)) < n"
  shows "\<exists>r'. read_lines n bl r = Inr (map clean_line (text_lines (unread r)), r')"
  using assms
proof (induction n arbitrary: r)
  case (Suc n)
  show ?case
  proof (cases "unread r = []")
    case True
    then have "data_begin r = data_end r" using Suc.prems(1) length_window [OF Suc.prems(1)]
      by (auto simp: unread_def reader_ok_def)
    with True show ?thesis by (simp add: next_line_def)
  next
    case False
    note fl = first_token [OF False]
    have "length (takeWhile (\<lambda>c. c \<noteq> nl) (unread r)) < bl" using Suc.prems(3) fl by simp
    from next_line_step [OF Suc.prems(1) ends_with_newline(1) [OF Suc.prems(2) False] this] obtain r' where
      r': "next_line bl r = Inr (Some (clean_line (takeWhile (\<lambda>c. c \<noteq> nl) (unread r))), r')" "reader_ok bl r'"
        "unread r' = tl (dropWhile (\<lambda>c. c \<noteq> nl) (unread r))" by auto
    have "\<exists>r2. read_lines n bl r' = Inr (map clean_line (text_lines (unread r')), r2)"
      using Suc.prems fl r' ends_with_newline(2) [OF Suc.prems(2)] by (intro Suc.IH) simp_all
    with r' fl show ?thesis by auto
  qed
qed simp


lemma after_newline:
  "nl \<in> set s \<Longrightarrow> last s \<noteq> nl \<Longrightarrow>
     tl (dropWhile (\<lambda>c. c \<noteq> nl) s) \<noteq> [] \<and> last (tl (dropWhile (\<lambda>c. c \<noteq> nl) s)) = last s"
proof (induction s)
  case (Cons c s)
  then show ?case by (cases "c = nl"; cases "s = []") auto
qed simp

lemma read_lines_unterminated:
  assumes "reader_ok bl r" "lr_source r = None" "data_end r < 2 * bl" "unread r \<noteq> []" "last (unread r) \<noteq> nl"
    "\<forall>l\<in>set (text_lines (unread r)). length l < bl" "length (text_lines (unread r)) < n"
  shows "if lr_buffer r ! data_end r = nl then read_lines n bl r = Inl Assertion_failure
    else \<exists>r'. read_lines n bl r = Inr (map clean_line (text_lines (unread r)), r')"
  using assms
proof (induction n arbitrary: r)
  case (Suc n)
  note fl = first_token [OF Suc.prems(4)]
  show ?case
  proof (cases "nl \<in> set (unread r)")
    case True
    have "length (takeWhile (\<lambda>c. c \<noteq> nl) (unread r)) < bl" using Suc.prems(6) fl by simp
    from next_line_step [OF Suc.prems(1) True this] Suc.prems(2,3) obtain r' where
      r': "next_line bl r = Inr (Some (clean_line (takeWhile (\<lambda>c. c \<noteq> nl) (unread r))), r')" "reader_ok bl r'"
        "unread r' = tl (dropWhile (\<lambda>c. c \<noteq> nl) (unread r))"
        "lr_source r' = None" "data_end r' < 2 * bl" "lr_buffer r' ! data_end r' = lr_buffer r ! data_end r" by auto
    have "if lr_buffer r' ! data_end r' = nl then read_lines n bl r' = Inl Assertion_failure
      else \<exists>r2. read_lines n bl r' = Inr (map clean_line (text_lines (unread r')), r2)"
      using Suc.prems fl r' after_newline [OF True Suc.prems(5)] by (intro Suc.IH) simp_all
    with r' fl show ?thesis by (auto split: if_splits)
  next
    case False
    from next_line_cut [OF Suc.prems(1,4)] obtain r1 where
      r1: "next_line bl r = cut_line bl r1" "reader_ok bl r1" "unread r1 = unread r"
      "lr_source r1 = None" "lr_buffer r1 ! data_end r1 = lr_buffer r ! data_end r"
      using Suc.prems(2,3) by metis
    have w: "window r1 = unread r" using r1(3,4) by (simp add: unread_def left_def)
    have l: "text_lines (unread r) = [unread r]" using False Suc.prems(4) by simp
    obtain r' where r': "cut_line bl r1 = Inr (Some (clean_line (unread r)), r')" "data_begin r' = data_end r1 + 1"
      "data_end r' = (if lr_buffer r ! data_end r = nl then data_end r1 else data_end r1 + 1)"
      using cut_line_end_of_data(2) [OF r1(2)] False Suc.prems(6) l unfolding w r1(5) by auto
    obtain m where m: "n = Suc m" using Suc.prems(7) l by (cases n) auto
    show ?thesis using r1(1) r' l by (simp add: m next_line_def)
  qed
qed simp

text \<open>
  C9: the buffered reader implements reading lines. Whatever block length of at least two bytes, whatever
  the fresh buffer holds, and however the lines lie across the blocks: for a file that ends with a
  newline and whose lines are shorter than a block, the calls of \<open>next_line\<close> return exactly the lines
  of the file, without byte order mark and carriage returns, and then the null pointer; no
  assertion fails and no line is cut or lost at a block boundary.
\<close>

theorem line_reader_reads_lines:
  assumes "2 \<le> bl" "length fresh = 3 * bl"
    and "strip_bom contents = [] \<or> last (strip_bom contents) = nl"
    and "\<forall>l\<in>set (text_lines (strip_bom contents)). length l < bl" "length (text_lines (strip_bom contents)) < n"
  shows "\<exists>r. read_lines n bl (line_reader_init bl fresh contents)
    = Inr (map clean_line (text_lines (strip_bom contents)), r)"
  using read_lines_all [of bl "line_reader_init bl fresh contents" n] init_ok [OF assms(2,1), of contents] assms(3-5)
  by simp

theorem line_reader_reads_lines_witness:
  "\<exists>r. read_lines 4 4 (line_reader_init 4 (replicate 12 nl) (''ab'' @ [nl] @ ''cde'' @ [nl, CHR 0x0D, nl]))
    = Inr ([''ab'', ''cde'', []], r)"
proof -
  have s: "strip_bom (''ab'' @ [nl] @ ''cde'' @ [nl, CHR 0x0D, nl]) = ''ab'' @ [nl] @ ''cde'' @ [nl, CHR 0x0D, nl]"
    by (simp add: strip_bom_def utf8_bom_def)
  have t: "text_lines (''ab'' @ [nl] @ ''cde'' @ [nl, CHR 0x0D, nl]) = [''ab'', ''cde'', [CHR 0x0D]]"
    using tokens_simps(2) [of nl "''ab''" "''cde'' @ [nl, CHR 0x0D, nl]"]
      tokens_simps(2) [of nl "''cde''" "[CHR 0x0D, nl]"] tokens_simps(2) [of nl "[CHR 0x0D]" "[]"] by simp
  have "(2::nat) \<le> 4" "length (replicate 12 nl) = 3 * 4" by simp_all
  from line_reader_reads_lines [OF this, of "''ab'' @ [nl] @ ''cde'' @ [nl, CHR 0x0D, nl]" 4]
  show ?thesis unfolding s t by (simp add: clean_line_def)
qed

text \<open>
  A file without a newline at its end depends on memory that was never written. The reader looks at
  the byte behind the data before it tests for the end; if the fresh buffer happens to hold a
  newline there, the call after the last line fails an assertion and stops the program, otherwise
  all lines are read.
\<close>

lemma unterminated_file_reads_stale_byte:
  assumes "2 \<le> bl" "length fresh = 3 * bl" "length contents < 2 * bl"
    and "strip_bom contents \<noteq> []" "last (strip_bom contents) \<noteq> nl"
    and "\<forall>l\<in>set (text_lines (strip_bom contents)). length l < bl" "length (text_lines (strip_bom contents)) < n"
  shows "if fresh ! length contents = nl
    then read_lines n bl (line_reader_init bl fresh contents) = Inl Assertion_failure
    else \<exists>r. read_lines n bl (line_reader_init bl fresh contents)
      = Inr (map clean_line (text_lines (strip_bom contents)), r)"
proof -
  define r where "r = line_reader_init bl fresh contents"
  have "lr_source r = None" "data_end r = length contents" "lr_buffer r ! data_end r = fresh ! length contents"
    using assms(1-3) by (simp_all add: r_def line_reader_init_def read_source_def Let_def nth_put_bytes)
  then show ?thesis
    using read_lines_unterminated [of bl r n] init_ok [OF assms(2,1), of contents, folded r_def] assms(3-7)
    unfolding r_def [symmetric] by (auto split: if_splits)
qed

end
