(* ===== verification/CsvReader.thy ===== *)
theory CsvReader
  imports LineReader
begin

text \<open>
  \<open>io::CSVReader\<close> (linux/common/inc/csv.h) as the program instantiates it: no trim characters, columns separated
  by commas and quoted with doubled quotes, no comments, every column read as a string. A line is a C
  string without its null byte; the code writes the terminators of the columns in place, so a column is
  a piece of the line. Every error the reader throws reaches nobody who catches it. The round trip: what a
  writer that quotes every column wrote is read back, by column names, in any column order.
\<close>

section \<open>Columns\<close>

definition sep :: char where "sep = CHR '',''"
definition quote :: char where "quote = CHR 0x22"

lemma sep_quote [simp]: "sep \<noteq> quote" "quote \<noteq> sep" "sep \<noteq> nl" "quote \<noteq> nl" "sep \<noteq> CHR 0x00" "quote \<noteq> CHR 0x00"
  "quote \<noteq> CHR 0x0D" "nl \<noteq> sep" "nl \<noteq> quote" "CHR 0x00 \<noteq> sep" "CHR 0x00 \<noteq> quote"
  by (simp_all add: sep_def quote_def)

text \<open>\<open>trim_chars\<close> with the characters \<open>cs\<close>.\<close>

definition trim_chars :: "char list \<Rightarrow> string \<Rightarrow> string" where
  "trim_chars cs s = rev (dropWhile (\<lambda>c. c \<in> set cs) (rev (dropWhile (\<lambda>c. c \<in> set cs) s)))"

lemma trim_nothing [simp]: "trim_chars [] s = s"
  by (simp add: trim_chars_def)

text \<open>\<open>double_quote_escape\<close>: the length of the column, outside and inside of quotes.\<close>

fun column_length :: "string \<Rightarrow> fault + nat" and quoted_length :: "string \<Rightarrow> fault + nat" where
  "column_length [] = Inr 0"
| "column_length (c # cs) =
     (if c = sep then Inr 0
      else if c \<noteq> quote then and_then (column_length cs) (\<lambda>n. Inr (Suc n))
      else and_then (quoted_length cs) (\<lambda>n. Inr (Suc n)))"
| "quoted_length [] = Inl Uncaught_exception"
| "quoted_length (c # cs) =
     (if c \<noteq> quote then and_then (quoted_length cs) (\<lambda>n. Inr (Suc n))
      else if cs \<noteq> [] \<and> hd cs = quote then and_then (quoted_length (tl cs)) (\<lambda>n. Inr (Suc (Suc n)))
      else and_then (column_length cs) (\<lambda>n. Inr (Suc n)))"

fun drop_doubled :: "string \<Rightarrow> string" where
  "drop_doubled [] = []"
| "drop_doubled (c # cs) = (if c = quote \<and> cs \<noteq> [] \<and> hd cs = quote then quote # drop_doubled (tl cs) else c # drop_doubled cs)"

definition unescape :: "string \<Rightarrow> string" where
  "unescape col = (if 2 \<le> length col \<and> hd col = quote \<and> last col = quote then drop_doubled (butlast (tl col)) else col)"

text \<open>The first column of a line, and the rest of the line, \<open>None\<close> for the null pointer.\<close>

definition chop_next_column :: "string \<Rightarrow> fault + string \<times> string option" where
  "chop_next_column line =
     and_then (column_length line) (\<lambda>n.
     Inr (take n line, case drop n line of [] \<Rightarrow> None | c # rest \<Rightarrow> Some rest))"

section \<open>Lines\<close>

text \<open>
  \<open>col_order\<close> says for every column of the file which of the wanted columns it is, if any (the code's -1). The row
  pointers start out null; after a header that has every wanted column each is set.
\<close>

fun parse_columns :: "nat option list \<Rightarrow> string option \<Rightarrow> string option list \<Rightarrow> fault + string option \<times> string option list" where
  "parse_columns [] line row = Inr (line, row)"
| "parse_columns (k # ks) line row =
     (case line of None \<Rightarrow> Inl Uncaught_exception
      | Some l \<Rightarrow> and_then (chop_next_column l) (\<lambda>(col, rest).
          parse_columns ks rest
            (case k of None \<Rightarrow> row | Some i \<Rightarrow> row[i := Some (unescape (trim_chars [] col))])))"

definition parse_line :: "string \<Rightarrow> nat option list \<Rightarrow> string option list \<Rightarrow> fault + string option list" where
  "parse_line line col_order row =
     and_then (parse_columns col_order (Some line) row) (\<lambda>(rest, row1).
     and_then (require (rest = None) Uncaught_exception) (\<lambda>_. Inr row1))"

text \<open>The position of a name, \<open>length names\<close> when it is not there.\<close>

fun position :: "'a \<Rightarrow> 'a list \<Rightarrow> nat" where
  "position x [] = 0"
| "position x (y # ys) = (if x = y then 0 else Suc (position x ys))"

definition header_column ::
    "string list \<Rightarrow> bool \<Rightarrow> string \<Rightarrow> bool list \<times> nat option list \<Rightarrow> fault + bool list \<times> nat option list" where
  "header_column names ignore_extra col st =
     (case st of (found, order) \<Rightarrow>
      let i = position col names in
      if i < length names
      then if found ! i then Inl Uncaught_exception else Inr (found[i := True], order @ [Some i])
      else if ignore_extra then Inr (found, order @ [None]) else Inl Uncaught_exception)"

lemma column_length_le: "column_length s = Inr n \<Longrightarrow> n \<le> length s"
  "quoted_length s = Inr n \<Longrightarrow> n \<le> length s"
proof (induction s arbitrary: n and n rule: column_length_quoted_length.induct)
  case (4 c cs)
  then show ?case
    by (cases cs) (auto simp: and_then_eq_Inr split: if_splits)
qed (auto simp: and_then_eq_Inr split: if_splits)

function header_loop ::
    "string list \<Rightarrow> bool \<Rightarrow> string option \<Rightarrow> bool list \<times> nat option list \<Rightarrow> fault + bool list \<times> nat option list" where
  "header_loop names ignore_extra line st =
     (case line of None \<Rightarrow> Inr st
      | Some l \<Rightarrow>
         (case chop_next_column l of Inl e \<Rightarrow> Inl e
          | Inr (col, rest) \<Rightarrow>
             (case header_column names ignore_extra (unescape (trim_chars [] col)) st of Inl e \<Rightarrow> Inl e
              | Inr st1 \<Rightarrow> header_loop names ignore_extra rest st1)))"
  by pat_completeness auto

lemma chop_shorter: "chop_next_column l = Inr (col, Some rest) \<Longrightarrow> length rest < length l"
proof -
  assume "chop_next_column l = Inr (col, Some rest)"
  then obtain n where n: "(case drop n l of [] \<Rightarrow> None | c # rest \<Rightarrow> Some rest) = Some rest"
    by (auto simp: chop_next_column_def and_then_eq_Inr)
  then obtain c where "drop n l = c # rest" by (cases "drop n l") auto
  then have "length (drop n l) = Suc (length rest)" by simp
  then show ?thesis by simp
qed

termination header_loop
  by (relation "measure (\<lambda>(names, ie, line, st). case line of None \<Rightarrow> 0 | Some l \<Rightarrow> Suc (length l))")
     (auto dest: chop_shorter split: option.splits)

declare header_loop.simps [simp del]

definition parse_header_line :: "string \<Rightarrow> string list \<Rightarrow> bool \<Rightarrow> bool \<Rightarrow> fault + nat option list" where
  "parse_header_line line names ignore_extra ignore_missing =
     and_then (header_loop names ignore_extra (Some line) (replicate (length names) False, [])) (\<lambda>(found, order).
     if ignore_missing \<or> (\<forall>b\<in>set found. b) then Inr order else Inl Uncaught_exception)"

section \<open>The reader\<close>

record csv_reader =
  csv_in :: line_reader
  col_order :: "nat option list"
  column_names :: "string list"

text \<open>A file that cannot be opened is \<open>None\<close>.\<close>

definition csv_ctor :: "nat \<Rightarrow> nat \<Rightarrow> string \<Rightarrow> string option \<Rightarrow> fault + csv_reader" where
  "csv_ctor column_count block_len fresh file =
     (case file of None \<Rightarrow> Inl Uncaught_exception
      | Some contents \<Rightarrow> Inr
         \<lparr>csv_in = line_reader_init block_len fresh contents, col_order = map Some [0..<column_count],
          column_names = map (\<lambda>i. ''col'' @ digits (Suc i)) [0..<column_count]\<rparr>)"

definition read_header :: "nat \<Rightarrow> bool \<Rightarrow> bool \<Rightarrow> string list \<Rightarrow> csv_reader \<Rightarrow> fault + csv_reader" where
  "read_header block_len ignore_extra ignore_missing names r =
     and_then (next_line block_len (csv_in r)) (\<lambda>(line, lr).
     case line of None \<Rightarrow> Inl Uncaught_exception
     | Some l \<Rightarrow> and_then (parse_header_line l names ignore_extra ignore_missing) (\<lambda>order.
         Inr (r\<lparr>column_names := names, csv_in := lr, col_order := order\<rparr>)))"

text \<open>A row is \<open>None\<close> at the end of the file.\<close>

definition read_row :: "nat \<Rightarrow> csv_reader \<Rightarrow> fault + string option list option \<times> csv_reader" where
  "read_row block_len r =
     and_then (next_line block_len (csv_in r)) (\<lambda>(line, lr).
     case line of None \<Rightarrow> Inr (None, r\<lparr>csv_in := lr\<rparr>)
     | Some l \<Rightarrow> and_then (parse_line l (col_order r) (replicate (length (column_names r)) None)) (\<lambda>row.
         Inr (Some row, r\<lparr>csv_in := lr\<rparr>)))"


text \<open>The loop every user of the reader runs: rows until there are none. \<open>None\<close> would be a loop that does not end.\<close>

partial_function (option) csv_rows ::
    "nat \<Rightarrow> (string option list \<Rightarrow> 's \<Rightarrow> fault + 's) \<Rightarrow> csv_reader \<Rightarrow> 's \<Rightarrow> (fault + 's) option" where
  "csv_rows block_len body r s =
     (case read_row block_len r of Inl e \<Rightarrow> Some (Inl e)
      | Inr (row, r1) \<Rightarrow>
         (case row of None \<Rightarrow> Some (Inr s)
          | Some cols \<Rightarrow> (case body cols s of Inl e \<Rightarrow> Some (Inl e) | Inr s1 \<Rightarrow> csv_rows block_len body r1 s1)))"

section \<open>Reading back what a writer wrote\<close>

definition doubled :: "string \<Rightarrow> string" where
  "doubled f = concat (map (\<lambda>c. if c = quote then [quote, quote] else [c]) f)"

definition quote_field :: "string \<Rightarrow> string" where
  "quote_field f = quote # doubled f @ [quote]"

fun csv_line :: "string list \<Rightarrow> string" where
  "csv_line [] = []"
| "csv_line (f # fs) = quote_field f @ (if fs = [] then [] else sep # csv_line fs)"

definition csv_text :: "string list list \<Rightarrow> string" where
  "csv_text ls = concat (map (\<lambda>l. csv_line l @ [nl]) ls)"

lemma doubled_simps [simp]:
  "doubled [] = []"
  "doubled (c # f) = (if c = quote then quote # quote # doubled f else c # doubled f)"
  by (simp_all add: doubled_def)

lemma quoted_length_doubled:
  assumes "rest = [] \<or> hd rest = sep"
  shows "quoted_length (doubled f @ quote # rest) = Inr (Suc (length (doubled f)))"
proof (induction f)
  case Nil
  from assms show ?case by (cases rest) auto
qed simp

lemma column_length_quoted:
  assumes "rest = [] \<or> hd rest = sep"
  shows "column_length (quote_field f @ rest) = Inr (length (quote_field f))"
  using quoted_length_doubled [OF assms, of f] by (simp add: quote_field_def)

lemma drop_doubled_doubled: "drop_doubled (doubled f) = f"
  by (induction f) auto

lemma unescape_quoted [simp]: "unescape (quote_field f) = f"
  by (simp add: unescape_def quote_field_def drop_doubled_doubled)

lemma chop_quoted [simp]:
  "chop_next_column (quote_field f) = Inr (quote_field f, None)"
  "chop_next_column (quote_field f @ sep # rest) = Inr (quote_field f, Some rest)"
  using column_length_quoted [of "[]" f] column_length_quoted [of "sep # rest" f]
  by (simp_all add: chop_next_column_def)

lemma csv_line_not_Nil [simp]: "fs \<noteq> [] \<Longrightarrow> csv_line fs \<noteq> []"
  by (cases fs) (simp_all add: quote_field_def)

lemma set_doubled: "set (doubled f) = set f"
  by (induction f) auto

lemma csv_line_plain:
  assumes "\<forall>f\<in>set fs. plain f"
  shows "nl \<notin> set (csv_line fs)" "CHR 0x00 \<notin> set (csv_line fs)"
  using assms by (induction fs) (auto simp: quote_field_def set_doubled plain_def)

lemma last_csv_line: "fs \<noteq> [] \<Longrightarrow> last (csv_line fs) = quote"
  by (induction fs) (auto simp: quote_field_def)

lemma clean_csv_line:
  assumes "\<forall>f\<in>set fs. plain f" "fs \<noteq> []"
  shows "clean_line (csv_line fs) = csv_line fs"
  using csv_line_plain(2) [OF assms(1)] last_csv_line [OF assms(2)]
  by (auto simp: clean_line_def takeWhile_eq_all_conv)


section \<open>The columns of a row\<close>

text \<open>What a column of the file is to the reader, and what a row sets.\<close>

definition wanted :: "string list \<Rightarrow> string \<Rightarrow> nat option" where
  "wanted names h = (if position h names < length names then Some (position h names) else None)"

fun assign :: "nat option list \<Rightarrow> string list \<Rightarrow> string option list \<Rightarrow> string option list" where
  "assign (k # ks) (f # fs) row = assign ks fs (case k of None \<Rightarrow> row | Some i \<Rightarrow> row[i := Some f])"
| "assign ks fs row = row"

lemma parse_columns_csv:
  "length ks = length fs \<Longrightarrow> fs \<noteq> [] \<Longrightarrow> parse_columns ks (Some (csv_line fs)) row = Inr (None, assign ks fs row)"
proof (induction fs arbitrary: ks row)
  case (Cons f fs)
  then obtain k ks' where ks: "ks = k # ks'" by (cases ks) auto
  show ?case
  proof (cases fs)
    case Nil
    with Cons.prems ks show ?thesis by (cases k) simp_all
  next
    case (Cons g gs)
    then show ?thesis using Cons.IH [of ks'] Cons.prems ks by (cases k) simp_all
  qed
qed simp

lemma position_less [simp]: "position x xs < length xs \<longleftrightarrow> x \<in> set xs"
  by (induction xs) auto

lemma nth_position: "x \<in> set xs \<Longrightarrow> xs ! position x xs = x"
  by (induction xs) auto

lemma position_nth: "distinct xs \<Longrightarrow> i < length xs \<Longrightarrow> position (xs ! i) xs = i"
  by (metis nth_position nth_mem nth_eq_iff_index_eq position_less)

lemma wanted_iff: "distinct names \<Longrightarrow> j < length names \<Longrightarrow> wanted names h = Some j \<longleftrightarrow> h = names ! j"
  by (auto simp: wanted_def nth_position position_nth)

lemma wanted_less: "wanted names h = Some i \<Longrightarrow> i < length names"
  by (auto simp: wanted_def split: if_splits)

lemma nth_assign:
  assumes "length fs = length hs" "distinct hs" "distinct names" "j < length names" "length row = length names"
  shows "assign (map (wanted names) hs) fs row ! j
    = (if names ! j \<in> set hs then Some (fs ! position (names ! j) hs) else row ! j)"
  using assms
proof (induction fs hs arbitrary: row rule: list_induct2)
  case (Cons f fs h hs)
  define row1 where "row1 = (case wanted names h of None \<Rightarrow> row | Some i \<Rightarrow> row[i := Some f])"
  have "length row1 = length names" using Cons.prems by (simp add: row1_def split: option.splits)
  then have ih: "assign (map (wanted names) hs) fs row1 ! j
      = (if names ! j \<in> set hs then Some (fs ! position (names ! j) hs) else row1 ! j)"
    using Cons by simp
  have r1: "row1 ! j = (if h = names ! j then Some f else row ! j)"
    using Cons.prems wanted_iff [of names j h] by (auto simp: row1_def nth_list_update split: option.splits)
  show ?case using ih r1 Cons.prems(1) by (auto simp: row1_def [symmetric])
qed simp

lemma length_assign [simp]: "length (assign ks fs row) = length row"
  by (induction ks fs row rule: assign.induct) (auto split: option.splits)

lemma assign_all:
  assumes "length fs = length hs" "distinct hs" "distinct names" "set names \<subseteq> set hs"
  shows "assign (map (wanted names) hs) fs (replicate (length names) None)
    = map (\<lambda>n. Some (fs ! position n hs)) names"
  using assms by (intro nth_equalityI) (auto simp: nth_assign subset_iff)


section \<open>The header\<close>

lemma header_loop_csv:
  assumes "hs \<noteq> []" "distinct hs" "length found = length names"
    and "\<forall>h\<in>set hs. h \<in> set names \<longrightarrow> \<not> found ! position h names"
  shows "\<exists>found'. header_loop names True (Some (csv_line hs)) (found, order) = Inr (found', order @ map (wanted names) hs)
    \<and> length found' = length names
    \<and> (\<forall>i<length names. found' ! i = (found ! i \<or> i \<in> set (List.map_filter (wanted names) hs)))"
  using assms
proof (induction hs arbitrary: found order)
  case (Cons h hs)
  define found1 where "found1 = (case wanted names h of None \<Rightarrow> found | Some i \<Rightarrow> found[i := True])"
  have l1: "length found1 = length names" using Cons.prems(3) by (simp add: found1_def split: option.splits)
  have hc: "header_column names True h (found, order) = Inr (found1, order @ [wanted names h])"
    using Cons.prems(4) by (simp add: header_column_def Let_def found1_def wanted_def)
  have f1: "found1 ! i = (found ! i \<or> wanted names h = Some i)" if "i < length names" for i
    using that Cons.prems(3) by (auto simp: found1_def nth_list_update dest: wanted_less split: option.splits)
  show ?case
  proof (cases hs)
    case Nil
    have "header_loop names True (Some (csv_line [h])) (found, order) = Inr (found1, order @ [wanted names h])"
      by (subst header_loop.simps) (simp add: hc header_loop.simps [of _ _ None])
    then show ?thesis using Nil l1 f1 by (auto simp: map_filter_simps split: option.splits)
  next
    case (Cons g gs)
    then have ne: "hs \<noteq> []" by simp
    have new: "\<forall>h'\<in>set hs. h' \<in> set names \<longrightarrow> \<not> found1 ! position h' names"
    proof (intro ballI impI)
      fix h' assume h': "h' \<in> set hs" "h' \<in> set names"
      have "wanted names h \<noteq> Some (position h' names)"
        using Cons.prems(2) h' nth_position [of h' names] nth_position [of h names] by (auto simp: wanted_def)
      then show "\<not> found1 ! position h' names" using Cons.prems(4) h' f1 by simp
    qed
    obtain found' where f': "header_loop names True (Some (csv_line hs)) (found1, order @ [wanted names h])
        = Inr (found', (order @ [wanted names h]) @ map (wanted names) hs)" "length found' = length names"
      "\<forall>i<length names. found' ! i = (found1 ! i \<or> i \<in> set (List.map_filter (wanted names) hs))"
      using Cons.IH [OF ne _ l1 new, of "order @ [wanted names h]"] Cons.prems(2) unfolding distinct.simps by blast
    have "header_loop names True (Some (csv_line (h # hs))) (found, order) = Inr (found', order @ map (wanted names) (h # hs))"
      using ne f'(1) by (subst header_loop.simps) (simp add: hc)
    then show ?thesis using f' f1 by (auto simp: map_filter_simps split: option.splits)
  qed
qed simp

lemma parse_header_csv:
  assumes "hs \<noteq> []" "distinct hs" "distinct names" "set names \<subseteq> set hs"
  shows "parse_header_line (csv_line hs) names True False = Inr (map (wanted names) hs)"
proof -
  obtain found' where f: "header_loop names True (Some (csv_line hs)) (replicate (length names) False, [])
      = Inr (found', map (wanted names) hs)" "length found' = length names"
    "\<forall>i<length names. found' ! i = (i \<in> set (List.map_filter (wanted names) hs))"
    using header_loop_csv [of hs "replicate (length names) False" names "[]"] assms(1,2)
    by (auto simp: nth_replicate)
  have "\<forall>b\<in>set found'. b"
  proof
    fix b assume "b \<in> set found'"
    then obtain i where i: "i < length names" "b = found' ! i" using f(2) by (auto simp: in_set_conv_nth)
    have "wanted names (names ! i) = Some i" using assms(3) i by (simp add: wanted_iff)
    moreover have "names ! i \<in> set hs" using assms(4) i by auto
    ultimately have "i \<in> set (List.map_filter (wanted names) hs)" by (force simp: map_filter_def)
    with i f(3) show b by simp
  qed
  with f(1) show ?thesis by (simp add: parse_header_line_def)
qed


section \<open>Whole files\<close>

text \<open>A record the reader can take: as long as the header, plain text, a line that fits into a block.\<close>

definition storable :: "nat \<Rightarrow> nat \<Rightarrow> string list \<Rightarrow> bool" where
  "storable block_len width fs \<longleftrightarrow>
     length fs = width \<and> fs \<noteq> [] \<and> (\<forall>f\<in>set fs. plain f) \<and> length (csv_line fs) < block_len"

lemma next_line_csv:
  assumes "reader_ok bl lr" "unread lr = csv_text (fs # ls)" "storable bl w fs"
  shows "\<exists>lr'. next_line bl lr = Inr (Some (csv_line fs), lr') \<and> reader_ok bl lr' \<and> unread lr' = csv_text ls"
proof -
  have u: "unread lr = csv_line fs @ nl # csv_text ls" using assms(2) by (simp add: csv_text_def)
  have s: "fs \<noteq> []" "\<forall>f\<in>set fs. plain f" "length (csv_line fs) < bl" using assms(3) by (auto simp: storable_def)
  have "\<forall>c\<in>set (csv_line fs). c \<noteq> nl" using csv_line_plain(1) [OF s(2)] by auto
  then have tw: "takeWhile (\<lambda>c. c \<noteq> nl) (unread lr) = csv_line fs" "tl (dropWhile (\<lambda>c. c \<noteq> nl) (unread lr)) = csv_text ls"
    unfolding u by (simp_all add: takeWhile_append2 dropWhile_append2)
  have "nl \<in> set (unread lr)" by (simp add: u)
  from next_line_step [OF assms(1) this] show ?thesis unfolding tw clean_csv_line [OF s(2,1)] using s(3) by auto
qed

lemma next_line_at_end:
  assumes "reader_ok bl lr" "unread lr = []"
  shows "next_line bl lr = Inr (None, lr)"
  using assms length_window [OF assms(1)] by (auto simp: next_line_def unread_def reader_ok_def)

text \<open>A reader that is about to read the records \<open>ls\<close> of a table with the columns \<open>hs\<close>.\<close>

definition reads_records :: "nat \<Rightarrow> string list \<Rightarrow> string list list \<Rightarrow> csv_reader \<Rightarrow> bool" where
  "reads_records bl hs ls r \<longleftrightarrow> reader_ok bl (csv_in r) \<and> unread (csv_in r) = csv_text ls \<and> (\<forall>fs\<in>set ls. storable bl (length hs) fs)
     \<and> col_order r = map (wanted (column_names r)) hs \<and> distinct hs \<and> distinct (column_names r) \<and> set (column_names r) \<subseteq> set hs"

definition wanted_columns :: "string list \<Rightarrow> string list \<Rightarrow> string list \<Rightarrow> string option list" where
  "wanted_columns hs names fs = map (\<lambda>n. Some (fs ! position n hs)) names"

lemma read_row_at_end:
  assumes "reads_records bl hs [] r"
  shows "read_row bl r = Inr (None, r)"
  using assms next_line_at_end [of bl "csv_in r"] by (simp add: read_row_def csv_text_def reads_records_def)

lemma read_row_record:
  assumes "reads_records bl hs (fs # ls) r"
  shows "\<exists>r1. read_row bl r = Inr (Some (wanted_columns hs (column_names r) fs), r1) \<and> reads_records bl hs ls r1
    \<and> column_names r1 = column_names r"
proof -
  note r = assms [unfolded reads_records_def]
  have ok: "reader_ok bl (csv_in r)" "unread (csv_in r) = csv_text (fs # ls)" "storable bl (length hs) fs" using r by simp_all
  obtain lr where lr: "next_line bl (csv_in r) = Inr (Some (csv_line fs), lr)" "reader_ok bl lr" "unread lr = csv_text ls"
    using next_line_csv [OF ok] by auto
  have fs: "length fs = length hs" "fs \<noteq> []" using ok(3) by (auto simp: storable_def)
  have "parse_line (csv_line fs) (col_order r) (replicate (length (column_names r)) None)
      = Inr (wanted_columns hs (column_names r) fs)"
    using fs assign_all [OF fs(1)] r by (simp add: parse_line_def parse_columns_csv wanted_columns_def)
  then have "read_row bl r = Inr (Some (wanted_columns hs (column_names r) fs), r\<lparr>csv_in := lr\<rparr>)"
    by (simp add: read_row_def lr(1))
  moreover have "reads_records bl hs ls (r\<lparr>csv_in := lr\<rparr>)" using r lr by (simp add: reads_records_def)
  ultimately show ?thesis by simp
qed

lemma csv_rows_all:
  assumes "reads_records bl hs ls r"
  shows "csv_rows bl body r s = Some (fold_ok body (map (wanted_columns hs (column_names r)) ls) s)"
  using assms
proof (induction ls arbitrary: r s)
  case Nil
  then show ?case by (subst csv_rows.simps) (simp add: read_row_at_end)
next
  case (Cons fs ls)
  obtain r1 where r1: "read_row bl r = Inr (Some (wanted_columns hs (column_names r) fs), r1)" "reads_records bl hs ls r1"
    "column_names r1 = column_names r"
    using read_row_record [OF Cons.prems] by blast
  show ?case
  proof (cases "body (wanted_columns hs (column_names r) fs) s")
    case (Inl e)
    then show ?thesis by (subst csv_rows.simps) (simp add: r1(1))
  next
    case (Inr s1)
    then show ?thesis using Cons.IH [OF r1(2), of s1] by (subst csv_rows.simps) (simp add: r1(1,3))
  qed
qed

lemma csv_text_no_bom: "hs \<noteq> [] \<Longrightarrow> strip_bom (csv_text (hs # ls)) = csv_text (hs # ls)"
  by (cases hs) (simp_all add: strip_bom_def utf8_bom_def csv_text_def quote_field_def quote_def)

lemma open_csv:
  assumes "2 \<le> bl" "length fresh = 3 * bl" "distinct hs" "distinct names" "set names \<subseteq> set hs"
    and "\<forall>fs\<in>set (hs # ls). storable bl (length hs) fs"
  obtains r r1 where "csv_ctor n bl fresh (Some (csv_text (hs # ls))) = Inr r" "read_header bl True False names r = Inr r1"
    "reads_records bl hs ls r1" "column_names r1 = names"
proof -
  have st: "storable bl (length hs) hs" using assms(6) by simp
  then have hs: "hs \<noteq> []" by (simp add: storable_def)
  obtain r where r: "csv_ctor n bl fresh (Some (csv_text (hs # ls))) = Inr r"
    "csv_in r = line_reader_init bl fresh (csv_text (hs # ls))" by (simp add: csv_ctor_def)
  have "reader_ok bl (csv_in r)" "unread (csv_in r) = csv_text (hs # ls)"
    using init_ok [OF assms(2,1)] csv_text_no_bom [OF hs] by (simp_all add: r(2))
  from next_line_csv [OF this st] obtain lr where lr: "next_line bl (csv_in r) = Inr (Some (csv_line hs), lr)"
    "reader_ok bl lr" "unread lr = csv_text ls" by auto
  have "read_header bl True False names r
      = Inr (r\<lparr>column_names := names, csv_in := lr, col_order := map (wanted names) hs\<rparr>)"
    using lr(1) parse_header_csv [OF hs assms(3-5)] by (simp add: read_header_def)
  then show thesis using that [OF r(1)] lr assms(3-6) by (simp add: reads_records_def)
qed

text \<open>
  C11: what was written comes back. A table written with every column quoted, with any columns in any
  order, is read row by row as the wanted columns in the order of their names, whatever block length
  its lines fit into and whatever the fresh buffer holds: commas and quotes inside a column are
  text. The loop over the rows ends.
\<close>

theorem csv_roundtrip:
  assumes "2 \<le> bl" "length fresh = 3 * bl" "distinct hs" "distinct names" "set names \<subseteq> set hs"
    and "\<forall>fs\<in>set (hs # ls). storable bl (length hs) fs"
  shows "\<exists>r r1. csv_ctor (length names) bl fresh (Some (csv_text (hs # ls))) = Inr r
    \<and> read_header bl True False names r = Inr r1
    \<and> csv_rows bl body r1 s = Some (fold_ok body (map (\<lambda>fs. map (\<lambda>n. Some (fs ! position n hs)) names) ls) s)"
proof -
  from open_csv [OF assms, of "length names"] obtain r r1 where
    r: "csv_ctor (length names) bl fresh (Some (csv_text (hs # ls))) = Inr r" "read_header bl True False names r = Inr r1"
    "reads_records bl hs ls r1" "column_names r1 = names" by metis
  from csv_rows_all [OF r(3), of body s] r(1,2,4) show ?thesis by (auto simp: wanted_columns_def [abs_def])
qed

text \<open>A table of two columns read as one, in a loop that collects the rows.\<close>

theorem csv_roundtrip_witness:
  "\<exists>r r1. csv_ctor 1 32 (replicate 96 nl) (Some (csv_text [[''a'', ''b''], [''x,y'', [quote]], [''p'', ''q'']])) = Inr r
    \<and> read_header 32 True False [''b''] r = Inr r1
    \<and> csv_rows 32 (\<lambda>row s. Inr (s @ [row])) r1 [] = Some (Inr [[Some [quote]], [Some ''q'']])"
proof -
  have p: "plain f" if "f \<in> {''a'', ''b'', ''x,y'', [quote], ''p'', ''q''}" for f
    using that by (auto simp: plain_def)
  have "(2::nat) \<le> 32" "length (replicate 96 nl) = 3 * 32" "distinct [''a'', ''b'']" "distinct [''b'']"
    "set [''b''] \<subseteq> set [''a'', ''b'']"
    "\<forall>fs\<in>set ([''a'', ''b''] # [[''x,y'', [quote]], [''p'', ''q'']]). storable 32 (length [''a'', ''b'']) fs"
    using p by (simp_all add: storable_def quote_field_def doubled_def quote_def)
  from csv_roundtrip [OF this, of "\<lambda>row s. Inr (s @ [row])" "[]"] show ?thesis by simp
qed

end
