(* ===== verification/TrafficHistory.thy ===== *)
theory TrafficHistory
  imports CsvReader Float32 "HOL-Library.Char_ord" "HOL-Library.List_Lexorder"
begin

text \<open>
  \<open>sc::TrafficHistoryTable\<close> (linux/policy): per application and event type the recorded traffic, loaded from a
  CSV file. A \<open>std::map\<close> is an association list sorted by its keys, as iterating over it is; what the table
  relies on is stated as a contract of maps. Entries are values, since pointers to them are only read
  or changed before the next operation. \<open>std::stof\<close> reads decimal numbers.
\<close>

section \<open>Maps\<close>

definition map_find :: "'k \<Rightarrow> ('k \<times> 'v) list \<Rightarrow> 'v option" where
  "map_find k m = map_of m k"

text \<open>\<open>insert\<close> leaves an item with the same key alone.\<close>

fun map_insert :: "'k::linorder \<Rightarrow> 'v \<Rightarrow> ('k \<times> 'v) list \<Rightarrow> ('k \<times> 'v) list" where
  "map_insert k v [] = [(k, v)]"
| "map_insert k v (x # m) =
     (if k < fst x then (k, v) # x # m else if k = fst x then x # m else x # map_insert k v m)"

text \<open>A change through the pointer that \<open>find\<close> returns.\<close>

definition map_modify :: "'k \<Rightarrow> ('v \<Rightarrow> 'v) \<Rightarrow> ('k \<times> 'v) list \<Rightarrow> ('k \<times> 'v) list" where
  "map_modify k f m = map (\<lambda>(k', v). (k', if k' = k then f v else v)) m"

definition map_ok :: "('k::linorder \<times> 'v) list \<Rightarrow> bool" where
  "map_ok m \<longleftrightarrow> sorted_wrt (<) (map fst m)"

locale std_map =
  fixes find :: "'k \<Rightarrow> 'm \<Rightarrow> 'v option"
    and ins :: "'k \<Rightarrow> 'v \<Rightarrow> 'm \<Rightarrow> 'm"
    and modify :: "'k \<Rightarrow> ('v \<Rightarrow> 'v) \<Rightarrow> 'm \<Rightarrow> 'm"
    and ok :: "'m \<Rightarrow> bool"
  assumes find_insert: "ok m \<Longrightarrow> find k' (ins k v m) = (if k' = k \<and> find k m = None then Some v else find k' m)"
    and find_modify: "find k' (modify k f m) = (if k' = k then map_option f (find k m) else find k' m)"
    and ok_insert: "ok m \<Longrightarrow> ok (ins k v m)"
    and ok_modify: "ok m \<Longrightarrow> ok (modify k f m)"
begin

text \<open>The pattern of the table: find the item, add a fresh one when there is none, change it.\<close>

lemma find_get_or_add:
  assumes "ok m"
  shows "find k' (modify k f (if find k m = None then ins k v m else m))
      = (if k' = k then Some (f (case find k m of None \<Rightarrow> v | Some x \<Rightarrow> x)) else find k' m)"
    and "ok (modify k f (if find k m = None then ins k v m else m))"
  using assms by (auto simp: find_insert find_modify ok_insert ok_modify split: option.split)

end

lemma map_find_insert:
  "map_ok m \<Longrightarrow> map_find k' (map_insert k v m) = (if k' = k \<and> map_find k m = None then Some v else map_find k' m)"
proof (induction m)
  case (Cons x m)
  show ?case
  proof (cases "k < fst x")
    case True
    then have "k \<notin> fst ` set (x # m)" using Cons.prems by (force simp: map_ok_def)
    then have "map_of (x # m) k = None" by (simp add: map_of_eq_None_iff)
    then show ?thesis using True by (auto simp: map_find_def)
  next
    case False
    then show ?thesis using Cons by (cases x) (auto simp: map_find_def map_ok_def)
  qed
qed (simp add: map_find_def)

lemma map_find_modify: "map_find k' (map_modify k f m) = (if k' = k then map_option f (map_find k m) else map_find k' m)"
  by (induction m) (auto simp: map_find_def map_modify_def)

lemma keys_insert: "fst ` set (map_insert k v m) = insert k (fst ` set m)"
  by (induction m) auto

lemma map_ok_insert: "map_ok m \<Longrightarrow> map_ok (map_insert k v m)"
proof (induction m)
  case (Cons x m)
  have "\<forall>y\<in>fst ` set (map_insert k v m). fst x < y" if "fst x < k"
    unfolding keys_insert using that Cons.prems by (auto simp: map_ok_def)
  then show ?case using Cons by (auto simp: map_ok_def)
qed (simp add: map_ok_def)

lemma map_ok_modify: "map_ok m \<Longrightarrow> map_ok (map_modify k f m)"
proof -
  have "map fst (map_modify k f m) = map fst m" by (simp add: map_modify_def split_def)
  then show "map_ok m \<Longrightarrow> map_ok (map_modify k f m)" by (simp add: map_ok_def)
qed

interpretation stdmap: std_map map_find map_insert map_modify map_ok
  by unfold_locales (auto simp: map_find_insert map_find_modify map_ok_insert map_ok_modify)


section \<open>Decimal numbers\<close>

definition lower_char :: "char \<Rightarrow> char" where
  "lower_char c = (let n = (of_char c :: nat) in if 65 \<le> n \<and> n \<le> 90 then char_of (n + 32) else c)"

text \<open>The exponent part is read only if it has a digit.\<close>

definition exponent_part :: "string \<Rightarrow> int" where
  "exponent_part s =
     (if s \<noteq> [] \<and> lower_char (hd s) = CHR ''e'' then
        let s1 = tl s;
            neg = (s1 \<noteq> [] \<and> hd s1 = CHR ''-'');
            s2 = (if s1 \<noteq> [] \<and> (hd s1 = CHR ''-'' \<or> hd s1 = CHR ''+'') then tl s1 else s1);
            n = int (digits_value (takeWhile is_digit s2))
        in if neg then - n else n
      else 0)"

definition ten_to :: "int \<Rightarrow> rat" where
  "ten_to e = (if 0 \<le> e then 10 ^ nat e else 1 / 10 ^ nat (- e))"

definition decimal_value :: "string \<Rightarrow> rat option" where
  "decimal_value s =
     (let a = takeWhile is_digit s;
          s1 = dropWhile is_digit s;
          b = (if s1 \<noteq> [] \<and> hd s1 = CHR ''.'' then takeWhile is_digit (tl s1) else []);
          s2 = (if s1 \<noteq> [] \<and> hd s1 = CHR ''.'' then dropWhile is_digit (tl s1) else s1)
      in if a = [] \<and> b = [] then None
         else Some (of_nat (digits_value (a @ b)) * ten_to (exponent_part s2 - int (length b))))"

text \<open>
  \<open>strtof\<close> rounds once; a result that is too large, or inexact below the normal numbers, makes \<open>stof\<close> throw. Infinities,
  not-a-number and hexadecimal texts have no value in the model.
\<close>

definition stof :: "string \<Rightarrow> fault + f32" where
  "stof s =
     (let s1 = dropWhile is_space s;
          neg = (s1 \<noteq> [] \<and> hd s1 = CHR ''-'');
          s2 = (if s1 \<noteq> [] \<and> (hd s1 = CHR ''-'' \<or> hd s1 = CHR ''+'') then tl s1 else s1);
          start = map lower_char (take 3 s2)
      in if start = ''inf'' \<or> start = ''nan'' \<or> take 2 start = ''0x'' then Inl Not_modelled
         else case decimal_value s2 of None \<Rightarrow> Inl Uncaught_exception
         | Some v \<Rightarrow>
             (let x = fl32 v in
              if 2 ^ 128 \<le> x \<or> (x < pow2 (- 126) \<and> x \<noteq> v) then Inl Uncaught_exception
              else Inr (if neg then - x else x)))"

section \<open>Entries\<close>

record traffic_entry =
  mTimeSec :: f32
  mTrafficSequence :: "i32 list"

record event_entry =
  mEventType :: i32
  mTrafficList :: "traffic_entry list"

record app_entry =
  mAppName :: string
  mEventTypeMap :: "(int \<times> event_entry) list"

type_synonym traffic_table = "(string \<times> app_entry) list"

text \<open>
  The unqualified \<open>abs\<close> of \<open>findItem\<close> is the one for \<open>float\<close> or the one for \<open>int\<close>, depending on the headers
  included before; the latter cuts the difference to an \<open>int\<close>.
\<close>

datatype abs_overload = Abs_float | Abs_int

definition time_distance :: "abs_overload \<Rightarrow> f32 \<Rightarrow> f32 \<Rightarrow> fault + f32" where
  "time_distance ov a b =
     (let d = fl32 (a - b) in
      case ov of Abs_float \<Rightarrow> Inr \<bar>d\<bar>
      | Abs_int \<Rightarrow> and_then (float_to_int d) (\<lambda>n.
          Inr (fl32 (of_int (sint (if sint n < 0 then - n else n))))))"

definition closer ::
    "abs_overload \<Rightarrow> f32 \<Rightarrow> traffic_entry \<Rightarrow> traffic_entry option \<times> f32 \<Rightarrow> fault + traffic_entry option \<times> f32" where
  "closer ov time_sec entry best =
     and_then (time_distance ov time_sec (mTimeSec entry)) (\<lambda>entry_time_diff.
     Inr (if snd best > entry_time_diff then (Some entry, entry_time_diff) else best))"

definition findItem :: "abs_overload \<Rightarrow> f32 \<Rightarrow> event_entry \<Rightarrow> fault + traffic_entry option" where
  "findItem ov time_sec e =
     and_then (fold_ok (closer ov time_sec) (mTrafficList e) (None, FLT_MAX)) (\<lambda>best. Inr (fst best))"

definition traffic_addItem :: "traffic_entry \<Rightarrow> event_entry \<Rightarrow> event_entry" where
  "traffic_addItem x e = e\<lparr>mTrafficList := mTrafficList e @ [x]\<rparr>"

definition event_getItem :: "i32 \<Rightarrow> app_entry \<Rightarrow> event_entry option" where
  "event_getItem ev a = map_find (sint ev) (mEventTypeMap a)"

definition event_addItem :: "event_entry \<Rightarrow> app_entry \<Rightarrow> app_entry" where
  "event_addItem e a = a\<lparr>mEventTypeMap := map_insert (sint (mEventType e)) e (mEventTypeMap a)\<rparr>"

definition app_getItem :: "string \<Rightarrow> traffic_table \<Rightarrow> app_entry option" where
  "app_getItem name tbl = map_find name tbl"

definition app_addItem :: "app_entry \<Rightarrow> traffic_table \<Rightarrow> traffic_table" where
  "app_addItem a tbl = map_insert (mAppName a) a tbl"

section \<open>Loading\<close>

definition column_text :: "string option \<Rightarrow> string" where
  "column_text c = (case c of None \<Rightarrow> [] | Some s \<Rightarrow> s)"

definition parse_traffic :: "string \<Rightarrow> fault + i32 list" where
  "parse_traffic s =
     fold_ok (\<lambda>token seq. and_then (stoi token) (\<lambda>traffic. Inr (seq @ [traffic]))) (tokens CHR '' '' s) []"

type_synonym history_row = "string \<times> i32 \<times> f32 \<times> i32 list"

definition read_a_row :: "string option list \<Rightarrow> fault + history_row" where
  "read_a_row cols =
     and_then (stoi (column_text (cols ! 1))) (\<lambda>event_type.
     and_then (stof (column_text (cols ! 2))) (\<lambda>time_sec.
     and_then (parse_traffic (column_text (cols ! 3))) (\<lambda>traffic_sequence.
     Inr (column_text (cols ! 0), event_type, time_sec, traffic_sequence))))"

record load_state =
  mAppMap :: traffic_table
  present_app_name :: string
  present_app_start_time_sec :: f32

definition initial_load :: load_state where
  "initial_load = \<lparr>mAppMap = [], present_app_name = [], present_app_start_time_sec = 0\<rparr>"

definition load_row :: "history_row \<Rightarrow> load_state \<Rightarrow> load_state" where
  "load_row row s =
     (case row of (app_name, event_type, absolute_time_sec, traffic_sequence) \<Rightarrow>
      let start = (if app_name \<noteq> present_app_name s then absolute_time_sec else present_app_start_time_sec s);
          relative_time_sec = fl32 (absolute_time_sec - start);
          m1 = (if app_getItem app_name (mAppMap s) = None
                then app_addItem \<lparr>mAppName = app_name, mEventTypeMap = []\<rparr> (mAppMap s) else mAppMap s);
          m2 = map_modify app_name (\<lambda>app_entry.
            let a1 = (if event_getItem event_type app_entry = None
                      then event_addItem \<lparr>mEventType = event_type, mTrafficList = []\<rparr> app_entry else app_entry)
            in a1\<lparr>mEventTypeMap := map_modify (sint event_type)
                 (traffic_addItem \<lparr>mTimeSec = relative_time_sec, mTrafficSequence = traffic_sequence\<rparr>) (mEventTypeMap a1)\<rparr>) m1
      in \<lparr>mAppMap = m2, present_app_name = app_name, present_app_start_time_sec = start\<rparr>)"

definition history_columns :: "string list" where
  "history_columns = [''AppName'', ''EventType'', ''TimeSec'', ''TrafficSequence'']"

definition table_initialize :: "nat \<Rightarrow> string \<Rightarrow> string option \<Rightarrow> (fault + traffic_table) option" where
  "table_initialize block_len fresh file =
     (case and_then (csv_ctor 4 block_len fresh file) (read_header block_len True False history_columns) of
        Inl e \<Rightarrow> Some (Inl e)
      | Inr r \<Rightarrow> map_option (\<lambda>res. and_then res (\<lambda>s. Inr (mAppMap s)))
          (csv_rows block_len (\<lambda>cols s. and_then (read_a_row cols) (\<lambda>row. Inr (load_row row s))) r initial_load))"


section \<open>What the table holds\<close>

definition history :: "traffic_table \<Rightarrow> string \<Rightarrow> i32 \<Rightarrow> traffic_entry list option" where
  "history tbl name ev = (case app_getItem name tbl of None \<Rightarrow> None | Some a \<Rightarrow> map_option mTrafficList (event_getItem ev a))"

definition table_ok :: "traffic_table \<Rightarrow> bool" where
  "table_ok tbl \<longleftrightarrow> map_ok tbl \<and> (\<forall>name a. map_find name tbl = Some a \<longrightarrow> map_ok (mEventTypeMap a))"

lemma sint_eq [simp]: "sint (v::i32) = sint w \<longleftrightarrow> v = w"
  by (rule word_eq_iff_signed [symmetric])

definition event_list :: "i32 \<Rightarrow> app_entry \<Rightarrow> traffic_entry list" where
  "event_list ev a = (case event_getItem ev a of None \<Rightarrow> [] | Some e \<Rightarrow> mTrafficList e)"

definition record_traffic :: "i32 \<Rightarrow> traffic_entry \<Rightarrow> app_entry \<Rightarrow> app_entry" where
  "record_traffic ev x a =
     (let a1 = (if event_getItem ev a = None then event_addItem \<lparr>mEventType = ev, mTrafficList = []\<rparr> a else a)
      in a1\<lparr>mEventTypeMap := map_modify (sint ev) (traffic_addItem x) (mEventTypeMap a1)\<rparr>)"

lemma record_traffic_map:
  "mEventTypeMap (record_traffic ev x a) = map_modify (sint ev) (traffic_addItem x)
     (if map_find (sint ev) (mEventTypeMap a) = None
      then map_insert (sint ev) \<lparr>mEventType = ev, mTrafficList = []\<rparr> (mEventTypeMap a) else mEventTypeMap a)"
  by (simp add: record_traffic_def event_getItem_def event_addItem_def)

lemma record_traffic:
  assumes "map_ok (mEventTypeMap a)"
  shows "map_option mTrafficList (event_getItem ev' (record_traffic ev x a))
      = (if ev' = ev then Some (event_list ev a @ [x]) else map_option mTrafficList (event_getItem ev' a))"
    and "map_ok (mEventTypeMap (record_traffic ev x a))"
  using stdmap.find_get_or_add [OF assms] unfolding event_getItem_def event_list_def record_traffic_map
  by (auto simp: traffic_addItem_def split: option.split)

lemma load_row_eq:
  "load_row (name, ev, tm, seq) s =
     (let start = (if name \<noteq> present_app_name s then tm else present_app_start_time_sec s)
      in \<lparr>mAppMap = map_modify name (record_traffic ev \<lparr>mTimeSec = fl32 (tm - start), mTrafficSequence = seq\<rparr>)
            (if map_find name (mAppMap s) = None
             then map_insert name \<lparr>mAppName = name, mEventTypeMap = []\<rparr> (mAppMap s) else mAppMap s),
          present_app_name = name, present_app_start_time_sec = start\<rparr>)"
  by (simp add: load_row_def record_traffic_def [abs_def] app_getItem_def app_addItem_def Let_def)

lemma load_row_history:
  assumes "table_ok (mAppMap s)"
  shows "history (mAppMap (load_row (name, ev, tm, seq) s)) name' ev' =
      (if name' = name \<and> ev' = ev
       then Some ((case history (mAppMap s) name ev of None \<Rightarrow> [] | Some es \<Rightarrow> es) @
         [\<lparr>mTimeSec = fl32 (tm - present_app_start_time_sec (load_row (name, ev, tm, seq) s)), mTrafficSequence = seq\<rparr>])
       else history (mAppMap s) name' ev')"
    and "table_ok (mAppMap (load_row (name, ev, tm, seq) s))"
proof -
  have m: "map_ok (mAppMap s)" and e: "map_find name (mAppMap s) = Some a \<Longrightarrow> map_ok (mEventTypeMap a)" for a
    using assms by (auto simp: table_ok_def)
  define a where "a = (case map_find name (mAppMap s) of None \<Rightarrow> \<lparr>mAppName = name, mEventTypeMap = []\<rparr> | Some a \<Rightarrow> a)"
  have a: "map_ok (mEventTypeMap a)" using e by (auto simp: a_def map_ok_def split: option.split)
  define x where "x = \<lparr>mTimeSec = fl32 (tm - present_app_start_time_sec (load_row (name, ev, tm, seq) s)), mTrafficSequence = seq\<rparr>"
  note get = stdmap.find_get_or_add [OF m, where k = name and f = "record_traffic ev x"
      and v = "\<lparr>mAppName = name, mEventTypeMap = []\<rparr>", folded a_def]
  have eq: "mAppMap (load_row (name, ev, tm, seq) s) = map_modify name (record_traffic ev x)
      (if map_find name (mAppMap s) = None
       then map_insert name \<lparr>mAppName = name, mEventTypeMap = []\<rparr> (mAppMap s) else mAppMap s)"
    by (simp add: load_row_eq Let_def x_def)
  have h: "history (mAppMap (load_row (name, ev, tm, seq) s)) name' ev'
      = (if name' = name then map_option mTrafficList (event_getItem ev' (record_traffic ev x a))
         else history (mAppMap s) name' ev')"
    unfolding history_def app_getItem_def eq get(1) by simp
  have l: "event_list ev a = (case history (mAppMap s) name ev of None \<Rightarrow> [] | Some es \<Rightarrow> es)"
    "map_option mTrafficList (event_getItem ev' a) = history (mAppMap s) name ev'"
    by (auto simp: event_list_def history_def app_getItem_def a_def event_getItem_def map_find_def split: option.split)
  show "history (mAppMap (load_row (name, ev, tm, seq) s)) name' ev' =
      (if name' = name \<and> ev' = ev
       then Some ((case history (mAppMap s) name ev of None \<Rightarrow> [] | Some es \<Rightarrow> es) @
         [\<lparr>mTimeSec = fl32 (tm - present_app_start_time_sec (load_row (name, ev, tm, seq) s)), mTrafficSequence = seq\<rparr>])
       else history (mAppMap s) name' ev')"
    unfolding x_def [symmetric] h record_traffic(1) [OF a] l by simp
  show "table_ok (mAppMap (load_row (name, ev, tm, seq) s))"
    using get(2) record_traffic(2) [OF a, of ev x] assms by (auto simp: table_ok_def eq get(1))
qed


section \<open>Loading a file\<close>

text \<open>
  The specification. An imaginary first row stands for the initial state of the loop. A row's time counts from
  the first of the rows with the same application in a block up to it.
\<close>

definition row_before :: history_row where
  "row_before = ([], 0, 0, [])"

definition block_start :: "history_row list \<Rightarrow> f32" where
  "block_start rows = fst (snd (snd (last (takeWhile (\<lambda>r. fst r = fst (last rows)) (rev rows)))))"

definition entry_of :: "history_row list \<Rightarrow> nat \<Rightarrow> traffic_entry" where
  "entry_of rows i = \<lparr>mTimeSec = fl32 (fst (snd (snd (rows ! i))) - block_start (row_before # take (Suc i) rows)),
     mTrafficSequence = snd (snd (snd (rows ! i)))\<rparr>"

definition recorded :: "history_row list \<Rightarrow> string \<Rightarrow> i32 \<Rightarrow> traffic_entry list" where
  "recorded rows name ev =
     map (entry_of rows) (filter (\<lambda>i. fst (rows ! i) = name \<and> fst (snd (rows ! i)) = ev) [0..<length rows])"

lemma block_start_snoc:
  "xs \<noteq> [] \<Longrightarrow> block_start (xs @ [r]) = (if fst r = fst (last xs) then block_start xs else fst (snd (snd r)))"
  by (cases xs rule: rev_cases) (auto simp: block_start_def)

lemma recorded_snoc:
  "recorded (rows @ [r]) name ev =
     (if fst r = name \<and> fst (snd r) = ev
      then recorded rows name ev @ [\<lparr>mTimeSec = fl32 (fst (snd (snd r)) - block_start (row_before # rows @ [r])),
             mTrafficSequence = snd (snd (snd r))\<rparr>]
      else recorded rows name ev)"
proof -
  have "map (entry_of (rows @ [r])) (filter (\<lambda>i. fst ((rows @ [r]) ! i) = name \<and> fst (snd ((rows @ [r]) ! i)) = ev)
      [0..<length rows]) = recorded rows name ev"
    unfolding recorded_def by (intro map_cong filter_cong) (auto simp: nth_append entry_of_def)
  moreover have "entry_of (rows @ [r]) (length rows)
      = \<lparr>mTimeSec = fl32 (fst (snd (snd r)) - block_start (row_before # rows @ [r])), mTrafficSequence = snd (snd (snd r))\<rparr>"
    by (simp add: entry_of_def)
  ultimately show ?thesis by (simp add: recorded_def [of "rows @ [r]"])
qed

lemma load_rows:
  defines "s rows \<equiv> fold load_row rows initial_load"
  shows "table_ok (mAppMap (s rows)) \<and> present_app_name (s rows) = fst (last (row_before # rows))
    \<and> present_app_start_time_sec (s rows) = block_start (row_before # rows)
    \<and> history (mAppMap (s rows)) name ev = (if recorded rows name ev = [] then None else Some (recorded rows name ev))"
proof (induction rows arbitrary: name ev rule: rev_induct)
  case Nil
  show ?case by (simp add: s_def initial_load_def table_ok_def map_ok_def map_find_def row_before_def block_start_def
        history_def app_getItem_def recorded_def)
next
  case (snoc r rows)
  obtain n e tm seq where r: "r = (n, e, tm, seq)" by (cases r) auto
  have s: "s (rows @ [r]) = load_row (n, e, tm, seq) (s rows)" by (simp add: s_def r)
  have pres: "present_app_name (s (rows @ [r])) = n"
    "present_app_start_time_sec (s (rows @ [r])) = block_start (row_before # rows @ [r])"
    using snoc block_start_snoc [of "row_before # rows" r] unfolding s
    by (auto simp: load_row_eq Let_def r)
  have ok: "table_ok (mAppMap (s rows))" using snoc by blast
  have "history (mAppMap (s (rows @ [r]))) name ev
      = (if recorded (rows @ [r]) name ev = [] then None else Some (recorded (rows @ [r]) name ev))"
    unfolding s load_row_history(1) [OF ok] recorded_snoc using snoc by (simp add: pres(2) [unfolded s] r)
  moreover have "table_ok (mAppMap (s (rows @ [r])))" unfolding s by (rule load_row_history(2) [OF ok])
  moreover have "fst (last (row_before # rows @ [r])) = n" by (simp add: r)
  ultimately show ?case using pres by simp
qed

lemma fold_ok_load:
  assumes "list_all2 (\<lambda>cols row. read_a_row cols = Inr row) cs rows"
  shows "fold_ok (\<lambda>cols s. and_then (read_a_row cols) (\<lambda>row. Inr (load_row row s))) cs s = Inr (fold load_row rows s)"
  using assms by (induction arbitrary: s) auto


lemma length_history_columns [simp]: "length history_columns = 4" "distinct history_columns"
  by (simp_all add: history_columns_def)

lemma small_numbers:
  "stoi ''1'' = Inr 1" "stoi ''5'' = Inr 5" "stoi ''8'' = Inr 8"
  by (simp_all add: stoi_def parse_number_def is_space_def is_digit_def digits_value_def)

lemma small_floats: "stof ''10'' = Inr 10" "stof ''12'' = Inr 12"
proof -
  have e: "fl32 10 = 10" "fl32 12 = 12" using fl32_exact [of 10] fl32_exact [of 12] by simp_all
  have p: "pow2 (- 126) \<le> 1" using pow2_mono [of "- 126" 0] by (simp add: pow2_def)
  show "stof ''10'' = Inr 10" "stof ''12'' = Inr 12"
    using e p by (simp_all add: stof_def is_space_def lower_char_def Let_def decimal_value_def is_digit_def digits_value_def
        exponent_part_def ten_to_def)
qed

text \<open>
  C12: the table holds what the file says. For a file a CSV writer wrote, with the four columns anywhere in
  it, loading ends, and the entries found under an application and an event type are exactly the
  rows with that name and type, in the order of the file, with their traffic and their time since the
  first row of the block of rows of the same application they stand in; the lookup finds nothing
  exactly if there is no such row.
\<close>

theorem history_table_holds_file:
  assumes "2 \<le> bl" "length fresh = 3 * bl" "distinct hs" "set history_columns \<subseteq> set hs"
    and "\<forall>fs\<in>set (hs # ls). storable bl (length hs) fs"
    and "list_all2 (\<lambda>fs row. read_a_row (map (\<lambda>n. Some (fs ! position n hs)) history_columns) = Inr row) ls rows"
  shows "\<exists>tbl. table_initialize bl fresh (Some (csv_text (hs # ls))) = Some (Inr tbl)
    \<and> (\<forall>name ev. history tbl name ev = (if recorded rows name ev = [] then None else Some (recorded rows name ev)))"
proof -
  from open_csv [OF assms(1-3) length_history_columns(2) assms(4,5), of 4] obtain r r1 where
    r: "csv_ctor 4 bl fresh (Some (csv_text (hs # ls))) = Inr r" "read_header bl True False history_columns r = Inr r1"
    "reads_records bl hs ls r1" "column_names r1 = history_columns" by metis
  have "list_all2 (\<lambda>cols row. read_a_row cols = Inr row) (map (wanted_columns hs history_columns) ls) rows"
    using assms(6) by (simp add: list_all2_map1 wanted_columns_def)
  note rows = fold_ok_load [OF this, of initial_load]
  have "csv_rows bl (\<lambda>cols s. and_then (read_a_row cols) (\<lambda>row. Inr (load_row row s))) r1 initial_load
      = Some (Inr (fold load_row rows initial_load))"
    using csv_rows_all [OF r(3)] unfolding r(4) rows [symmetric] .
  then have "table_initialize bl fresh (Some (csv_text (hs # ls))) = Some (Inr (mAppMap (fold load_row rows initial_load)))"
    using r(1,2) by (simp add: table_initialize_def)
  moreover have "history (mAppMap (fold load_row rows initial_load)) name ev
      = (if recorded rows name ev = [] then None else Some (recorded rows name ev))" for name ev
    using load_rows by blast
  ultimately show ?thesis by blast
qed

theorem history_table_holds_file_witness:
  "\<exists>tbl. table_initialize 64 (replicate 192 nl) (Some (csv_text [history_columns,
        [''a'', ''1'', ''10'', ''5''], [''a'', ''1'', ''12'', ''8'']])) = Some (Inr tbl)
    \<and> history tbl ''a'' 1 = Some [\<lparr>mTimeSec = 0, mTrafficSequence = [5]\<rparr>, \<lparr>mTimeSec = 2, mTrafficSequence = [8]\<rparr>]
    \<and> history tbl ''b'' 1 = None"
proof -
  let ?ls = "[[''a'', ''1'', ''10'', ''5''], [''a'', ''1'', ''12'', ''8'']]"
  define rows :: "history_row list" where "rows = [(''a'', 1, 10, [5]), (''a'', 1, 12, [8])]"
  have tok: "parse_traffic ''5'' = Inr [5]" "parse_traffic ''8'' = Inr [8]"
    by (simp_all add: parse_traffic_def small_numbers)
  have "list_all2 (\<lambda>fs row. read_a_row (map (\<lambda>n. Some (fs ! position n history_columns)) history_columns) = Inr row) ?ls rows"
    by (simp add: position_nth rows_def read_a_row_def column_text_def small_numbers small_floats tok)
  moreover have "\<forall>fs\<in>set (history_columns # ?ls). storable 64 (length history_columns) fs"
    by (auto simp: storable_def history_columns_def quote_field_def doubled_def quote_def plain_def)
  moreover have "(2::nat) \<le> 64" "length (replicate 192 nl) = 3 * 64" by simp_all
  ultimately obtain tbl where tbl: "table_initialize 64 (replicate 192 nl) (Some (csv_text (history_columns # ?ls))) = Some (Inr tbl)"
    "\<forall>name ev. history tbl name ev = (if recorded rows name ev = [] then None else Some (recorded rows name ev))"
    using history_table_holds_file [of 64 "replicate 192 nl" history_columns ?ls rows] length_history_columns by blast
  have "recorded rows ''a'' 1 = [\<lparr>mTimeSec = 0, mTrafficSequence = [5]\<rparr>, \<lparr>mTimeSec = 2, mTrafficSequence = [8]\<rparr>]"
    using fl32_exact [of 2] by (simp add: recorded_def rows_def entry_of_def block_start_def row_before_def)
  moreover have "recorded rows ''b'' 1 = []" by (simp add: recorded_def rows_def)
  ultimately show ?thesis using tbl by auto
qed

section \<open>The closest entry\<close>

lemma closest_found:
  assumes "\<forall>e\<in>set es. time_distance ov t (mTimeSec e) = Inr (d e)"
    and "fold_ok (closer ov t) es (best, m) = Inr (best', m')"
  shows "(best' = best \<and> m' = m \<and> (\<forall>e\<in>set es. m \<le> d e)) \<or>
    (\<exists>as e bs. es = as @ e # bs \<and> best' = Some e \<and> m' = d e \<and> d e < m \<and> (\<forall>x\<in>set as. d e < d x) \<and> (\<forall>x\<in>set bs. d e \<le> d x))"
  using assms
proof (induction es arbitrary: best m)
  case (Cons x es)
  have x: "closer ov t x (best, m) = Inr (if m > d x then (Some x, d x) else (best, m))"
    using Cons.prems(1) by (simp add: closer_def)
  show ?case
  proof (cases "d x < m")
    case True
    then have "fold_ok (closer ov t) es (Some x, d x) = Inr (best', m')" using Cons.prems(2) x by simp
    from Cons.IH [OF _ this] Cons.prems(1) have "(best' = Some x \<and> m' = d x \<and> (\<forall>e\<in>set es. d x \<le> d e)) \<or>
      (\<exists>as e bs. es = as @ e # bs \<and> best' = Some e \<and> m' = d e \<and> d e < d x \<and> (\<forall>x\<in>set as. d e < d x) \<and> (\<forall>x\<in>set bs. d e \<le> d x))"
      by simp
    then show ?thesis
    proof (elim disjE exE conjE)
      assume "best' = Some x" "m' = d x" "\<forall>e\<in>set es. d x \<le> d e"
      with True show ?thesis by (intro disjI2 exI [of _ "[]"] exI [of _ x] exI [of _ es]) simp
    next
      fix as e bs assume "es = as @ e # bs" "best' = Some e" "m' = d e" "d e < d x" "\<forall>x\<in>set as. d e < d x" "\<forall>x\<in>set bs. d e \<le> d x"
      with True show ?thesis by (intro disjI2 exI [of _ "x # as"] exI [of _ e] exI [of _ bs]) auto
    qed
  next
    case False
    then have "fold_ok (closer ov t) es (best, m) = Inr (best', m')" using Cons.prems(2) x by simp
    from Cons.IH [OF _ this] Cons.prems(1) have "(best' = best \<and> m' = m \<and> (\<forall>e\<in>set es. m \<le> d e)) \<or>
      (\<exists>as e bs. es = as @ e # bs \<and> best' = Some e \<and> m' = d e \<and> d e < m \<and> (\<forall>x\<in>set as. d e < d x) \<and> (\<forall>x\<in>set bs. d e \<le> d x))"
      by simp
    then show ?thesis
    proof (elim disjE exE conjE)
      fix as e bs assume "es = as @ e # bs" "best' = Some e" "m' = d e" "d e < m" "\<forall>x\<in>set as. d e < d x" "\<forall>x\<in>set bs. d e \<le> d x"
      with False show ?thesis by (intro disjI2 exI [of _ "x # as"] exI [of _ e] exI [of _ bs]) auto
    qed (use False in auto)
  qed
qed simp

lemma find_total:
  "\<forall>e\<in>set es. is_ok (time_distance ov t (mTimeSec e)) \<Longrightarrow> \<exists>r. fold_ok (closer ov t) es b = Inr r"
  by (induction es arbitrary: b) (auto simp: closer_def is_ok_iff)

text \<open>
  \<open>findItem\<close> with the floating \<open>abs\<close> returns the first of the recorded entries that are closest in time, and the
  null pointer only if no entry is closer than the largest float, in particular if there is none.
\<close>

lemma findItem_closest:
  "\<exists>res. findItem Abs_float t e = Inr res
    \<and> (case res of
         None \<Rightarrow> \<forall>x\<in>set (mTrafficList e). FLT_MAX \<le> \<bar>fl32 (t - mTimeSec x)\<bar>
       | Some x \<Rightarrow> \<exists>as bs. mTrafficList e = as @ x # bs \<and> \<bar>fl32 (t - mTimeSec x)\<bar> < FLT_MAX
           \<and> (\<forall>y\<in>set as. \<bar>fl32 (t - mTimeSec x)\<bar> < \<bar>fl32 (t - mTimeSec y)\<bar>)
           \<and> (\<forall>y\<in>set bs. \<bar>fl32 (t - mTimeSec x)\<bar> \<le> \<bar>fl32 (t - mTimeSec y)\<bar>))"
proof -
  have d: "\<forall>x\<in>set (mTrafficList e). time_distance Abs_float t (mTimeSec x) = Inr \<bar>fl32 (t - mTimeSec x)\<bar>"
    by (simp add: time_distance_def)
  obtain best m where b: "fold_ok (closer Abs_float t) (mTrafficList e) (None, FLT_MAX) = Inr (best, m)"
    using find_total [of "mTrafficList e" Abs_float t "(None, FLT_MAX)"] d by force
  have "findItem Abs_float t e = Inr best" by (simp add: findItem_def b)
  then show ?thesis using closest_found [OF d b] by (auto split: option.split)
qed


end
