(* ===== verification/EnergyPredictor.thy ===== *)
theory EnergyPredictor
  imports Float32
begin

text \<open>
  \<open>sc::EnergyPredictor\<close> (linux/policy): the simulation that predicts the bandwidth used in every second of
  a switch scenario, and the regression model that turns it into energy. Each \<open>float\<close> operation is
  rounded on its own, in source order. The loop over the remaining data has no bound in the code;
  its model returns \<open>None\<close> where it would not end.
\<close>

section \<open>Constants\<close>

definition PREDICTION_WINDOW_SEC :: nat where "PREDICTION_WINDOW_SEC = 30"

text \<open>Scenarios and adapter states share their numbers.\<close>

definition ADAPTER_BT :: int where "ADAPTER_BT = 1"
definition ADAPTER_WFD :: int where "ADAPTER_WFD = 2"
definition ADAPTER_BT_TO_WFD :: int where "ADAPTER_BT_TO_WFD = 3"
definition ADAPTER_WFD_TO_BT :: int where "ADAPTER_WFD_TO_BT = 4"

definition SCENARIO_BT :: int where "SCENARIO_BT = 1"
definition SCENARIO_WFD :: int where "SCENARIO_WFD = 2"
definition SCENARIO_BT_TO_WFD :: int where "SCENARIO_BT_TO_WFD = 3"
definition SCENARIO_WFD_TO_BT :: int where "SCENARIO_WFD_TO_BT = 4"

lemmas adapter_ids = ADAPTER_BT_def ADAPTER_WFD_def ADAPTER_BT_TO_WFD_def ADAPTER_WFD_TO_BT_def
  SCENARIO_BT_def SCENARIO_WFD_def SCENARIO_BT_TO_WFD_def SCENARIO_WFD_TO_BT_def

definition LATENCY_BT_TO_WFD :: f32 where "LATENCY_BT_TO_WFD = fl32 (54015 / 10000)"
definition LATENCY_WFD_TO_BT :: f32 where "LATENCY_WFD_TO_BT = fl32 (68679 / 10000)"

definition getMaxBW :: "int \<Rightarrow> f32" where
  "getMaxBW adapter_id =
     (if adapter_id = ADAPTER_BT then 75000
      else if adapter_id = ADAPTER_WFD then 3500000
      else if adapter_id = ADAPTER_BT_TO_WFD then 75000
      else if adapter_id = ADAPTER_WFD_TO_BT then 3500000
      else - 1)"

text \<open>The coefficients of the regression model.\<close>

definition power_model :: "int \<Rightarrow> (f32 \<times> f32 \<times> f32) option" where
  "power_model adapter_id =
     (if adapter_id = ADAPTER_BT then Some (fl32 (2056 / 100), fl32 (1756 / 1000), fl32 (- (1641 / 1000000)))
      else if adapter_id = ADAPTER_WFD
        then Some (fl32 (1438 / 10), fl32 (1964 / 10000), fl32 (- (6769 / 1000000000)))
      else if adapter_id = ADAPTER_BT_TO_WFD
        then Some (fl32 (2177 / 10), fl32 (4433 / 1000), fl32 (- (2262 / 100000)))
      else if adapter_id = ADAPTER_WFD_TO_BT
        then Some (fl32 (2033 / 10), fl32 (1869 / 10000), fl32 (- (1695 / 100000000)))
      else None)"

definition getPower :: "i32 \<Rightarrow> int \<Rightarrow> f32" where
  "getPower bandwidth adapter_id =
     (let bw_kb = fl32 (fl32 (of_int (sint bandwidth)) / 1000)
      in case power_model adapter_id of None \<Rightarrow> - 1
         | Some (b0, b1, b2) \<Rightarrow>
             fl32 (fl32 (b0 + fl32 (b1 * bw_kb)) + fl32 (fl32 (b2 * bw_kb) * bw_kb)))"

definition getInitialAdapter :: "int \<Rightarrow> int" where
  "getInitialAdapter scenario_id =
     (if scenario_id \<in> {SCENARIO_BT, SCENARIO_WFD, SCENARIO_BT_TO_WFD, SCENARIO_WFD_TO_BT}
      then scenario_id else - 1)"

definition getSwitchLatency :: "int \<Rightarrow> f32" where
  "getSwitchLatency scenario_id =
     (if scenario_id = SCENARIO_BT_TO_WFD then LATENCY_BT_TO_WFD
      else if scenario_id = SCENARIO_WFD_TO_BT then LATENCY_WFD_TO_BT else - 1)"

definition getSwitchBackLatency :: "int \<Rightarrow> f32" where
  "getSwitchBackLatency scenario_id =
     (if scenario_id = SCENARIO_BT_TO_WFD then LATENCY_WFD_TO_BT else - 1)"

section \<open>The bandwidth of every second\<close>

record switch_sim =
  present_adapter_id :: int
  remain_switch_latency :: f32
  is_switching :: bool

record bw_state = switch_sim +
  remainder_data_size :: i32
  is_delayed_switch :: bool
  bandwidth_seq :: "i32 list"

definition bw_switch :: "bw_state \<Rightarrow> bw_state" where
  "bw_switch s =
     (if is_switching s then
        let s1 = s\<lparr>remain_switch_latency := fl32 (remain_switch_latency s - 1)\<rparr>
        in if remain_switch_latency s1 < 0 then
             (if present_adapter_id s1 = ADAPTER_BT_TO_WFD then s1\<lparr>is_delayed_switch := True\<rparr>
              else if present_adapter_id s1 = ADAPTER_WFD_TO_BT then s1\<lparr>present_adapter_id := ADAPTER_BT\<rparr>
              else s1)\<lparr>is_switching := False\<rparr>
           else s1
      else if is_delayed_switch s then s\<lparr>present_adapter_id := ADAPTER_WFD, is_delayed_switch := False\<rparr>
      else s)"

text \<open>The conditional expression has type \<open>float\<close>; its value is converted back to \<open>int\<close>.\<close>

definition slot_bandwidth :: "i32 \<Rightarrow> int \<Rightarrow> fault + i32" where
  "slot_bandwidth data_prepared adapter_id =
     float_to_int (if fl32 (of_int (sint data_prepared)) < getMaxBW adapter_id
                   then fl32 (of_int (sint data_prepared)) else getMaxBW adapter_id)"

definition bw_slot :: "i32 \<Rightarrow> bw_state \<Rightarrow> fault + bw_state" where
  "bw_slot data_prepared s =
     and_then (slot_bandwidth data_prepared (present_adapter_id s)) (\<lambda>bandwidth.
     Inr (s\<lparr>remainder_data_size := data_prepared - bandwidth, bandwidth_seq := bandwidth_seq s @ [bandwidth]\<rparr>))"

definition bw_step :: "i32 \<Rightarrow> bw_state \<Rightarrow> fault + bw_state" where
  "bw_step traffic s = (let s1 = bw_switch s in bw_slot (remainder_data_size s1 + traffic) s1)"

partial_function (option) extra_slots :: "bw_state \<Rightarrow> (fault + bw_state) option" where
  "extra_slots s =
     (if 0 < sint (remainder_data_size s)
      then (case bw_slot (remainder_data_size s) s of Inl e \<Rightarrow> Some (Inl e) | Inr s1 \<Rightarrow> extra_slots s1)
      else Some (Inr s))"

definition predictBandwidthSeq ::
    "i32 \<Rightarrow> i32 list \<Rightarrow> int \<Rightarrow> i32 list \<Rightarrow> (fault + bool \<times> i32 list) option" where
  "predictBandwidthSeq segment_queue_length traffic_seq scenario_id seq =
     (if seq \<noteq> [] then Some (Inr (False, seq))
      else if getInitialAdapter scenario_id \<le> 0 then Some (Inr (False, seq))
      else (case fold_ok bw_step traffic_seq
               \<lparr>present_adapter_id = getInitialAdapter scenario_id,
                remain_switch_latency = getSwitchLatency scenario_id,
                is_switching = getSwitchLatency scenario_id > 0,
                remainder_data_size = segment_queue_length, is_delayed_switch = False, bandwidth_seq = seq\<rparr> of
         Inl e \<Rightarrow> Some (Inl e)
       | Inr s \<Rightarrow> map_option (\<lambda>r. and_then r (\<lambda>s1. Inr (True, bandwidth_seq s1))) (extra_slots s)))"

section \<open>The energy\<close>

record energy_state = switch_sim +
  total_energy :: f32
  remain_switch_back_start :: f32
  is_switch_back :: bool

definition energy_switch :: "energy_state \<Rightarrow> energy_state" where
  "energy_switch s =
     (if is_switching s then
        let s1 = s\<lparr>remain_switch_latency := fl32 (remain_switch_latency s - 1)\<rparr>
        in if remain_switch_latency s1 < 0 then
             (if present_adapter_id s1 = ADAPTER_BT_TO_WFD then s1\<lparr>present_adapter_id := ADAPTER_WFD\<rparr>
              else if present_adapter_id s1 = ADAPTER_WFD_TO_BT then s1\<lparr>present_adapter_id := ADAPTER_BT\<rparr>
              else s1)\<lparr>is_switching := False\<rparr>
           else s1
      else s)"

definition energy_switch_back :: "energy_state \<Rightarrow> energy_state" where
  "energy_switch_back s =
     (if is_switch_back s then
        let s1 = s\<lparr>remain_switch_back_start := fl32 (remain_switch_back_start s - 1)\<rparr>
        in if remain_switch_back_start s1 < 0
              \<and> (present_adapter_id s1 = ADAPTER_WFD \<or> present_adapter_id s1 = ADAPTER_BT_TO_WFD)
           then s1\<lparr>present_adapter_id := ADAPTER_WFD_TO_BT, is_switch_back := False\<rparr> else s1
      else s)"

fun energy_loop :: "i32 list \<Rightarrow> energy_state \<Rightarrow> f32" where
  "energy_loop [] s = (if total_energy s < 0 then 0 else total_energy s)"
| "energy_loop (bandwidth # bs) s =
     (let power = getPower bandwidth (present_adapter_id s) in
      if power < 0 then - 1
      else let s1 = energy_switch_back (energy_switch s)
           in energy_loop bs (s1\<lparr>total_energy := fl32 (total_energy s1 + power)\<rparr>))"

definition predictEnergyOfSeq :: "i32 list \<Rightarrow> int \<Rightarrow> f32" where
  "predictEnergyOfSeq seq scenario_id =
     (if getInitialAdapter scenario_id \<le> 0 then - 1
      else if length seq > PREDICTION_WINDOW_SEC * 2 then FLT_MAX
      else
       (let back = getSwitchBackLatency scenario_id in
        energy_loop seq
          \<lparr>present_adapter_id = getInitialAdapter scenario_id,
           remain_switch_latency = getSwitchLatency scenario_id,
           is_switching = getSwitchLatency scenario_id > 0,
           total_energy = 0,
           remain_switch_back_start = (if back > 0 then fl32 (fl32 (of_nat (length seq)) - back) else - 1),
           is_switch_back = back > 0\<rparr>))"

definition predictEnergy :: "i32 \<Rightarrow> i32 list \<Rightarrow> int \<Rightarrow> (fault + f32) option" where
  "predictEnergy segment_queue_length traffic_seq scenario_id =
     map_option (\<lambda>r. and_then r (\<lambda>(res, seq).
         Inr (if res then predictEnergyOfSeq seq scenario_id else - 1)))
       (predictBandwidthSeq segment_queue_length traffic_seq scenario_id [])"

end
