(* ===== verification/EnergyBounds.thy ===== *)
theory EnergyBounds
  imports EnergyPredictor
begin

text \<open>
  The simulation of theory \<open>EnergyPredictor\<close> ends and loses no byte, and its energy is never negative for
  the windows the policy uses: the bandwidths of a slot stay in the range in which the regression
  model of the adapter that the energy simulation assumes for that slot is positive.
\<close>

section \<open>One slot\<close>

text \<open>The maximum bandwidths as integers.\<close>

definition max_bw :: "int \<Rightarrow> int" where
  "max_bw adapter_id = (if adapter_id = 1 \<or> adapter_id = 3 then 75000 else 3500000)"

lemma getMaxBW_eq: "a \<in> {1, 2, 3, 4} \<Longrightarrow> getMaxBW a = of_int (max_bw a)"
  by (auto simp: getMaxBW_def max_bw_def adapter_ids)

lemma max_bw_bounds: "0 < max_bw a" "max_bw a \<le> 3500000"
  by (simp_all add: max_bw_def)

lemma sint_i32_max: "sint (w :: i32) < 2147483648"
  using sint_less [of w] by simp

lemma float_to_int_of_int:
  assumes "0 \<le> k" "k < 2147483648"
  shows "float_to_int (of_int k) = Inr (word_of_int k)"
  using assms by (simp add: float_to_int_def trunc_rat_def)

lemma slot_bandwidth_min:
  assumes a: "a \<in> {1, 2, 3, 4}" and dp: "0 \<le> sint dp"
  shows "\<exists>b. slot_bandwidth dp a = Inr b \<and> sint b = min (sint dp) (max_bw a)"
proof (cases "sint dp < max_bw a")
  case True
  then have e: "fl32 (of_int (sint dp)) = of_int (sint dp)"
    using dp max_bw_bounds(2) [of a] by (intro fl32_exact) simp
  have "slot_bandwidth dp a = float_to_int (of_int (sint dp))"
    unfolding slot_bandwidth_def e getMaxBW_eq [OF a] of_int_less_iff using True by (simp only: if_True)
  then show ?thesis using float_to_int_of_int [OF dp sint_i32_max] True by simp
next
  case False
  have m: "fl32 (of_int (max_bw a)) = of_int (max_bw a)"
    using max_bw_bounds [of a] by (intro fl32_exact) simp
  have "fl32 (of_int (max_bw a)) \<le> fl32 (of_int (sint dp))" using False by (intro fl32_mono) (simp only: of_int_le_iff not_less)
  then have "slot_bandwidth dp a = float_to_int (of_int (max_bw a))"
    unfolding m slot_bandwidth_def getMaxBW_eq [OF a] by simp
  moreover have "sint (word_of_int (max_bw a) :: i32) = max_bw a"
    using max_bw_bounds [of a] int_word_sint [of "max_bw a", where 'a = 32] by simp
  moreover have "float_to_int (of_int (max_bw a)) = Inr (word_of_int (max_bw a))"
    using max_bw_bounds [of a] by (intro float_to_int_of_int) simp_all
  ultimately show ?thesis using False by simp
qed

lemma sint_add_small:
  assumes "0 \<le> sint x" "0 \<le> sint y" "sint x + sint y < 2147483648"
  shows "sint (x + y :: i32) = sint x + sint y"
  using assms by (simp add: sint_word_ariths signed_take_bit_int_eq_self)

lemma sint_diff_small:
  assumes "0 \<le> sint y" "sint y \<le> sint x"
  shows "sint (x - y :: i32) = sint x - sint y"
  using assms sint_i32_max [of x] by (simp add: sint_word_ariths signed_take_bit_int_eq_self)

text \<open>A slot moves bytes from the remainder to the sequence.\<close>

lemma bw_slot_ok:
  assumes a: "present_adapter_id s \<in> {1, 2, 3, 4}" and dp: "0 \<le> sint dp"
  shows "\<exists>b r. bw_slot dp s = Inr (s\<lparr>remainder_data_size := r, bandwidth_seq := bandwidth_seq s @ [b]\<rparr>)
    \<and> sint b = min (sint dp) (max_bw (present_adapter_id s)) \<and> sint r = sint dp - sint b"
proof -
  obtain b where b: "slot_bandwidth dp (present_adapter_id s) = Inr b"
    "sint b = min (sint dp) (max_bw (present_adapter_id s))"
    using slot_bandwidth_min [OF a dp] by blast
  have "sint (dp - b) = sint dp - sint b"
    using b(2) dp max_bw_bounds(1) [of "present_adapter_id s"] by (intro sint_diff_small) simp_all
  with b show ?thesis
    by (intro exI [of _ b] exI [of _ "dp - b"]) (simp add: bw_slot_def)
qed

section \<open>The adapter of every slot\<close>

text \<open>
  What the simulation knows after \<open>k\<close> slots: the adapter, and how long the switch still takes. The
  latencies are enclosed in dyadic bounds, which rounding respects.
\<close>

definition bw_phase :: "int \<Rightarrow> nat \<Rightarrow> bw_state \<Rightarrow> bool" where
  "bw_phase sc k s \<longleftrightarrow>
     (if sc = 1 \<or> sc = 2 then present_adapter_id s = sc \<and> \<not> is_switching s \<and> \<not> is_delayed_switch s
      else if sc = 3 then
        (if k \<le> 5 then present_adapter_id s = 3 \<and> is_switching s \<and> \<not> is_delayed_switch s
           \<and> 21 / 4 - of_nat k \<le> remain_switch_latency s \<and> remain_switch_latency s \<le> 11 / 2 - of_nat k
         else if k = 6 then present_adapter_id s = 3 \<and> \<not> is_switching s \<and> is_delayed_switch s
         else present_adapter_id s = 2 \<and> \<not> is_switching s \<and> \<not> is_delayed_switch s)
      else
        (if k \<le> 6 then present_adapter_id s = 4 \<and> is_switching s \<and> \<not> is_delayed_switch s
           \<and> 27 / 4 - of_nat k \<le> remain_switch_latency s \<and> remain_switch_latency s \<le> 55 / 8 - of_nat k
         else present_adapter_id s = 1 \<and> \<not> is_switching s \<and> \<not> is_delayed_switch s))"

text \<open>The bound on the bandwidth in slot \<open>i\<close>.\<close>

definition slot_limit :: "int \<Rightarrow> nat \<Rightarrow> int" where
  "slot_limit sc i =
     (if sc = 1 then 75000 else if sc = 2 then 3500000
      else if sc = 3 then (if i \<le> 5 then 75000 else 3500000)
      else (if i \<le> 5 then 3500000 else 75000))"

lemma fl32_minus_one:
  assumes "of_int a / 8 \<le> x" "x \<le> of_int b / 8" "\<bar>a\<bar> < 1000" "\<bar>b\<bar> < 1000"
  shows "of_int a / 8 - 1 \<le> fl32 (x - 1)" "fl32 (x - 1) \<le> of_int b / 8 - 1"
proof -
  have e: "fl32 (of_int c / 8 - 1) = of_int c / 8 - 1" if "\<bar>c\<bar> < 1000" for c :: int
  proof -
    have c: "of_int c / 8 - 1 = (of_int (c - 8) / 2 ^ 3 :: rat)" by (simp add: field_simps)
    show ?thesis unfolding c using that by (intro fl32_exact_frac) simp_all
  qed
  have "fl32 (of_int a / 8 - 1) \<le> fl32 (x - 1)" "fl32 (x - 1) \<le> fl32 (of_int b / 8 - 1)"
    using assms(1,2) by (intro fl32_mono; simp)+
  then show "of_int a / 8 - 1 \<le> fl32 (x - 1)" "fl32 (x - 1) \<le> of_int b / 8 - 1"
    unfolding e [OF assms(3)] e [OF assms(4)] .
qed

lemma latency_bounds:
  "21 / 4 \<le> LATENCY_BT_TO_WFD" "LATENCY_BT_TO_WFD \<le> 11 / 2"
  "27 / 4 \<le> LATENCY_WFD_TO_BT" "LATENCY_WFD_TO_BT \<le> 55 / 8"
proof -
  have e: "fl32 (of_int c / 2 ^ 3) = of_int c / 2 ^ 3" if "\<bar>c\<bar> < 100" for c :: int
    using that by (intro fl32_exact_frac) simp_all
  show "21 / 4 \<le> LATENCY_BT_TO_WFD" "LATENCY_BT_TO_WFD \<le> 11 / 2"
    using e [of 42] e [of 44] fl32_mono [of "42 / 2 ^ 3" "54015 / 10000"] fl32_mono [of "54015 / 10000" "44 / 2 ^ 3"]
    by (simp_all add: LATENCY_BT_TO_WFD_def)
  show "27 / 4 \<le> LATENCY_WFD_TO_BT" "LATENCY_WFD_TO_BT \<le> 55 / 8"
    using e [of 54] e [of 55] fl32_mono [of "54 / 2 ^ 3" "68679 / 10000"] fl32_mono [of "68679 / 10000" "55 / 2 ^ 3"]
    by (simp_all add: LATENCY_WFD_TO_BT_def)
qed

lemma latency_step:
  assumes "of_int a / 8 - of_nat k \<le> x" "x \<le> of_int b / 8 - of_nat k" "\<bar>a\<bar> < 100" "\<bar>b\<bar> < 100" "k \<le> 60"
  shows "of_int a / 8 - of_nat (Suc k) \<le> fl32 (x - 1)" "fl32 (x - 1) \<le> of_int b / 8 - of_nat (Suc k)"
  using fl32_minus_one [of "a - 8 * int k" x "b - 8 * int k"] assms by (simp_all add: field_simps)

lemma bw_switch_phase:
  assumes "sc \<in> {1, 2, 3, 4}" "bw_phase sc k s"
  shows "bw_phase sc (Suc k) (bw_switch s)"
    "present_adapter_id (bw_switch s) \<in> {1, 2, 3, 4}"
    "max_bw (present_adapter_id (bw_switch s)) = slot_limit sc k"
    "remainder_data_size (bw_switch s) = remainder_data_size s" "bandwidth_seq (bw_switch s) = bandwidth_seq s"
proof -
  note d = bw_phase_def bw_switch_def Let_def adapter_ids max_bw_def slot_limit_def
  have "bw_phase sc (Suc k) (bw_switch s) \<and> present_adapter_id (bw_switch s) \<in> {1, 2, 3, 4}
    \<and> max_bw (present_adapter_id (bw_switch s)) = slot_limit sc k"
  proof -
    consider "sc = 1 \<or> sc = 2" | "sc = 3" "k \<le> 4" | "sc = 3" "k = 5" | "sc = 3" "6 \<le> k"
      | "sc = 4" "k \<le> 5" | "sc = 4" "k = 6" | "sc = 4" "7 \<le> k"
      using assms(1) by force
    then show ?thesis
    proof cases
      case 1
      then show ?thesis using assms(2) by (auto simp: d)
    next
      case 2
      then have l: "of_int 42 / 8 - of_nat k \<le> remain_switch_latency s" "remain_switch_latency s \<le> of_int 44 / 8 - of_nat k"
        using assms(2) by (simp_all add: bw_phase_def)
      have "of_nat k \<le> (4::rat)" using 2 by simp
      with latency_step [OF l] 2 assms(2) show ?thesis by (simp add: d)
    next
      case 3
      then have l: "of_int 42 / 8 - of_nat k \<le> remain_switch_latency s" "remain_switch_latency s \<le> of_int 44 / 8 - of_nat k"
        using assms(2) by (simp_all add: bw_phase_def)
      with latency_step [OF l] 3 assms(2) show ?thesis by (simp add: d)
    next
      case 4
      then show ?thesis using assms(2) by (cases "k = 6") (auto simp: d)
    next
      case 5
      then have l: "of_int 54 / 8 - of_nat k \<le> remain_switch_latency s" "remain_switch_latency s \<le> of_int 55 / 8 - of_nat k"
        using assms(2) by (simp_all add: bw_phase_def)
      have "of_nat k \<le> (5::rat)" using 5 by simp
      with latency_step [OF l] 5 assms(2) show ?thesis by (simp add: d)
    next
      case 6
      then have l: "of_int 54 / 8 - of_nat k \<le> remain_switch_latency s" "remain_switch_latency s \<le> of_int 55 / 8 - of_nat k"
        using assms(2) by (simp_all add: bw_phase_def)
      with latency_step [OF l] 6 assms(2) show ?thesis by (simp add: d)
    next
      case 7
      then show ?thesis using assms(2) by (auto simp: d)
    qed
  qed
  then show "bw_phase sc (Suc k) (bw_switch s)" "present_adapter_id (bw_switch s) \<in> {1, 2, 3, 4}"
    "max_bw (present_adapter_id (bw_switch s)) = slot_limit sc k" by blast+
  show "remainder_data_size (bw_switch s) = remainder_data_size s" "bandwidth_seq (bw_switch s) = bandwidth_seq s"
    by (simp_all add: bw_switch_def Let_def)
qed

section \<open>The bandwidth sequence\<close>

text \<open>Everything that came in and is not in the sequence is in the remainder.\<close>

definition bw_inv :: "int \<Rightarrow> int \<Rightarrow> bw_state \<Rightarrow> bool" where
  "bw_inv sc amount s \<longleftrightarrow>
     bw_phase sc (length (bandwidth_seq s)) s \<and> 0 \<le> sint (remainder_data_size s)
     \<and> sum_list (map sint (bandwidth_seq s)) + sint (remainder_data_size s) = amount
     \<and> (\<forall>i<length (bandwidth_seq s). 0 \<le> sint (bandwidth_seq s ! i) \<and> sint (bandwidth_seq s ! i) \<le> slot_limit sc i)"

lemma sum_nonneg_list: "(\<And>i. i < length xs \<Longrightarrow> 0 \<le> f (xs ! i)) \<Longrightarrow> 0 \<le> (sum_list (map f xs) :: int)"
  by (intro sum_list_nonneg) (auto simp: in_set_conv_nth)

lemma bw_step_inv:
  assumes sc: "sc \<in> {1, 2, 3, 4}" and inv: "bw_inv sc amount s" and t: "0 \<le> sint traffic"
    and small: "amount + sint traffic < 2147483648"
  shows "\<exists>s'. bw_step traffic s = Inr s' \<and> bw_inv sc (amount + sint traffic) s'
    \<and> length (bandwidth_seq s') = Suc (length (bandwidth_seq s))"
proof -
  let ?k = "length (bandwidth_seq s)" and ?s1 = "bw_switch s"
  have i: "bw_phase sc ?k s" "0 \<le> sint (remainder_data_size s)"
    "sum_list (map sint (bandwidth_seq s)) + sint (remainder_data_size s) = amount"
    "\<forall>i<?k. 0 \<le> sint (bandwidth_seq s ! i) \<and> sint (bandwidth_seq s ! i) \<le> slot_limit sc i"
    using inv by (simp_all add: bw_inv_def)
  note p = bw_switch_phase [OF sc i(1)]
  have "0 \<le> sum_list (map sint (bandwidth_seq s))" using i(4) by (intro sum_nonneg_list) simp
  then have dp: "sint (remainder_data_size ?s1 + traffic) = sint (remainder_data_size s) + sint traffic"
    unfolding p(4) using i(2,3) t small by (intro sint_add_small) simp_all
  then have "0 \<le> sint (remainder_data_size ?s1 + traffic)" using i(2) t by simp
  from bw_slot_ok [OF p(2) this] obtain b r where
    b: "bw_slot (remainder_data_size ?s1 + traffic) ?s1
          = Inr (?s1\<lparr>remainder_data_size := r, bandwidth_seq := bandwidth_seq ?s1 @ [b]\<rparr>)"
      "sint b = min (sint (remainder_data_size s) + sint traffic) (slot_limit sc ?k)"
      "sint r = sint (remainder_data_size s) + sint traffic - sint b"
    unfolding dp p(3) by blast
  let ?s' = "?s1\<lparr>remainder_data_size := r, bandwidth_seq := bandwidth_seq s @ [b]\<rparr>"
  have nb: "0 \<le> sint b" "sint b \<le> slot_limit sc ?k" using b(2) i(2) t by (auto simp: slot_limit_def)
  have "bw_inv sc (amount + sint traffic) ?s'"
    using p(1) i nb b(2,3) by (auto simp: bw_inv_def bw_phase_def nth_append less_Suc_eq)
  then show ?thesis using b(1) by (simp add: bw_step_def Let_def p(5))
qed

lemma bw_window_inv:
  assumes "sc \<in> {1, 2, 3, 4}" "bw_inv sc amount s" "\<forall>t\<in>set ts. 0 \<le> sint t"
    and "amount + sum_list (map sint ts) < 2147483648"
  shows "\<exists>s'. fold_ok bw_step ts s = Inr s' \<and> bw_inv sc (amount + sum_list (map sint ts)) s'
    \<and> length (bandwidth_seq s') = length (bandwidth_seq s) + length ts"
  using assms(2-4)
proof (induction ts arbitrary: s amount)
  case (Cons t ts)
  have nn: "0 \<le> sum_list (map sint ts)" using Cons.prems(2) by (intro sum_list_nonneg) auto
  obtain s1 where s1: "bw_step t s = Inr s1" "bw_inv sc (amount + sint t) s1"
    "length (bandwidth_seq s1) = Suc (length (bandwidth_seq s))"
    using bw_step_inv [OF assms(1) Cons.prems(1), of t] Cons.prems(2,3) nn by auto
  from Cons.IH [OF s1(2)] Cons.prems(2,3) s1(1,3) show ?case by (simp add: ac_simps)
qed simp

text \<open>The slots after the window: each takes at least one byte, so there are finitely many.\<close>

lemma extra_slots_end:
  assumes a: "present_adapter_id s \<in> {1, 2, 3, 4}" and r: "0 \<le> sint (remainder_data_size s)"
  shows "\<exists>bs. extra_slots s = Some (Inr (s\<lparr>remainder_data_size := 0, bandwidth_seq := bandwidth_seq s @ bs\<rparr>))
    \<and> sum_list (map sint bs) = sint (remainder_data_size s)
    \<and> (\<forall>b\<in>set bs. 0 < sint b \<and> sint b \<le> max_bw (present_adapter_id s))"
  using assms
proof (induction "nat (sint (remainder_data_size s))" arbitrary: s rule: less_induct)
  case less
  let ?r = "remainder_data_size s"
  show ?case
  proof (cases "sint ?r = 0")
    case True
    then have "?r = 0" by (simp add: signed_eq_0_iff)
    with True show ?thesis
      by (subst extra_slots.simps) (intro exI [of _ "[]"], simp)
  next
    case False
    then have pos: "0 < sint ?r" using less.prems(2) by simp
    obtain b r where b: "bw_slot ?r s = Inr (s\<lparr>remainder_data_size := r, bandwidth_seq := bandwidth_seq s @ [b]\<rparr>)"
      "sint b = min (sint ?r) (max_bw (present_adapter_id s))" "sint r = sint ?r - sint b"
      using bw_slot_ok [OF less.prems] by blast
    let ?s1 = "s\<lparr>remainder_data_size := r, bandwidth_seq := bandwidth_seq s @ [b]\<rparr>"
    have bp: "0 < sint b" "sint b \<le> max_bw (present_adapter_id s)" "0 \<le> sint r" "sint r < sint ?r"
      using b(2,3) pos max_bw_bounds(1) [of "present_adapter_id s"] by auto
    have "nat (sint (remainder_data_size ?s1)) < nat (sint ?r)" "present_adapter_id ?s1 \<in> {1, 2, 3, 4}"
      "0 \<le> sint (remainder_data_size ?s1)"
      using bp pos less.prems(1) by simp_all
    from less.hyps [OF this] obtain bs where bs:
      "extra_slots ?s1 = Some (Inr (?s1\<lparr>remainder_data_size := 0, bandwidth_seq := bandwidth_seq ?s1 @ bs\<rparr>))"
      "sum_list (map sint bs) = sint r" "\<forall>b\<in>set bs. 0 < sint b \<and> sint b \<le> max_bw (present_adapter_id s)"
      by auto
    have "extra_slots s = extra_slots ?s1" using pos b(1) by (subst extra_slots.simps) simp
    with bs bp b(3) show ?thesis by (intro exI [of _ "b # bs"]) simp
  qed
qed

lemma initial_phase:
  assumes "sc \<in> {1, 2, 3, 4}" and q: "0 \<le> sint q"
  shows "getInitialAdapter sc = sc" and "bw_inv sc (sint q)
    \<lparr>present_adapter_id = sc, remain_switch_latency = getSwitchLatency sc, is_switching = getSwitchLatency sc > 0,
     remainder_data_size = q, is_delayed_switch = False, bandwidth_seq = []\<rparr>"
  using assms latency_bounds
  by (auto simp: getInitialAdapter_def bw_inv_def bw_phase_def getSwitchLatency_def adapter_ids)

lemma phase_limit:
  assumes "sc \<in> {1, 2, 3, 4}" "bw_phase sc k s"
  shows "present_adapter_id s \<in> {1, 2, 3, 4}" "12 \<le> k \<Longrightarrow> k \<le> i \<Longrightarrow> max_bw (present_adapter_id s) \<le> slot_limit sc i"
  using assms by (auto simp: bw_phase_def max_bw_def slot_limit_def split: if_splits)

lemma predicted_bandwidth:
  assumes sc: "sc \<in> {1, 2, 3, 4}" and q: "0 \<le> sint q" and ts: "\<forall>t\<in>set ts. 0 \<le> sint t"
    and small: "sint q + sum_list (map sint ts) < 2147483648"
  shows "\<exists>seq. predictBandwidthSeq q ts sc [] = Some (Inr (True, seq))
    \<and> sum_list (map sint seq) = sint q + sum_list (map sint ts) \<and> length ts \<le> length seq
    \<and> (\<forall>b\<in>set seq. 0 \<le> sint b \<and> sint b \<le> 3500000) \<and> (\<forall>b\<in>set (drop (length ts) seq). 0 < sint b)
    \<and> (12 \<le> length ts \<longrightarrow> (\<forall>i<length seq. sint (seq ! i) \<le> slot_limit sc i))"
proof -
  define s0 where "s0 = \<lparr>present_adapter_id = sc, remain_switch_latency = getSwitchLatency sc,
    is_switching = getSwitchLatency sc > 0, remainder_data_size = q, is_delayed_switch = False, bandwidth_seq = []\<rparr>"
  note ini = initial_phase [OF sc q, folded s0_def]
  obtain s where s: "fold_ok bw_step ts s0 = Inr s" "bw_inv sc (sint q + sum_list (map sint ts)) s"
    "length (bandwidth_seq s) = length ts"
    using bw_window_inv [OF sc ini(2) ts small] by (auto simp: s0_def)
  have i: "bw_phase sc (length ts) s" "0 \<le> sint (remainder_data_size s)"
    "sum_list (map sint (bandwidth_seq s)) + sint (remainder_data_size s) = sint q + sum_list (map sint ts)"
    "\<forall>i<length ts. 0 \<le> sint (bandwidth_seq s ! i) \<and> sint (bandwidth_seq s ! i) \<le> slot_limit sc i"
    using s(2,3) by (simp_all add: bw_inv_def)
  note lim = phase_limit [OF sc i(1)]
  obtain bs where bs: "extra_slots s = Some (Inr (s\<lparr>remainder_data_size := 0, bandwidth_seq := bandwidth_seq s @ bs\<rparr>))"
    "sum_list (map sint bs) = sint (remainder_data_size s)"
    "\<forall>b\<in>set bs. 0 < sint b \<and> sint b \<le> max_bw (present_adapter_id s)"
    using extra_slots_end [OF lim(1) i(2)] by blast
  let ?seq = "bandwidth_seq s @ bs"
  have "predictBandwidthSeq q ts sc [] = Some (Inr (True, ?seq))"
    using sc s(1) bs(1) ini(1) unfolding predictBandwidthSeq_def s0_def by auto
  moreover have "sum_list (map sint ?seq) = sint q + sum_list (map sint ts)" using i(3) bs(2) by simp
  moreover have "0 \<le> sint b \<and> sint b \<le> 3500000" if "b \<in> set ?seq" for b
  proof (cases "b \<in> set bs")
    case True
    then show ?thesis using bs(3) max_bw_bounds(2) [of "present_adapter_id s"] by fastforce
  next
    case False
    with that obtain j where j: "j < length ts" "b = bandwidth_seq s ! j" using s(3) by (auto simp: in_set_conv_nth)
    have "slot_limit sc j \<le> 3500000" by (simp add: slot_limit_def)
    with i(4) j show ?thesis by force
  qed
  moreover have "\<forall>b\<in>set (drop (length ts) ?seq). 0 < sint b" using bs(3) s(3) by simp
  moreover have "12 \<le> length ts \<longrightarrow> (\<forall>i<length ?seq. sint (?seq ! i) \<le> slot_limit sc i)"
  proof (intro impI allI)
    fix j assume l: "12 \<le> length ts" and j: "j < length ?seq"
    show "sint (?seq ! j) \<le> slot_limit sc j"
    proof (cases "j < length ts")
      case True
      then show ?thesis using i(4) s(3) by (simp add: nth_append)
    next
      case False
      then have "bs ! (j - length ts) \<in> set bs" "?seq ! j = bs ! (j - length ts)"
        using j s(3) by (auto simp: nth_append)
      then show ?thesis using bs(3) lim(2) [OF l, of j] False by force
    qed
  qed
  ultimately show ?thesis using s(3) by (intro exI [of _ ?seq]) simp
qed

text \<open>
  C36: the bandwidth prediction ends and loses no byte. For a queue and a traffic forecast that are not
  negative and together fit in an int, in each of the four scenarios, it returns a sequence whose sum is
  the queued data plus the forecast traffic, with at least one slot per second of the forecast,
  each between 0 and 3500000 bytes; the slots added after the forecast are never empty.
\<close>

theorem bandwidth_prediction_conserves:
  assumes "sc \<in> {SCENARIO_BT, SCENARIO_WFD, SCENARIO_BT_TO_WFD, SCENARIO_WFD_TO_BT}"
    and "0 \<le> sint q" "\<forall>t\<in>set ts. 0 \<le> sint t" "sint q + sum_list (map sint ts) < 2147483648"
  shows "\<exists>seq. predictBandwidthSeq q ts sc [] = Some (Inr (True, seq))
    \<and> sum_list (map sint seq) = sint q + sum_list (map sint ts) \<and> length ts \<le> length seq
    \<and> (\<forall>b\<in>set seq. 0 \<le> sint b \<and> sint b \<le> 3500000) \<and> (\<forall>b\<in>set (drop (length ts) seq). 0 < sint b)"
  using predicted_bandwidth [OF _ assms(2-4), of sc] assms(1) unfolding adapter_ids by blast

theorem bandwidth_prediction_conserves_witness:
  "\<exists>seq. predictBandwidthSeq 200000 [100000, 0, 0] SCENARIO_BT_TO_WFD [] = Some (Inr (True, seq))
    \<and> sum_list (map sint seq) = 300000 \<and> 3 \<le> length seq"
proof -
  have "SCENARIO_BT_TO_WFD \<in> {SCENARIO_BT, SCENARIO_WFD, SCENARIO_BT_TO_WFD, SCENARIO_WFD_TO_BT}"
    "0 \<le> sint (200000::i32)" "\<forall>t\<in>set [100000, 0, 0 :: i32]. 0 \<le> sint t"
    "sint (200000::i32) + sum_list (map sint [100000, 0, 0 :: i32]) < 2147483648"
    by simp_all
  from bandwidth_prediction_conserves [OF this] show ?thesis by auto
qed

section \<open>The power is positive where it is used\<close>

lemma fl32_ge:
  assumes "\<bar>n\<bar> < 16777216" "k \<le> 149" "of_int n / 2 ^ k \<le> x"
  shows "of_int n / 2 ^ k \<le> fl32 x"
  using fl32_mono [OF assms(3)] unfolding fl32_exact_frac [OF assms(1,2)] .

lemma fl32_le:
  assumes "\<bar>n\<bar> < 16777216" "k \<le> 149" "x \<le> of_int n / 2 ^ k"
  shows "fl32 x \<le> of_int n / 2 ^ k"
  using fl32_mono [OF assms(3)] unfolding fl32_exact_frac [OF assms(1,2)] .

text \<open>
  The polynomial in rounded arithmetic, from below: \<open>ca\<close>, \<open>cb\<close> bound the first two coefficients, \<open>cc\<close> the
  absolute value of the third, and \<open>lo\<close>, \<open>hi\<close> the bandwidth, all dyadic.
\<close>

lemma polynomial_lower:
  assumes b: "b0 \<ge> of_int ca" "b1 \<ge> of_int cb / 2 ^ 8" "0 \<le> cb" "b2 \<ge> - (of_int cc / 2 ^ k)" "0 \<le> cc"
    and x: "of_int lo \<le> x" "x \<le> of_int hi" "0 \<le> lo"
    and f: "cb * lo < 16777216" "cc * hi < 16777216" "cc * hi * hi < 16777216" "k \<le> 149"
      "\<bar>ca * 2 ^ 8 + cb * lo\<bar> < 16777216"
    and pos: "of_int (cc * hi * hi) / 2 ^ k \<le> (of_int (ca * 2 ^ 8 + cb * lo) / 2 ^ 8 :: rat)"
  shows "0 \<le> fl32 (fl32 (b0 + fl32 (b1 * x)) + fl32 (fl32 (b2 * x) * x))"
proof -
  have x0: "0 \<le> x" using x(1,3) by (metis of_int_0_le_iff order_trans)
  have "of_int (cb * lo) / 2 ^ 8 = (of_int cb / 2 ^ 8) * (of_int lo :: rat)" by simp
  also have "\<dots> \<le> b1 * x" using b(2,3) x by (intro mult_mono) auto
  finally have "of_int (cb * lo) / 2 ^ 8 \<le> fl32 (b1 * x)" using f(1) b(3) x(3) by (intro fl32_ge) auto
  then have "of_int (ca * 2 ^ 8 + cb * lo) / 2 ^ 8 \<le> b0 + fl32 (b1 * x)"
    using b(1) by (simp add: add_divide_distrib)
  then have p: "of_int (ca * 2 ^ 8 + cb * lo) / 2 ^ 8 \<le> fl32 (b0 + fl32 (b1 * x))"
    using f(5) by (intro fl32_ge) auto
  have "- b2 * x \<le> of_int cc / 2 ^ k * of_int hi"
    using b(4,5) x(2) x0 by (intro mult_mono) auto
  then have "of_int (- (cc * hi)) / 2 ^ k \<le> b2 * x" by simp
  moreover have hi: "0 \<le> hi" using x0 x(2) by (metis of_int_0_le_iff order_trans)
  ultimately have t: "of_int (- (cc * hi)) / 2 ^ k \<le> fl32 (b2 * x)"
    using f(2,4) b(5) by (intro fl32_ge) auto
  then have "- fl32 (b2 * x) * x \<le> of_int (cc * hi) / 2 ^ k * of_int hi"
    using x(2) x0 b(5) hi by (intro mult_mono) auto
  then have "of_int (- (cc * hi * hi)) / 2 ^ k \<le> fl32 (b2 * x) * x" by simp
  then have "of_int (- (cc * hi * hi)) / 2 ^ k \<le> fl32 (fl32 (b2 * x) * x)"
    using f(3,4) b(5) hi by (intro fl32_ge) auto
  with p pos show ?thesis by (intro fl32_nonneg) simp
qed

lemma fl32_coefficient:
  assumes "of_int n / 2 ^ k \<le> c" "\<bar>n\<bar> < 16777216" "k \<le> 149"
  shows "of_int n / 2 ^ k \<le> fl32 c"
  using assms by (intro fl32_ge)

lemma bw_kb_bounds:
  assumes "1000 * lo \<le> sint b" "sint b \<le> 1000 * hi" "0 \<le> lo" "hi \<le> 3500"
  shows "of_int lo \<le> fl32 (fl32 (of_int (sint b)) / 1000)" "fl32 (fl32 (of_int (sint b)) / 1000) \<le> of_int hi"
proof -
  have e: "fl32 (of_int (sint b)) = of_int (sint b)" using assms by (intro fl32_exact) simp
  have "of_int (1000 * lo) \<le> (of_int (sint b) :: rat)" "of_int (sint b) \<le> (of_int (1000 * hi) :: rat)"
    using assms(1,2) by (simp_all only: of_int_le_iff)
  then have "of_int lo / 2 ^ 0 \<le> (of_int (sint b) / 1000 :: rat)" "of_int (sint b) / 1000 \<le> (of_int hi / 2 ^ 0 :: rat)"
    by simp_all
  then have "of_int lo / 2 ^ 0 \<le> fl32 (of_int (sint b) / 1000)" "fl32 (of_int (sint b) / 1000) \<le> of_int hi / 2 ^ 0"
    using assms by (intro fl32_ge fl32_le; simp)+
  then show "of_int lo \<le> fl32 (fl32 (of_int (sint b)) / 1000)" "fl32 (fl32 (of_int (sint b)) / 1000) \<le> of_int hi"
    unfolding e by simp_all
qed

lemma model_power_nonneg:
  assumes m: "power_model a = Some (b0, b1, b2)"
    and b: "of_int ca \<le> b0" "of_int cb / 2 ^ 8 \<le> b1" "0 \<le> cb" "- (of_int cc / 2 ^ k) \<le> b2" "0 \<le> cc"
    and x: "1000 * lo \<le> sint w" "sint w \<le> 1000 * hi" "0 \<le> lo" "hi \<le> 3500"
    and f: "cb * lo < 16777216" "cc * hi < 16777216" "cc * hi * hi < 16777216" "k \<le> 149"
      "\<bar>ca * 2 ^ 8 + cb * lo\<bar> < 16777216"
      "of_int (cc * hi * hi) / 2 ^ k \<le> (of_int (ca * 2 ^ 8 + cb * lo) / 2 ^ 8 :: rat)"
  shows "0 \<le> getPower w a"
  unfolding getPower_def Let_def m option.case prod.case
  by (rule polynomial_lower [OF b bw_kb_bounds [OF x] x(3) f])

lemma getPower_nonneg:
  assumes "a \<in> {1, 2, 3, 4}" "0 \<le> sint w" "sint w \<le> max_bw a"
  shows "0 \<le> getPower w a"
proof -
  note pm = power_model_def adapter_ids
  consider "a = 1" | "a = 2" | "a = 3" | "a = 4" "sint w \<le> 1000000" | "a = 4" "1000000 \<le> sint w"
    using assms(1) by force
  then show ?thesis
  proof cases
    case 1
    have "of_int 20 / 2 ^ 0 \<le> fl32 (2056 / 100)" "of_int 449 / 2 ^ 8 \<le> fl32 (1756 / 1000)"
      "of_int (- 1) / 2 ^ 9 \<le> fl32 (- (1641 / 1000000))"
      by (rule fl32_coefficient; simp)+
    then show ?thesis using 1 assms(2,3)
      by (intro model_power_nonneg [where ca = 20 and cb = 449 and cc = 1 and k = 9 and lo = 0 and hi = 75])
         (simp_all add: pm max_bw_def, linarith+)
  next
    case 2
    have "of_int 143 / 2 ^ 0 \<le> fl32 (1438 / 10)" "of_int 50 / 2 ^ 8 \<le> fl32 (1964 / 10000)"
      "of_int (- 1) / 2 ^ 17 \<le> fl32 (- (6769 / 1000000000))"
      by (rule fl32_coefficient; simp)+
    then show ?thesis using 2 assms(2,3)
      by (intro model_power_nonneg [where ca = 143 and cb = 50 and cc = 1 and k = 17 and lo = 0 and hi = 3500])
         (simp_all add: pm max_bw_def, linarith+)
  next
    case 3
    have "of_int 217 / 2 ^ 0 \<le> fl32 (2177 / 10)" "of_int 1134 / 2 ^ 8 \<le> fl32 (4433 / 1000)"
      "of_int (- 3) / 2 ^ 7 \<le> fl32 (- (2262 / 100000))"
      by (rule fl32_coefficient; simp)+
    then show ?thesis using 3 assms(2,3)
      by (intro model_power_nonneg [where ca = 217 and cb = 1134 and cc = 3 and k = 7 and lo = 0 and hi = 75])
         (simp_all add: pm max_bw_def, linarith+)
  next
    case 4
    have "of_int 203 / 2 ^ 0 \<le> fl32 (2033 / 10)" "of_int 47 / 2 ^ 8 \<le> fl32 (1869 / 10000)"
      "of_int (- 1) / 2 ^ 15 \<le> fl32 (- (1695 / 100000000))"
      by (rule fl32_coefficient; simp)+
    then show ?thesis using 4 assms(2,3)
      by (intro model_power_nonneg [where ca = 203 and cb = 47 and cc = 1 and k = 15 and lo = 0 and hi = 1000])
         (simp_all add: pm max_bw_def, linarith+)
  next
    case 5
    have "of_int 203 / 2 ^ 0 \<le> fl32 (2033 / 10)" "of_int 47 / 2 ^ 8 \<le> fl32 (1869 / 10000)"
      "of_int (- 1) / 2 ^ 15 \<le> fl32 (- (1695 / 100000000))"
      by (rule fl32_coefficient; simp)+
    then show ?thesis using 5 assms(2,3)
      by (intro model_power_nonneg [where ca = 203 and cb = 47 and cc = 1 and k = 15 and lo = 1000 and hi = 3500])
         (simp_all add: pm max_bw_def, linarith+)
  qed
qed

section \<open>The energy of a window\<close>

text \<open>What the energy simulation knows before slot \<open>k\<close>.\<close>

definition energy_phase :: "int \<Rightarrow> nat \<Rightarrow> energy_state \<Rightarrow> bool" where
  "energy_phase sc k s \<longleftrightarrow> 0 \<le> total_energy s \<and>
     (if sc = 1 \<or> sc = 2 then present_adapter_id s = sc \<and> \<not> is_switching s \<and> \<not> is_switch_back s
      else if sc = 3 then
        (if k \<le> 5 then present_adapter_id s = 3 \<and> is_switching s \<and> is_switch_back s
           \<and> 21 / 4 - of_nat k \<le> remain_switch_latency s \<and> remain_switch_latency s \<le> 11 / 2 - of_nat k
           \<and> 41 / 8 - of_nat k \<le> remain_switch_back_start s \<and> remain_switch_back_start s \<le> 90 - of_nat k
         else (present_adapter_id s = 2 \<or> present_adapter_id s = 4) \<and> \<not> is_switching s)
      else \<not> is_switch_back s \<and>
        (if k \<le> 6 then present_adapter_id s = 4 \<and> is_switching s
           \<and> 27 / 4 - of_nat k \<le> remain_switch_latency s \<and> remain_switch_latency s \<le> 55 / 8 - of_nat k
         else present_adapter_id s = 1 \<and> \<not> is_switching s))"

lemma energy_phase_power:
  assumes "sc \<in> {1, 2, 3, 4}" "energy_phase sc k s" "0 \<le> sint b" "sint b \<le> slot_limit sc k"
  shows "0 \<le> getPower b (present_adapter_id s)"
proof (rule getPower_nonneg)
  show "present_adapter_id s \<in> {1, 2, 3, 4}" "sint b \<le> max_bw (present_adapter_id s)"
    using assms by (auto simp: energy_phase_def slot_limit_def max_bw_def split: if_splits)
qed (rule assms(3))

lemma back_start_step:
  assumes "41 / 8 - of_nat k \<le> x" "x \<le> 90 - of_nat k" "k \<le> 60"
  shows "41 / 8 - of_nat (Suc k) \<le> fl32 (x - 1)" "fl32 (x - 1) \<le> 90 - of_nat (Suc k)"
proof -
  have n: "\<bar>41 - 8 * int k\<bar> < 1000" "\<bar>720 - 8 * int k\<bar> < 1000" using assms(3) by simp_all
  have x: "of_int (41 - 8 * int k) / 8 \<le> x" "x \<le> of_int (720 - 8 * int k) / 8"
    using assms(1,2) by (simp_all add: field_simps)
  show "41 / 8 - of_nat (Suc k) \<le> fl32 (x - 1)" "fl32 (x - 1) \<le> 90 - of_nat (Suc k)"
    using fl32_minus_one [OF x n] by (simp_all add: field_simps)
qed

lemma energy_phase_step:
  assumes sc: "sc \<in> {1, 2, 3, 4}" and ph: "energy_phase sc k s" and p: "0 \<le> p" and k: "k < 60"
  shows "energy_phase sc (Suc k) ((energy_switch_back (energy_switch s))
    \<lparr>total_energy := fl32 (total_energy (energy_switch_back (energy_switch s)) + p)\<rparr>)"
proof -
  note d = energy_phase_def energy_switch_def energy_switch_back_def Let_def adapter_ids
  have tot: "total_energy (energy_switch_back (energy_switch s)) = total_energy s"
    by (simp add: energy_switch_def energy_switch_back_def Let_def)
  have tn: "0 \<le> fl32 (total_energy s + p)" using ph p by (intro fl32_nonneg) (simp add: energy_phase_def)
  consider "sc = 1 \<or> sc = 2" | "sc = 3" "k \<le> 5" | "sc = 3" "6 \<le> k" | "sc = 4" "k \<le> 6" | "sc = 4" "7 \<le> k"
    using sc by force
  then show ?thesis
  proof cases
    case 1
    then show ?thesis using ph tn unfolding tot by (auto simp: d)
  next
    case 2
    then have l: "of_int 42 / 8 - of_nat k \<le> remain_switch_latency s" "remain_switch_latency s \<le> of_int 44 / 8 - of_nat k"
      and b: "41 / 8 - of_nat k \<le> remain_switch_back_start s" "remain_switch_back_start s \<le> 90 - of_nat k"
      and s: "present_adapter_id s = 3" "is_switching s" "is_switch_back s"
      using ph by (simp_all add: energy_phase_def)
    note l1 = latency_step [OF l] and b1 = back_start_step [OF b]
    show ?thesis
    proof (cases "k \<le> 4")
      case True
      then have "of_nat k \<le> (4::rat)" by simp
      then show ?thesis using l1 b1 2 s True tn unfolding tot by (simp add: d)
    next
      case False
      then have "k = 5" using 2 by simp
      then show ?thesis using l1 b1 2 s tn unfolding tot by (simp add: d)
    qed
  next
    case 3
    then show ?thesis using ph tn unfolding tot by (auto simp: d)
  next
    case 4
    then have l: "of_int 54 / 8 - of_nat k \<le> remain_switch_latency s" "remain_switch_latency s \<le> of_int 55 / 8 - of_nat k"
      and s: "present_adapter_id s = 4" "is_switching s" "\<not> is_switch_back s"
      using ph by (simp_all add: energy_phase_def)
    note l1 = latency_step [OF l]
    show ?thesis
    proof (cases "k \<le> 5")
      case True
      then have "of_nat k \<le> (5::rat)" by simp
      then show ?thesis using l1 4 s True tn unfolding tot by (simp add: d)
    next
      case False
      then have "k = 6" using 4 by simp
      then show ?thesis using l1 4 s tn unfolding tot by (simp add: d)
    qed
  next
    case 5
    then show ?thesis using ph tn unfolding tot by (auto simp: d)
  qed
qed

lemma energy_loop_nonneg:
  assumes sc: "sc \<in> {1, 2, 3, 4}" and "energy_phase sc k s" "k + length bs \<le> 60"
    and "\<forall>i<length bs. 0 \<le> sint (bs ! i) \<and> sint (bs ! i) \<le> slot_limit sc (k + i)"
  shows "0 \<le> energy_loop bs s"
  using assms(2-4)
proof (induction bs arbitrary: k s)
  case (Cons b bs)
  have b: "0 \<le> sint b" "sint b \<le> slot_limit sc k" using Cons.prems(3) by (auto dest: spec [of _ 0])
  note p = energy_phase_power [OF sc Cons.prems(1) b]
  have "k < 60" using Cons.prems(2) by simp
  note st = energy_phase_step [OF sc Cons.prems(1) p this]
  have "\<forall>i<length bs. 0 \<le> sint (bs ! i) \<and> sint (bs ! i) \<le> slot_limit sc (Suc k + i)"
    using Cons.prems(3) by (auto dest: spec [of _ "Suc _"])
  from Cons.IH [OF st _ this] Cons.prems(2) p show ?case by (simp add: Let_def)
qed simp

lemma energy_of_seq_nonneg:
  assumes sc: "sc \<in> {1, 2, 3, 4}" and n: "12 \<le> length seq"
    and b: "\<forall>i<length seq. 0 \<le> sint (seq ! i) \<and> sint (seq ! i) \<le> slot_limit sc i"
  shows "0 \<le> predictEnergyOfSeq seq sc"
proof (cases "length seq > 60")
  case True
  then show ?thesis using sc by (auto simp: predictEnergyOfSeq_def PREDICTION_WINDOW_SEC_def FLT_MAX_def
        getInitialAdapter_def adapter_ids)
next
  case False
  define s0 where "s0 = \<lparr>present_adapter_id = getInitialAdapter sc, remain_switch_latency = getSwitchLatency sc,
    is_switching = getSwitchLatency sc > 0, total_energy = 0,
    remain_switch_back_start = (if getSwitchBackLatency sc > 0
      then fl32 (fl32 (of_nat (length seq)) - getSwitchBackLatency sc) else - 1),
    is_switch_back = getSwitchBackLatency sc > 0\<rparr>"
  have e: "fl32 (of_nat (length seq)) = of_nat (length seq)"
    using fl32_exact [of "int (length seq)"] False by simp
  have nr: "12 \<le> (of_nat (length seq) :: rat)" "of_nat (length seq) \<le> (60::rat)" using n False by simp_all
  have "of_int 41 / 2 ^ 3 \<le> fl32 (of_nat (length seq) - LATENCY_WFD_TO_BT)"
    "fl32 (of_nat (length seq) - LATENCY_WFD_TO_BT) \<le> of_int 90 / 2 ^ 0"
    using latency_bounds nr by (intro fl32_ge fl32_le; simp)+
  then have start: "41 / 8 \<le> fl32 (of_nat (length seq) - LATENCY_WFD_TO_BT)"
    "fl32 (of_nat (length seq) - LATENCY_WFD_TO_BT) \<le> 90" by simp_all
  have "energy_phase sc 0 s0"
    using sc latency_bounds start by (auto simp: s0_def energy_phase_def getInitialAdapter_def getSwitchLatency_def
        getSwitchBackLatency_def adapter_ids e)
  from energy_loop_nonneg [OF sc this, of seq] b False have "0 \<le> energy_loop seq s0" by simp
  then show ?thesis using sc False by (auto simp: predictEnergyOfSeq_def s0_def Let_def PREDICTION_WINDOW_SEC_def
        getInitialAdapter_def adapter_ids)
qed

text \<open>
  C37: the energy prediction succeeds. For a forecast of at least 12 seconds (the program's windows have
  30), with the inputs of the bandwidth prediction, it returns an energy that is not negative, and never
  the error value -1: in no slot is the regression model evaluated outside the range in
  which it is positive, although the two simulations follow the switch separately.
\<close>

theorem energy_prediction_succeeds:
  assumes "sc \<in> {SCENARIO_BT, SCENARIO_WFD, SCENARIO_BT_TO_WFD, SCENARIO_WFD_TO_BT}" "12 \<le> length ts"
    and "0 \<le> sint q" "\<forall>t\<in>set ts. 0 \<le> sint t" "sint q + sum_list (map sint ts) < 2147483648"
  shows "\<exists>e. predictEnergy q ts sc = Some (Inr e) \<and> 0 \<le> e"
proof -
  have sc: "sc \<in> {1, 2, 3, 4}" using assms(1) by (simp add: adapter_ids)
  obtain seq where seq: "predictBandwidthSeq q ts sc [] = Some (Inr (True, seq))" "length ts \<le> length seq"
    "\<forall>b\<in>set seq. 0 \<le> sint b" "\<forall>i<length seq. sint (seq ! i) \<le> slot_limit sc i"
    using predicted_bandwidth [OF sc assms(3-5)] assms(2) by blast
  have "0 \<le> predictEnergyOfSeq seq sc"
    using seq assms(2) by (intro energy_of_seq_nonneg [OF sc]) auto
  with seq(1) show ?thesis by (simp add: predictEnergy_def)
qed

theorem energy_prediction_succeeds_witness:
  "\<exists>e. predictEnergy 500000 (replicate 30 90000) SCENARIO_BT_TO_WFD = Some (Inr e) \<and> 0 \<le> e"
proof -
  have "SCENARIO_BT_TO_WFD \<in> {SCENARIO_BT, SCENARIO_WFD, SCENARIO_BT_TO_WFD, SCENARIO_WFD_TO_BT}"
    "12 \<le> length (replicate 30 (90000::i32))" "0 \<le> sint (500000::i32)"
    "\<forall>t\<in>set (replicate 30 (90000::i32)). 0 \<le> sint t"
    "sint (500000::i32) + sum_list (map sint (replicate 30 (90000::i32))) < 2147483648"
    by (simp_all add: sum_list_replicate)
  then show ?thesis by (rule energy_prediction_succeeds)
qed

end
