(* ===== verification/ControlMessage.thy ===== *)
theory ControlMessage
  imports Delivery TextNumbers
begin

text \<open>
  Control messages: the text format of \<open>ControlMessageSender\<close> and the parser of
  \<open>ControlMessageReceiver\<close> (linux/core/src), with \<open>find\<close> and \<open>substr\<close>. What a parsed message makes the other components do is in
  theory \<open>Switcher\<close>.
\<close>

section \<open>Lines\<close>

text \<open>
  \<open>pos = s.find('\n')\<close>, \<open>s.substr(0, pos)\<close> and \<open>s.substr(pos + 1)\<close>. Without a newline \<open>pos\<close> is the largest number,
  so that the first is the whole string and the second, from position 0, is the whole string too.
\<close>

definition split_line :: "string \<Rightarrow> string \<times> string" where
  "split_line s = (if nl \<in> set s then (takeWhile (\<lambda>c. c \<noteq> nl) s, tl (dropWhile (\<lambda>c. c \<noteq> nl) s)) else (s, s))"

section \<open>Messages\<close>

datatype cm_code =
    kCMCodeConnect | kCMCodeSleep | kCMCodeWakeUp | kCMCodeDisconnect | kCMCodePriv
  | kCMCodeDisconnectAck | kCMCodeRetransmit | kCMCodeQueueStatus

fun cm_number :: "cm_code \<Rightarrow> i32" where
  "cm_number kCMCodeConnect = 1"
| "cm_number kCMCodeSleep = 2"
| "cm_number kCMCodeWakeUp = 3"
| "cm_number kCMCodeDisconnect = 4"
| "cm_number kCMCodePriv = 10"
| "cm_number kCMCodeDisconnectAck = 24"
| "cm_number kCMCodeRetransmit = 30"
| "cm_number kCMCodeQueueStatus = 31"

datatype control_message =
    Normal cm_code i32
  | Disconnect i32 u32 u32
  | Priv i32 string
  | Retransmit i32 u32 u32
  | Queue_status u32 u32
  | Unknown i32

subsection \<open>The sender\<close>

text \<open>\<open>send_control_message\<close>: the text up to its first null character, padded with null characters.\<close>

definition message_buffer :: "string \<Rightarrow> u8 list" where
  "message_buffer message =
     (let c_str = takeWhile (\<lambda>c. c \<noteq> CHR 0x00) message
      in map of_char c_str @ replicate (length message + 1 - length c_str) 0)"

definition send_request :: "cm_code \<Rightarrow> i32 \<Rightarrow> string" where
  "send_request code adapter_id = int_to_string (cm_number code) @ [nl] @ int_to_string adapter_id"

definition send_request_disconnect :: "i32 \<Rightarrow> u32 \<Rightarrow> u32 \<Rightarrow> string" where
  "send_request_disconnect adapter_id final_seq_no_control final_seq_no_data =
     int_to_string (cm_number kCMCodeDisconnect) @ [nl] @ int_to_string adapter_id @ [nl]
     @ uint_to_string final_seq_no_control @ [nl] @ uint_to_string final_seq_no_data"

definition send_request_retransmit :: "i32 \<Rightarrow> i32 \<Rightarrow> u32 \<Rightarrow> u32 \<Rightarrow> string" where
  "send_request_retransmit adapter_id segment_type seq_no_start seq_no_end =
     int_to_string (cm_number kCMCodeRetransmit) @ [nl] @ int_to_string segment_type @ [nl]
     @ uint_to_string seq_no_start @ [nl] @ uint_to_string seq_no_end"

definition send_request_queue_status :: "u32 \<Rightarrow> u32 \<Rightarrow> string" where
  "send_request_queue_status last_seq_no_control last_seq_no_data =
     int_to_string (cm_number kCMCodeQueueStatus) @ [nl]
     @ uint_to_string last_seq_no_control @ [nl] @ uint_to_string last_seq_no_data"

definition send_noti_private_data :: "i32 \<Rightarrow> string \<Rightarrow> string" where
  "send_noti_private_data priv_type priv_data =
     int_to_string (cm_number kCMCodePriv) @ [nl] @ int_to_string priv_type @ [nl] @ priv_data"

definition send_control_message :: "string \<Rightarrow> int \<times> int \<Rightarrow> endpoint \<Rightarrow> fault + endpoint" where
  "send_control_message message now ep =
     and_then (core_send (message_buffer message) True now ep) (\<lambda>(res, ep1). Inr ep1)"

subsection \<open>The receiver\<close>

definition parse_three_lines :: "string \<Rightarrow> fault + i32 \<times> u32 \<times> u32" where
  "parse_three_lines other_lines =
     (case split_line other_lines of (second_line, third_fourth_line) \<Rightarrow>
      case split_line third_fourth_line of (third_line, fourth_line) \<Rightarrow>
        and_then (stoi second_line) (\<lambda>x. and_then (stoul third_line) (\<lambda>y.
        and_then (stoul fourth_line) (\<lambda>z. Inr (x, y, z)))))"

text \<open>
  \<open>on_receive_priv_message\<close>: the text handed to the listeners starts at the newline, and without one
  \<open>substr\<close> throws.
\<close>

definition parse_priv :: "string \<Rightarrow> fault + i32 \<times> string" where
  "parse_priv contents =
     (if nl \<notin> set contents then Inl Uncaught_exception
      else and_then (stoi (takeWhile (\<lambda>c. c \<noteq> nl) contents)) (\<lambda>priv_type.
           Inr (priv_type, dropWhile (\<lambda>c. c \<noteq> nl) contents)))"

definition parse_message :: "string \<Rightarrow> fault + control_message" where
  "parse_message message =
     (case split_line message of (first_line, other_lines) \<Rightarrow>
      and_then (stoi first_line) (\<lambda>control_message_code.
      if control_message_code = cm_number kCMCodeConnect then
        and_then (stoi other_lines) (\<lambda>i. Inr (Normal kCMCodeConnect i))
      else if control_message_code = cm_number kCMCodeSleep then
        and_then (stoi other_lines) (\<lambda>i. Inr (Normal kCMCodeSleep i))
      else if control_message_code = cm_number kCMCodeWakeUp then
        and_then (stoi other_lines) (\<lambda>i. Inr (Normal kCMCodeWakeUp i))
      else if control_message_code = cm_number kCMCodeDisconnectAck then
        and_then (stoi other_lines) (\<lambda>i. Inr (Normal kCMCodeDisconnectAck i))
      else if control_message_code = cm_number kCMCodeDisconnect then
        and_then (parse_three_lines other_lines) (\<lambda>(i, c, d). Inr (Disconnect i c d))
      else if control_message_code = cm_number kCMCodePriv then
        and_then (parse_priv other_lines) (\<lambda>(t, m). Inr (Priv t m))
      else if control_message_code = cm_number kCMCodeRetransmit then
        and_then (parse_three_lines other_lines) (\<lambda>(t, a, b). Inr (Retransmit t a b))
      else if control_message_code = cm_number kCMCodeQueueStatus then
        (case split_line other_lines of (second_line, third_line) \<Rightarrow>
          and_then (stoul second_line) (\<lambda>c. and_then (stoul third_line) (\<lambda>d. Inr (Queue_status c d))))
      else Inr (Unknown control_message_code)))"

text \<open>The received bytes are read as a C string; without a null byte the reading runs off the buffer.\<close>

definition parse_buffer :: "u8 list \<Rightarrow> fault + control_message" where
  "parse_buffer bytes =
     (if 0 \<in> set bytes then parse_message (map (\<lambda>b. char_of (unat b)) (takeWhile (\<lambda>b. b \<noteq> 0) bytes)) else Inl Out_of_bounds)"

section \<open>Reading back what was written\<close>

lemma split_line_first [simp]: "plain s \<Longrightarrow> split_line (s @ nl # rest) = (s, rest)"
proof -
  assume "plain s"
  then have n: "\<forall>c\<in>set s. c \<noteq> nl" by (auto simp: plain_def)
  then have "takeWhile (\<lambda>c. c \<noteq> nl) (s @ nl # rest) = s" "dropWhile (\<lambda>c. c \<noteq> nl) (s @ nl # rest) = nl # rest"
    by (simp_all add: takeWhile_append2 dropWhile_append2)
  then show ?thesis by (simp add: split_line_def)
qed

lemma split_lines_last [simp]:
  "parse_three_lines (int_to_string x @ nl # uint_to_string y @ nl # uint_to_string z) = Inr (x, y, z)"
  by (simp add: parse_three_lines_def read_back)

section \<open>The contract of a message format\<close>

text \<open>
  What a message format owes the transport: encoded messages fit into a packet, are not empty, and are
  read back. Then any list of messages crosses the transport.
\<close>

locale codec =
  fixes encode :: "'m \<Rightarrow> u8 list"
    and decode :: "u8 list \<Rightarrow> fault + 'm"
    and valid :: "'m \<Rightarrow> bool"
  assumes round_trip: "valid m \<Longrightarrow> decode (encode m) = Inr m"
    and fits: "valid m \<Longrightarrow> encode m \<noteq> [] \<and> length (encode m) \<le> 66042"
begin

definition decode_received :: "i32 \<times> u8 list option \<Rightarrow> fault + 'm" where
  "decode_received r = (case snd r of None \<Rightarrow> Inl Null_dereference | Some buf \<Rightarrow> decode buf)"

lemma delivered:
  assumes "\<forall>m\<in>set ms. valid m" "stream_size 0 (map encode ms) < 2 ^ 32 - 1"
  shows "\<exists>a. send_all (map encode ms) ctrl now (fresh_endpoint (counter_ctor p1 o1 t1 n1)) = Inr a
    \<and> (\<forall>as. mset (map fst as) = mset (mMainQueue (abs_queue (ep_sm a) (send_queue ctrl))) \<longrightarrow>
        (\<exists>b rs b'. receive_all as (fresh_endpoint (counter_ctor p2 o2 t2 n2)) = Inr b
          \<and> core_receive_n (length ms) ctrl b = Inr (rs, b') \<and> map decode_received rs = map Inr ms))"
proof -
  have f: "\<forall>x\<in>set (map encode ms). length x \<le> 66042" using assms(1) fits by auto
  have d: "decode_received (of_nat (length (encode m)), received (encode m)) = Inr m" if "m \<in> set ms" for m
  proof -
    have "valid m" using assms(1) that by blast
    then show ?thesis using round_trip fits by (simp add: decode_received_def received_def)
  qed
  obtain a where a: "send_all (map encode ms) ctrl now (fresh_endpoint (counter_ctor p1 o1 t1 n1)) = Inr a"
    "\<forall>as. mset (map fst as) = mset (mMainQueue (abs_queue (ep_sm a) (send_queue ctrl))) \<longrightarrow>
      (\<exists>b b'. receive_all as (fresh_endpoint (counter_ctor p2 o2 t2 n2)) = Inr b
        \<and> core_receive_n (length (map encode ms)) ctrl b
          = Inr (map (\<lambda>x. (of_nat (length x), received x)) (map encode ms), b'))"
    using stream_delivery [OF f assms(2), where ctrl = ctrl and now = now and ?p1.0 = p1 and ?o1.0 = o1
      and ?t1.0 = t1 and ?n1.0 = n1 and ?p2.0 = p2 and ?o2.0 = o2 and ?t2.0 = t2 and ?n2.0 = n2] by blast
  have "map decode_received (map (\<lambda>x. (of_nat (length x), received x)) (map encode ms)) = map Inr ms"
    using d by simp
  with a show ?thesis unfolding length_map by blast
qed

end

section \<open>The control messages\<close>

fun encode_text :: "control_message \<Rightarrow> string" where
  "encode_text (Normal code i) = send_request code i"
| "encode_text (Disconnect i c d) = send_request_disconnect i c d"
| "encode_text (Priv t m) = send_noti_private_data t m"
| "encode_text (Retransmit t a b) = send_request_retransmit 0 t a b"
| "encode_text (Queue_status c d) = send_request_queue_status c d"
| "encode_text (Unknown i) = int_to_string i"

text \<open>The messages the program sends, private data apart.\<close>

fun ordinary :: "control_message \<Rightarrow> bool" where
  "ordinary (Normal code i) \<longleftrightarrow> code \<in> {kCMCodeConnect, kCMCodeSleep, kCMCodeWakeUp, kCMCodeDisconnectAck}"
| "ordinary (Disconnect i c d) \<longleftrightarrow> True"
| "ordinary (Retransmit t a b) \<longleftrightarrow> True"
| "ordinary (Queue_status c d) \<longleftrightarrow> True"
| "ordinary _ \<longleftrightarrow> False"

lemma parse_encode_text: "ordinary m \<Longrightarrow> parse_message (encode_text m) = Inr m"
proof (cases m)
  case (Normal code i)
  moreover assume "ordinary m"
  ultimately show ?thesis
    by (auto simp: parse_message_def send_request_def read_back)
qed (auto simp: parse_message_def send_request_disconnect_def send_request_retransmit_def
    send_request_queue_status_def read_back)

lemma no_null_numbers [simp]: "CHR 0x00 \<notin> set (int_to_string w)" "CHR 0x00 \<notin> set (uint_to_string v)"
  using plain_numbers by (auto simp: plain_def)

lemma no_null_encode: "ordinary m \<Longrightarrow> CHR 0x00 \<notin> set (encode_text m)"
  by (cases m) (auto simp: send_request_def send_request_disconnect_def send_request_retransmit_def
      send_request_queue_status_def)

lemma unat_of_char: "unat (of_char c :: u8) = of_char c"
proof -
  have "(of_char c :: u8) = of_nat (of_char c)" by (rule of_nat_of_char [symmetric])
  moreover have "(of_char c :: nat) < 2 ^ LENGTH(8)" by simp
  ultimately show ?thesis by (simp add: unat_of_nat)
qed

lemma char_of_u8: "char_of (unat (of_char c :: u8)) = c"
  unfolding unat_of_char by simp

lemma u8_zero: "(of_char c :: u8) = 0 \<longleftrightarrow> c = CHR 0x00"
proof
  assume "(of_char c :: u8) = 0"
  then have "char_of (unat (of_char c :: u8)) = (char_of (0 :: nat) :: char)" by simp
  then show "c = CHR 0x00" unfolding char_of_u8 by (simp add: char_of_def)
qed simp

text \<open>A text without null characters crosses the buffer unchanged.\<close>

lemma message_buffer_plain:
  assumes "CHR 0x00 \<notin> set message"
  shows "message_buffer message = map of_char message @ [0]"
proof -
  have t: "takeWhile (\<lambda>c. c \<noteq> CHR 0x00) message = message"
    using assms by (auto simp: takeWhile_eq_all_conv)
  show ?thesis unfolding message_buffer_def Let_def t by simp
qed

lemma parse_message_buffer:
  assumes "CHR 0x00 \<notin> set message"
  shows "parse_buffer (message_buffer message) = parse_message message"
proof -
  note b = message_buffer_plain [OF assms]
  have "takeWhile (\<lambda>b. b \<noteq> (0::u8)) (map of_char message @ [0]) = map of_char message"
    using assms by (subst takeWhile_append2) (auto simp: u8_zero)
  moreover have "map (\<lambda>b. char_of (unat b)) (map (of_char :: char \<Rightarrow> u8) message) = message"
    by (simp add: comp_def char_of_u8)
  ultimately show ?thesis by (simp add: parse_buffer_def b)
qed

lemma length_digits: "n < 10 ^ Suc k \<Longrightarrow> length (digits n) \<le> Suc k"
proof (induction k arbitrary: n)
  case 0
  then show ?case by (subst digits.simps) simp
next
  case (Suc k)
  then have "n div 10 < 10 ^ Suc k" by (simp add: div_less_iff_less_mult)
  from Suc.IH [OF this] show ?case by (subst digits.simps) simp
qed

lemma length_numbers: "length (int_to_string w) \<le> 11" "length (uint_to_string v) \<le> 10"
proof -
  have "unat v < 2 ^ LENGTH(32)" by (rule unsigned_less)
  then show "length (uint_to_string v) \<le> 10"
    using length_digits [of "unat v" 9] by (simp add: uint_to_string_def)
  have r: "- (2 ^ 31) \<le> sint w" "sint w < 2 ^ 31"
    using sint_greater_eq [of w] sint_less [of w] by simp_all
  then have "nat (- sint w) < 10 ^ Suc 9" "nat (sint w) < 10 ^ Suc 9" by simp_all
  from this [THEN length_digits] show "length (int_to_string w) \<le> 11" by (simp add: int_to_string_def)
qed

lemma length_encode:
  assumes "ordinary m"
  shows "length (encode_text m) \<le> 60"
proof -
  note b = length_numbers(1) [of "cm_number kCMCodeDisconnect"] length_numbers(1) [of "cm_number kCMCodeRetransmit"]
    length_numbers(1) [of "cm_number kCMCodeQueueStatus"]
  show ?thesis
  proof (cases m)
    case (Normal c i)
    then show ?thesis using length_numbers(1) [of "cm_number c"] length_numbers(1) [of i] by (simp add: send_request_def)
  next
    case (Disconnect i c d)
    then show ?thesis
      using b length_numbers(1) [of i] length_numbers(2) [of c] length_numbers(2) [of d]
      by (simp add: send_request_disconnect_def)
  next
    case (Retransmit i c d)
    then show ?thesis
      using b length_numbers(1) [of i] length_numbers(2) [of c] length_numbers(2) [of d]
      by (simp add: send_request_retransmit_def)
  next
    case (Queue_status c d)
    then show ?thesis using b length_numbers(2) [of c] length_numbers(2) [of d]
      by (simp add: send_request_queue_status_def)
  qed (use assms in simp_all)
qed

definition encode_message :: "control_message \<Rightarrow> u8 list" where
  "encode_message m = message_buffer (encode_text m)"

interpretation cm: codec encode_message parse_buffer ordinary
proof
  fix m assume o: "ordinary m"
  show "parse_buffer (encode_message m) = Inr m"
    using parse_message_buffer [OF no_null_encode [OF o]] parse_encode_text [OF o] by (simp add: encode_message_def)
  have "encode_message m = map of_char (encode_text m) @ [0]"
    unfolding encode_message_def by (rule message_buffer_plain [OF no_null_encode [OF o]])
  with length_encode [OF o] show "encode_message m \<noteq> [] \<and> length (encode_message m) \<le> 66042" by simp
qed

section \<open>Properties\<close>

text \<open>What \<open>receiving_thread_loop_internal\<close> makes of one received buffer.\<close>

definition read_control :: "i32 \<times> u8 list option \<Rightarrow> fault + control_message" where
  "read_control r = (case snd r of None \<Rightarrow> Inl Null_dereference | Some buf \<Rightarrow> parse_buffer buf)"



text \<open>
  The text of private data reaches the listeners with the newline that separated it from its type
  still in front: \<open>on_receive_priv_message\<close> cuts at the separator and not behind it.
\<close>

lemma priv_data_keeps_newline:
  assumes "CHR 0x00 \<notin> set text"
  shows "parse_buffer (message_buffer (send_noti_private_data priv_type text)) = Inr (Priv priv_type (nl # text))"
proof -
  have n: "CHR 0x00 \<notin> set (send_noti_private_data priv_type text)"
    using assms by (simp add: send_noti_private_data_def)
  have p: "\<forall>c\<in>set (int_to_string priv_type). c \<noteq> nl" using plain_numbers(1) [of priv_type] by (auto simp: plain_def)
  have "parse_priv (int_to_string priv_type @ nl # text) = Inr (priv_type, nl # text)"
    using p by (simp add: parse_priv_def takeWhile_append2 dropWhile_append2 read_back)
  then show ?thesis
    unfolding parse_message_buffer [OF n] by (simp add: parse_message_def send_noti_private_data_def read_back)
qed

end
