(* ===== verification/Switcher.thy ===== *)
theory Switcher
  imports AdapterContract ControlMessage
begin

text \<open>
  \<open>sc::NetworkSwitcher\<close> and its transactions (linux/core/src/NetworkSwitcher.cpp): switching from one
  adapter to another, and the commands of the peer. The adapters, the switcher and the core share
  one state, the record \<open>world\<close>. An adapter operation reports the callbacks it makes as events;
  they are run in that order once the operation is over. What an operation does after its
  callback touches only its own callback field.
\<close>

section \<open>The shared state\<close>

datatype callback =
    Connect_next | Sleep_prev | Disconnect_prev | Connect_request | Reconnect | Start_core | Stop_core

datatype ns_state = kNSStateReady | kNSStateSwitching

record world =
  mAdapters :: "callback adapter list"
  mActiveAdapterIndex :: int
  mCoreState :: core_state
  mNSState :: ns_state
  switch_tx :: "(int \<times> int) option"
  connect_tx :: "i32 option"
  start_tx :: bool
  stop_tx :: "int option"
  receiving_thread :: bool
  monitoring :: bool
  logging :: bool
  start_sc_done :: "bool list"
  stop_sc_done :: "bool list"

text \<open>\<open>Core::get_adapter\<close> compares the index with a \<open>size_t\<close>: a negative index fails the assertion too.\<close>

definition get_adapter :: "int \<Rightarrow> world \<Rightarrow> fault + callback adapter" where
  "get_adapter index W =
     (if 0 \<le> index \<and> nat index < length (mAdapters W) then Inr (mAdapters W ! nat index)
      else Inl Assertion_failure)"

fun find_index :: "i32 \<Rightarrow> callback adapter list \<Rightarrow> nat option" where
  "find_index i [] = None"
| "find_index i (a # as) = (if mId a = i then Some 0 else map_option Suc (find_index i as))"

definition find_adapter_by_id :: "i32 \<Rightarrow> world \<Rightarrow> nat option" where
  "find_adapter_by_id adapter_id W = find_index adapter_id (mAdapters W)"

definition get_active_adapter :: "world \<Rightarrow> fault + callback adapter" where
  "get_active_adapter W = get_adapter (mActiveAdapterIndex W) W"

fun callbacks_of :: "callback event list \<Rightarrow> (callback \<times> bool) list" where
  "callbacks_of [] = []"
| "callbacks_of (Callback cb b # es) = (cb, b) # callbacks_of es"
| "callbacks_of (_ # es) = callbacks_of es"

lemma callbacks_of_append [simp]: "callbacks_of (es @ es') = callbacks_of es @ callbacks_of es'"
  by (induction es rule: callbacks_of.induct) auto

text \<open>One operation on one adapter: the callbacks it made and the new world.\<close>

definition on_adapter ::
    "int \<Rightarrow> (callback adapter \<Rightarrow> fault + callback adapter) \<Rightarrow> world \<Rightarrow> fault + (callback \<times> bool) list \<times> world" where
  "on_adapter index f W =
     and_then (get_adapter index W) (\<lambda>a.
     and_then (f a) (\<lambda>a'.
     Inr (callbacks_of (drop (length (events a)) (events a')), W\<lparr>mAdapters := (mAdapters W)[nat index := a']\<rparr>)))"

section \<open>The switch transaction\<close>

definition done_switch :: "world \<Rightarrow> world" where
  "done_switch W = (case mNSState W of
     kNSStateSwitching \<Rightarrow> W\<lparr>mNSState := kNSStateReady\<rparr> | kNSStateReady \<Rightarrow> W)"

text \<open>The member functions are called through \<open>sOngoing\<close>, which is null when no switch is under way.\<close>

definition switch_done :: "bool \<Rightarrow> world \<Rightarrow> fault + world" where
  "switch_done is_success W = (case switch_tx W of
     None \<Rightarrow> Inl Null_dereference
   | Some (prev, next_index) \<Rightarrow>
       Inr ((done_switch (if is_success then W\<lparr>mActiveAdapterIndex := next_index\<rparr> else W))\<lparr>switch_tx := None\<rparr>))"

definition disconnect_prev_adapter_callback :: "bool \<Rightarrow> world \<Rightarrow> fault + world" where
  "disconnect_prev_adapter_callback is_success W = switch_done is_success W"

definition world_impl :: "impl \<Rightarrow> world \<Rightarrow> impl" where
  "world_impl w W = w\<lparr>switch_ongoing := (switch_tx W \<noteq> None)\<rparr>"

text \<open>The callbacks a disconnection of the previous adapter makes.\<close>

definition run_disconnect_callbacks :: "(callback \<times> bool) list \<Rightarrow> world \<Rightarrow> fault + world" where
  "run_disconnect_callbacks cbs = fold_ok (\<lambda>(cb, b). disconnect_prev_adapter_callback b) cbs"

definition sleep_prev_adapter_callback :: "impl \<Rightarrow> bool \<Rightarrow> world \<Rightarrow> fault + world" where
  "sleep_prev_adapter_callback w is_success W =
     (if \<not> is_success then switch_done False W
      else (case switch_tx W of None \<Rightarrow> Inl Null_dereference
      | Some (prev_index, next_index) \<Rightarrow>
        and_then (get_adapter prev_index W) (\<lambda>prev.
        if mState prev = kDisconnected then switch_done True W
        else if mState prev \<in> {kConnecting, kDisconnecting, kWakingUp} then switch_done False W
        else if mState prev = kGoingSleeping \<and> \<not> falls_asleep w then Inl Would_block
        else
         (let W1 = (if mState prev = kGoingSleeping
                    then W\<lparr>mAdapters := (mAdapters W)[nat prev_index := set_state kSleeping prev]\<rparr> else W)
          in and_then (on_adapter prev_index (disconnect_on_command (Some Disconnect_prev) (world_impl w W)) W1)
               (\<lambda>(cbs, W2). run_disconnect_callbacks cbs W2)))))"

definition run_sleep_callbacks :: "impl \<Rightarrow> (callback \<times> bool) list \<Rightarrow> world \<Rightarrow> fault + world" where
  "run_sleep_callbacks w cbs = fold_ok (\<lambda>(cb, b). sleep_prev_adapter_callback w b) cbs"

definition sleep_prev :: "impl \<Rightarrow> int \<Rightarrow> world \<Rightarrow> fault + world" where
  "sleep_prev w prev_index W =
     and_then (on_adapter prev_index (sleep (Some Sleep_prev) False) W) (\<lambda>(cbs, W1). run_sleep_callbacks w cbs W1)"

text \<open>
  Steps 1-b and 2-a. The branch for an adapter that sleeps already runs step 3 and does not return: the
  code behind it then puts the adapter to sleep again.
\<close>

definition connect_next_adapter_callback :: "impl \<Rightarrow> bool \<Rightarrow> world \<Rightarrow> fault + world" where
  "connect_next_adapter_callback w is_success W =
     (case switch_tx W of None \<Rightarrow> Inl Null_dereference
      | Some (prev_index, next_index) \<Rightarrow>
        if \<not> is_success then switch_done False W
        else and_then (get_adapter prev_index W) (\<lambda>prev.
          if mState prev = kDisconnected then switch_done True W
          else if mState prev = kSleeping \<or> mState prev = kGoingSleeping
          then and_then (sleep_prev_adapter_callback w True W) (sleep_prev w prev_index)
          else if mState prev \<in> {kConnecting, kDisconnecting, kWakingUp} then switch_done False W
          else sleep_prev w prev_index W))"

definition run_connect_callbacks :: "impl \<Rightarrow> (callback \<times> bool) list \<Rightarrow> world \<Rightarrow> fault + world" where
  "run_connect_callbacks w cbs = fold_ok (\<lambda>(cb, b). connect_next_adapter_callback w b) cbs"

text \<open>\<open>wn\<close> are the plugins of the next adapter, \<open>wp\<close> those of the previous one.\<close>

definition switch_start :: "impl \<Rightarrow> impl \<Rightarrow> world \<Rightarrow> fault + world" where
  "switch_start wn wp W =
     (case switch_tx W of None \<Rightarrow> Inl Null_dereference
      | Some (prev_index, next_index) \<Rightarrow>
        and_then (get_adapter next_index W) (\<lambda>next_adapter.
          if mState next_adapter = kActive then connect_next_adapter_callback wp True W
          else if mState next_adapter \<in> {kConnecting, kDisconnecting, kGoingSleeping, kWakingUp}
          then switch_done False W
          else and_then (on_adapter next_index
                 (connect_or_wake_up (Some Connect_next) True (world_impl wn W)) W)
                 (\<lambda>(cbs, W1). run_connect_callbacks wp cbs W1)))"

definition switch_run :: "int \<Rightarrow> int \<Rightarrow> impl \<Rightarrow> impl \<Rightarrow> world \<Rightarrow> fault + bool \<times> world" where
  "switch_run prev_index next_index wn wp W =
     (if switch_tx W = None
      then and_then (switch_start wn wp (W\<lparr>switch_tx := Some (prev_index, next_index)\<rparr>)) (\<lambda>W1. Inr (True, W1))
      else Inr (False, done_switch W))"

definition switch_adapters :: "int \<Rightarrow> int \<Rightarrow> impl \<Rightarrow> impl \<Rightarrow> world \<Rightarrow> fault + bool \<times> world" where
  "switch_adapters prev_index next_index wn wp W =
     switch_run prev_index next_index wn wp (W\<lparr>mNSState := kNSStateSwitching\<rparr>)"

section \<open>Commands of the peer\<close>

definition connect_request_done :: "world \<Rightarrow> world" where
  "connect_request_done W = (done_switch W)\<lparr>connect_tx := None\<rparr>"

text \<open>The callback calls \<open>done\<close> through \<open>sOngoing\<close> whatever the result.\<close>

definition connect_callback :: "bool \<Rightarrow> world \<Rightarrow> fault + world" where
  "connect_callback is_success W =
     (if connect_tx W = None then Inl Null_dereference else Inr (connect_request_done W))"

definition connect_request_run :: "i32 \<Rightarrow> impl \<Rightarrow> world \<Rightarrow> fault + world" where
  "connect_request_run adapter_id w W =
     (if connect_tx W \<noteq> None then Inr (done_switch W)
      else
       (let W1 = W\<lparr>connect_tx := Some adapter_id\<rparr> in
        case find_adapter_by_id adapter_id W1 of
          None \<Rightarrow> Inr (connect_request_done W1)
        | Some k \<Rightarrow>
            and_then (on_adapter (int k) (connect (Some Connect_request) (world_impl w W1)) W1)
              (\<lambda>(cbs, W2). fold_ok (\<lambda>(cb, b). connect_callback b) cbs W2)))"

definition connect_adapter_by_peer :: "i32 \<Rightarrow> impl \<Rightarrow> world \<Rightarrow> fault + world" where
  "connect_adapter_by_peer adapter_id w W =
     (if mNSState W = kNSStateSwitching then Inr W
      else connect_request_run adapter_id w (W\<lparr>mNSState := kNSStateSwitching\<rparr>))"

text \<open>The callback is null: nothing reports the end of the disconnection to the switcher.\<close>

definition disconnect_adapter_by_peer :: "i32 \<Rightarrow> u32 \<Rightarrow> u32 \<Rightarrow> impl \<Rightarrow> world \<Rightarrow> fault + world" where
  "disconnect_adapter_by_peer adapter_id seq_control seq_data w W =
     (if mNSState W = kNSStateSwitching then Inr W
      else case find_adapter_by_id adapter_id W of None \<Rightarrow> Inr W
      | Some k \<Rightarrow>
        and_then (on_adapter (int k)
            (disconnect_on_peer_command None seq_control seq_data (world_impl w W))
            (W\<lparr>mNSState := kNSStateSwitching\<rparr>))
          (\<lambda>(cbs, W1). Inr W1))"

text \<open>These two take the id for an index.\<close>

definition sleep_adapter_by_peer :: "i32 \<Rightarrow> world \<Rightarrow> fault + world" where
  "sleep_adapter_by_peer adapter_id W =
     (if mNSState W = kNSStateSwitching then Inr W
      else and_then (on_adapter (sint adapter_id) (sleep None False) (W\<lparr>mNSState := kNSStateSwitching\<rparr>))
        (\<lambda>(cbs, W1). Inr (W1\<lparr>mNSState := kNSStateReady\<rparr>)))"

definition wake_up_adapter_by_peer :: "i32 \<Rightarrow> world \<Rightarrow> fault + world" where
  "wake_up_adapter_by_peer adapter_id W =
     (if mNSState W = kNSStateSwitching then Inr W
      else and_then (on_adapter (sint adapter_id) (wake_up None False) (W\<lparr>mNSState := kNSStateSwitching\<rparr>))
        (\<lambda>(cbs, W1). Inr (W1\<lparr>mNSState := kNSStateReady\<rparr>)))"

text \<open>
  \<open>ControlMessageReceiver\<close>: what a message makes the switcher, an adapter or the segment manager do. Private
  data goes to the listeners, which are outside.
\<close>

definition dispatch :: "control_message \<Rightarrow> impl \<Rightarrow> world \<times> seg_mgr \<Rightarrow> fault + world \<times> seg_mgr" where
  "dispatch m w Ws = (case m of
     Normal kCMCodeConnect i \<Rightarrow>
       and_then (connect_adapter_by_peer i w (fst Ws)) (\<lambda>W1. Inr (W1, snd Ws))
   | Normal kCMCodeSleep i \<Rightarrow> and_then (sleep_adapter_by_peer i (fst Ws)) (\<lambda>W1. Inr (W1, snd Ws))
   | Normal kCMCodeWakeUp i \<Rightarrow> and_then (wake_up_adapter_by_peer i (fst Ws)) (\<lambda>W1. Inr (W1, snd Ws))
   | Normal kCMCodeDisconnectAck i \<Rightarrow>
       (case find_adapter_by_id i (fst Ws) of None \<Rightarrow> Inr Ws
        | Some k \<Rightarrow> and_then (on_adapter (int k) (\<lambda>a. Inr (peer_knows_disconnecting_on_purpose a)) (fst Ws))
            (\<lambda>(cbs, W1). Inr (W1, snd Ws)))
   | Normal _ i \<Rightarrow> Inr Ws
   | Disconnect i c d \<Rightarrow> and_then (disconnect_adapter_by_peer i c d w (fst Ws)) (\<lambda>W1. Inr (W1, snd Ws))
   | Retransmit t a b \<Rightarrow> Inr (fst Ws, retransmit_missing_segments_by_peer t a b (snd Ws))
   | Queue_status c d \<Rightarrow> and_then (deallocate_sent_segments_by_peer c d (snd Ws)) (\<lambda>sm. Inr (fst Ws, sm))
   | Priv t s \<Rightarrow> Inr Ws
   | Unknown i \<Rightarrow> Inr Ws)"

end
