(* ===== verification/SwitcherContract.thy ===== *)
theory SwitcherContract
  imports Switcher
begin

text \<open>
  What a switch guarantees: it is made before it is broken, ends in one of two well-defined states, and
  leaves the switcher ready for the next; and what goes wrong when the previous adapter sleeps already
  and when the peer disconnects.
\<close>

section \<open>Adapters fit for a switch\<close>

definition idle_adapter :: "callback adapter \<Rightarrow> bool" where
  "idle_adapter a \<longleftrightarrow> mState a = kDisconnected \<and> all_down a \<and> has_threads a"

definition active_adapter :: "callback adapter \<Rightarrow> bool" where
  "active_adapter a \<longleftrightarrow> mState a = kActive \<and> all_up a \<and> has_threads a
     \<and> (\<forall>s. mSenderThread a = Some s \<longrightarrow> \<not> is_loop_paused s)"

definition sleeping_idle :: "callback adapter \<Rightarrow> bool" where
  "sleeping_idle a \<longleftrightarrow> mState a = kSleeping \<and> all_up a \<and> has_threads a"

lemma world_impl_simps [simp]:
  "turn_on_ok (world_impl w W) = turn_on_ok w" "turn_off_ok (world_impl w W) = turn_off_ok w"
  "allow_ok (world_impl w W) = allow_ok w" "disallow_ok (world_impl w W) = disallow_ok w"
  "open_ok (world_impl w W) = open_ok w" "close_ok (world_impl w W) = close_ok w"
  "falls_asleep (world_impl w W) = falls_asleep w" "sender_loop_ends (world_impl w W) = sender_loop_ends w"
  "receiver_loop_ends (world_impl w W) = receiver_loop_ends w"
  "switch_ongoing (world_impl w W) = (switch_tx W \<noteq> None)"
  by (simp_all add: world_impl_def)

lemma get_adapter_nat [simp]:
  "k < length (mAdapters W) \<Longrightarrow> get_adapter (int k) W = Inr (mAdapters W ! k)"
  by (simp add: get_adapter_def)

lemma on_adapter_nat:
  assumes "k < length (mAdapters W)" "f (mAdapters W ! k) = Inr a'" "events a' = events (mAdapters W ! k) @ es"
  shows "on_adapter (int k) f W = Inr (callbacks_of es, W\<lparr>mAdapters := (mAdapters W)[k := a']\<rparr>)"
  using assms by (simp add: on_adapter_def)

text \<open>What listeners are told is no callback.\<close>

lemma callbacks_of_notices [simp]: "callbacks_of (notices s s' a) = []"
proof -
  have "callbacks_of (map (\<lambda>l. Listener_notified l s s') ls) = []" for ls by (induction ls) simp_all
  then show ?thesis by (simp add: notices_def)
qed

text \<open>Whatever its listeners are told, a connection makes one callback.\<close>

lemma connect_callbacks:
  assumes "mState a = kDisconnected" "all_down a" "has_threads a"
  shows "\<exists>a' es. connect (Some cb) w a = Inr a' \<and> events a' = events a @ es
    \<and> callbacks_of es = [(cb, turn_on_ok w \<and> allow_ok w \<and> open_ok w)]
    \<and> (if turn_on_ok w \<and> allow_ok w \<and> open_ok w then mState a' = kActive \<and> all_up a' \<and> loops_enabled a'
         \<and> mSenderThread a' = map_option (\<lambda>s. s\<lparr>is_loop_enabled := True\<rparr>) (mSenderThread a)
       else mState a' = kDisconnected \<and> (turn_off_ok w \<and> disallow_ok w \<longrightarrow> all_down a')
         \<and> mSenderThread a' = mSenderThread a \<and> mReceiverThread a' = mReceiverThread a)"
proof (cases "turn_on_ok w \<and> allow_ok w \<and> open_ok w")
  case True
  with connect_outcome [OF assms, of cb w] obtain a' where
    "connect (Some cb) w a = Inr a'" "mState a' = kActive" "all_up a'" "loops_enabled a'"
    "mSenderThread a' = map_option (\<lambda>s. s\<lparr>is_loop_enabled := True\<rparr>) (mSenderThread a)"
    "events a' = events a @ notices kDisconnected kConnecting a @ notices kConnecting kActive a @ [Callback cb True]" by auto
  with True show ?thesis by (intro exI conjI) (assumption+, simp_all)
next
  case False
  with connect_outcome [OF assms, of cb w] obtain a' where
    "connect (Some cb) w a = Inr a'" "mState a' = kDisconnected" "mSenderThread a' = mSenderThread a"
    "mReceiverThread a' = mReceiverThread a" "turn_off_ok w \<and> disallow_ok w \<longrightarrow> all_down a'"
    "events a' = events a @ notices kDisconnected kConnecting a @ notices kConnecting kDisconnected a @ [Callback cb False]"
    unfolding if_not_P [OF False] by blast
  with False show ?thesis by (intro exI conjI) (assumption+, simp_all)
qed

text \<open>Connecting the idle next adapter.\<close>

lemma connect_next:
  assumes k: "k < length (mAdapters W)" "idle_adapter (mAdapters W ! k)"
  shows "\<exists>a'. on_adapter (int k) (connect_or_wake_up (Some Connect_next) True w) W
      = Inr ([(Connect_next, turn_on_ok w \<and> allow_ok w \<and> open_ok w)], W\<lparr>mAdapters := (mAdapters W)[k := a']\<rparr>)
    \<and> (if turn_on_ok w \<and> allow_ok w \<and> open_ok w then mState a' = kActive \<and> all_up a' \<and> loops_enabled a'
         \<and> mSenderThread a' = map_option (\<lambda>s. s\<lparr>is_loop_enabled := True\<rparr>) (mSenderThread (mAdapters W ! k))
       else mState a' = kDisconnected \<and> (turn_off_ok w \<and> disallow_ok w \<longrightarrow> all_down a')
         \<and> mSenderThread a' = mSenderThread (mAdapters W ! k) \<and> mReceiverThread a' = mReceiverThread (mAdapters W ! k))"
proof -
  let ?a = "mAdapters W ! k"
  have a: "mState ?a = kDisconnected" "all_down ?a" "has_threads ?a"
    using k(2) by (simp_all add: idle_adapter_def)
  from connect_callbacks [OF a, of Connect_next w] obtain a' es where
    c: "connect (Some Connect_next) w ?a = Inr a'" "events a' = events ?a @ es"
      "callbacks_of es = [(Connect_next, turn_on_ok w \<and> allow_ok w \<and> open_ok w)]"
      "if turn_on_ok w \<and> allow_ok w \<and> open_ok w then mState a' = kActive \<and> all_up a' \<and> loops_enabled a'
         \<and> mSenderThread a' = map_option (\<lambda>s. s\<lparr>is_loop_enabled := True\<rparr>) (mSenderThread ?a)
       else mState a' = kDisconnected \<and> (turn_off_ok w \<and> disallow_ok w \<longrightarrow> all_down a')
         \<and> mSenderThread a' = mSenderThread ?a \<and> mReceiverThread a' = mReceiverThread ?a" by blast
  have "connect_or_wake_up (Some Connect_next) True w ?a = Inr a'"
    using a(1) c(1) by (simp add: connect_or_wake_up_def)
  from on_adapter_nat [where f = "connect_or_wake_up (Some Connect_next) True w", OF k(1) this c(2)] c(3,4)
  show ?thesis by metis
qed

text \<open>Putting the active previous adapter to sleep.\<close>

lemma sleep_active:
  assumes k: "k < length (mAdapters W)" "active_adapter (mAdapters W ! k)"
  shows "\<exists>a'. on_adapter (int k) (sleep (Some Sleep_prev) False) W
      = Inr ([(Sleep_prev, True)], W\<lparr>mAdapters := (mAdapters W)[k := a']\<rparr>)
    \<and> mState a' = kGoingSleeping \<and> all_up a' \<and> has_threads a'"
proof -
  let ?a = "mAdapters W ! k"
  obtain s where s: "mSenderThread ?a = Some s" "\<not> is_loop_paused s" "mState ?a = kActive"
    using k(2) by (auto simp: active_adapter_def has_threads_def)
  define a' where "a' = emit (Callback Sleep_prev True) (emit (Wake_up_dequeue kDeqSendControlData)
      ((set_state kGoingSleeping ?a)\<lparr>mSenderThread := Some (pause_loop s)\<rparr>))"
  have f: "sleep (Some Sleep_prev) False ?a = Inr a'"
    using s by (simp add: sleep_def a'_def)
  have e: "events a' = events ?a @ notices kActive kGoingSleeping ?a @ [Wake_up_dequeue kDeqSendControlData, Callback Sleep_prev True]"
    using s(3) by (simp add: a'_def)
  have p: "mState a' = kGoingSleeping" "all_up a'" "has_threads a'"
    using k(2) by (simp_all add: a'_def active_adapter_def all_up_def has_threads_def)
  from on_adapter_nat [where f = "sleep (Some Sleep_prev) False", OF k(1) f e] p
  show ?thesis by (intro exI [of _ a']) simp
qed

text \<open>Disconnecting the sleeping previous adapter.\<close>

lemma disconnect_sleeping:
  assumes k: "k < length (mAdapters W)" "sleeping_idle (mAdapters W ! k)"
    and w: "switch_ongoing w" "sender_loop_ends w" "receiver_loop_ends w"
  shows "\<exists>a'. on_adapter (int k) (disconnect_on_command (Some Disconnect_prev) w) W
      = Inr ([(Disconnect_prev, close_ok w \<and> disallow_ok w \<and> turn_off_ok w)], W\<lparr>mAdapters := (mAdapters W)[k := a']\<rparr>)
    \<and> mServerSocket a' = Some kClosed \<and> loops_disabled a'
    \<and> (if close_ok w \<and> disallow_ok w \<and> turn_off_ok w then mState a' = kDisconnected \<and> all_down a'
       else mState a' = kSleeping)"
proof -
  let ?a = "mAdapters W ! k" and ?ok = "close_ok w \<and> disallow_ok w \<and> turn_off_ok w"
  have a: "mState ?a = kSleeping" "all_up ?a" "has_threads ?a"
    using k(2) by (simp_all add: sleeping_idle_def)
  obtain s where s: "mSenderThread ?a = Some s" using a(3) by (auto simp: has_threads_def)
  let ?es = "[Request_disconnect (mId ?a) (last_seq_no_control s) (last_seq_no_data s)]
      @ notices kSleeping kDisconnecting ?a @ [Disconnect_start_stamped]
      @ notices kDisconnecting (if ?ok then kDisconnected else kSleeping) ?a @ [Callback Disconnect_prev ?ok]"
  obtain a' where f: "disconnect_on_command (Some Disconnect_prev) w ?a = Inr a'"
    and sk: "mServerSocket a' = Some kClosed" "loops_disabled a'" and e: "events a' = events ?a @ ?es"
    and r: "if ?ok then mState a' = kDisconnected \<and> all_down a' else mState a' = kSleeping"
    using disconnect_outcome [OF a s w, of Disconnect_prev] by (cases ?ok) auto
  from on_adapter_nat [where f = "disconnect_on_command (Some Disconnect_prev) w", OF k(1) f e] sk r
  show ?thesis by (intro exI [of _ a']) auto
qed

section \<open>The switch\<close>

lemma run_disconnect_single [simp]:
  "run_disconnect_callbacks [(cb, b)] W = switch_done b W"
  by (cases "switch_done b W") (simp_all add: run_disconnect_callbacks_def disconnect_prev_adapter_callback_def)

lemma run_sleep_single [simp]:
  "run_sleep_callbacks w [(cb, b)] W = sleep_prev_adapter_callback w b W"
  by (cases "sleep_prev_adapter_callback w b W") (simp_all add: run_sleep_callbacks_def)

lemma run_connect_single [simp]:
  "run_connect_callbacks w [(cb, b)] W = connect_next_adapter_callback w b W"
  by (cases "connect_next_adapter_callback w b W") (simp_all add: run_connect_callbacks_def)

text \<open>The world after the transaction.\<close>

definition switched :: "bool \<Rightarrow> int \<Rightarrow> world \<Rightarrow> world" where
  "switched ok next_index W = (done_switch (if ok then W\<lparr>mActiveAdapterIndex := next_index\<rparr> else W))\<lparr>switch_tx := None\<rparr>"

lemma switched_fields [simp]:
  "mAdapters (switched ok n W) = mAdapters W" "switch_tx (switched ok n W) = None"
  "mNSState (switched ok n W) = kNSStateReady"
  "mActiveAdapterIndex (switched ok n W) = (if ok then n else mActiveAdapterIndex W)"
  "mCoreState (switched ok n W) = mCoreState W"
  by (cases "mNSState W"; simp add: switched_def done_switch_def)+

lemma switch_done_eq: "switch_tx W = Some (prev_index, n) \<Longrightarrow> switch_done ok W = Inr (switched ok n W)"
  by (simp add: switch_done_def switched_def)

text \<open>Step 3: the adapter that falls asleep is disconnected, and the transaction ends.\<close>

lemma finish_switch:
  assumes tx: "switch_tx W = Some (int p, n)" and p: "p < length (mAdapters W)"
    and a: "mState (mAdapters W ! p) = kGoingSleeping" "all_up (mAdapters W ! p)" "has_threads (mAdapters W ! p)"
    and w: "falls_asleep w" "sender_loop_ends w" "receiver_loop_ends w"
  shows "\<exists>a'. sleep_prev_adapter_callback w True W
      = Inr (switched (close_ok w \<and> disallow_ok w \<and> turn_off_ok w) n (W\<lparr>mAdapters := (mAdapters W)[p := a']\<rparr>))
    \<and> mServerSocket a' = Some kClosed \<and> loops_disabled a'
    \<and> (if close_ok w \<and> disallow_ok w \<and> turn_off_ok w then mState a' = kDisconnected \<and> all_down a'
       else mState a' = kSleeping)"
proof -
  let ?prev = "set_state kSleeping (mAdapters W ! p)"
  define W1 where "W1 = W\<lparr>mAdapters := (mAdapters W)[p := ?prev]\<rparr>"
  have l1: "p < length (mAdapters W1)" using p by (simp add: W1_def)
  have nth: "mAdapters W1 ! p = ?prev" using p by (simp add: W1_def)
  have "sleeping_idle (mAdapters W1 ! p)"
    unfolding nth using a by (simp add: sleeping_idle_def all_up_def has_threads_def)
  from disconnect_sleeping [OF l1 this, of "world_impl w W"] w tx obtain a' where
    d: "on_adapter (int p) (disconnect_on_command (Some Disconnect_prev) (world_impl w W)) W1
      = Inr ([(Disconnect_prev, close_ok w \<and> disallow_ok w \<and> turn_off_ok w)], W1\<lparr>mAdapters := (mAdapters W1)[p := a']\<rparr>)"
    "mServerSocket a' = Some kClosed \<and> loops_disabled a'"
    "if close_ok w \<and> disallow_ok w \<and> turn_off_ok w then mState a' = kDisconnected \<and> all_down a'
     else mState a' = kSleeping" by auto
  let ?ok = "close_ok w \<and> disallow_ok w \<and> turn_off_ok w"
  have W2: "W1\<lparr>mAdapters := (mAdapters W1)[p := a']\<rparr> = W\<lparr>mAdapters := (mAdapters W)[p := a']\<rparr>"
    by (simp add: W1_def)
  have tx2: "switch_tx (W\<lparr>mAdapters := (mAdapters W)[p := a']\<rparr>) = Some (int p, n)" using tx by simp
  have "sleep_prev_adapter_callback w True W
      = switch_done ?ok (W\<lparr>mAdapters := (mAdapters W)[p := a']\<rparr>)"
    using tx p a(1) w(1) d(1) unfolding W2 by (simp add: sleep_prev_adapter_callback_def W1_def Let_def)
  with switch_done_eq [OF tx2, of ?ok] d(2,3) show ?thesis by (intro exI [of _ a']) simp
qed

lemma switch_outcome:
  assumes "switch_tx W = None" and n: "n < length (mAdapters W)" "idle_adapter (mAdapters W ! n)"
    and p: "p < length (mAdapters W)" "active_adapter (mAdapters W ! p)"
    and wp: "falls_asleep wp" "sender_loop_ends wp" "receiver_loop_ends wp"
  shows "\<exists>W' an ap. switch_adapters (int p) (int n) wn wp W = Inr (True, W')
    \<and> switch_tx W' = None \<and> mNSState W' = kNSStateReady
    \<and> (if \<not> (turn_on_ok wn \<and> allow_ok wn \<and> open_ok wn)
       then mAdapters W' = (mAdapters W)[n := an] \<and> mState an = kDisconnected
         \<and> (turn_off_ok wn \<and> disallow_ok wn \<longrightarrow> all_down an)
         \<and> mSenderThread an = mSenderThread (mAdapters W ! n) \<and> mReceiverThread an = mReceiverThread (mAdapters W ! n)
         \<and> mActiveAdapterIndex W' = mActiveAdapterIndex W
       else mAdapters W' = (mAdapters W)[n := an, p := ap] \<and> mState an = kActive \<and> all_up an \<and> loops_enabled an
         \<and> mSenderThread an = map_option (\<lambda>s. s\<lparr>is_loop_enabled := True\<rparr>) (mSenderThread (mAdapters W ! n))
         \<and> loops_disabled ap
         \<and> (if close_ok wp \<and> disallow_ok wp \<and> turn_off_ok wp
            then mState ap = kDisconnected \<and> all_down ap \<and> mActiveAdapterIndex W' = int n
            else mState ap = kSleeping \<and> mServerSocket ap = Some kClosed
              \<and> mActiveAdapterIndex W' = mActiveAdapterIndex W))"
proof -
  let ?up = "turn_on_ok wn \<and> allow_ok wn \<and> open_ok wn" and ?dn = "close_ok wp \<and> disallow_ok wp \<and> turn_off_ok wp"
  define W0 where "W0 = W\<lparr>mNSState := kNSStateSwitching, switch_tx := Some (int p, int n)\<rparr>"
  have A0: "mAdapters W0 = mAdapters W" and tx0: "switch_tx W0 = Some (int p, int n)"
    and ix0: "mActiveAdapterIndex W0 = mActiveAdapterIndex W" by (simp_all add: W0_def)
  have st: "mState (mAdapters W ! n) = kDisconnected" "mState (mAdapters W ! p) = kActive"
    using n(2) p(2) by (simp_all add: idle_adapter_def active_adapter_def)
  then have np: "n \<noteq> p" by auto
  obtain an where c: "on_adapter (int n) (connect_or_wake_up (Some Connect_next) True (world_impl wn W0)) W0
      = Inr ([(Connect_next, ?up)], W0\<lparr>mAdapters := (mAdapters W0)[n := an]\<rparr>)"
    "if ?up then mState an = kActive \<and> all_up an \<and> loops_enabled an
       \<and> mSenderThread an = map_option (\<lambda>s. s\<lparr>is_loop_enabled := True\<rparr>) (mSenderThread (mAdapters W ! n))
     else mState an = kDisconnected \<and> (turn_off_ok wn \<and> disallow_ok wn \<longrightarrow> all_down an)
       \<and> mSenderThread an = mSenderThread (mAdapters W ! n) \<and> mReceiverThread an = mReceiverThread (mAdapters W ! n)"
    using connect_next [of n W0 "world_impl wn W0"] n unfolding A0 world_impl_simps by blast
  define W1 where "W1 = W0\<lparr>mAdapters := (mAdapters W)[n := an]\<rparr>"
  have tx1: "switch_tx W1 = Some (int p, int n)" and p1: "p < length (mAdapters W1)"
    and nth1: "mAdapters W1 ! p = mAdapters W ! p"
    using tx0 p(1) np by (simp_all add: W1_def)
  have run: "switch_adapters (int p) (int n) wn wp W
      = and_then (connect_next_adapter_callback wp ?up W1) (\<lambda>W1. Inr (True, W1))"
  proof -
    have "switch_adapters (int p) (int n) wn wp W = and_then (switch_start wn wp W0) (\<lambda>W1. Inr (True, W1))"
      using assms(1) by (simp add: switch_adapters_def switch_run_def W0_def)
    also have "switch_start wn wp W0 = connect_next_adapter_callback wp ?up W1"
      using tx0 n(1) st(1) c(1) by (simp add: switch_start_def A0 W1_def)
    finally show ?thesis .
  qed
  show ?thesis
  proof (cases ?up)
    case False
    then have up: "?up = False" by blast
    have "connect_next_adapter_callback wp False W1 = Inr (switched False (int n) W1)"
      using tx1 switch_done_eq [OF tx1] by (simp add: connect_next_adapter_callback_def)
    with run have r: "switch_adapters (int p) (int n) wn wp W = Inr (True, switched False (int n) W1)"
      unfolding up by simp
    note c(2) [unfolded up if_False]
    moreover have "mAdapters W1 = (mAdapters W)[n := an]" "mActiveAdapterIndex W1 = mActiveAdapterIndex W"
      by (simp_all add: W1_def ix0)
    ultimately show ?thesis
      unfolding up using r by (intro exI [of _ "switched False (int n) W1"] exI [of _ an]) simp
  next
    case True
    have act: "active_adapter (mAdapters W1 ! p)" using p(2) nth1 by simp
    obtain as where s: "on_adapter (int p) (sleep (Some Sleep_prev) False) W1
        = Inr ([(Sleep_prev, True)], W1\<lparr>mAdapters := (mAdapters W1)[p := as]\<rparr>)"
      "mState as = kGoingSleeping" "all_up as" "has_threads as"
      using sleep_active [OF p1 act] by blast
    define W2 where "W2 = W1\<lparr>mAdapters := (mAdapters W1)[p := as]\<rparr>"
    have tx2: "switch_tx W2 = Some (int p, int n)" and p2: "p < length (mAdapters W2)" and nth2: "mAdapters W2 ! p = as"
      using tx1 p1 by (simp_all add: W2_def)
    obtain ap where f: "sleep_prev_adapter_callback wp True W2
        = Inr (switched ?dn (int n) (W2\<lparr>mAdapters := (mAdapters W2)[p := ap]\<rparr>))"
      "mServerSocket ap = Some kClosed" "loops_disabled ap"
      "if ?dn then mState ap = kDisconnected \<and> all_down ap else mState ap = kSleeping"
      using finish_switch [OF tx2 p2 _ _ _ wp] s(2-4) unfolding nth2 by blast
    define W' where "W' = switched ?dn (int n) (W2\<lparr>mAdapters := (mAdapters W2)[p := ap]\<rparr>)"
    have "connect_next_adapter_callback wp True W1 = sleep_prev wp (int p) W1"
      using tx1 p1 st(2) nth1 by (simp add: connect_next_adapter_callback_def)
    also have "\<dots> = Inr W'" using s(1) f(1) by (simp add: sleep_prev_def W2_def W'_def)
    finally have r: "switch_adapters (int p) (int n) wn wp W = Inr (True, W')" using run True by simp
    have W': "mAdapters W' = (mAdapters W)[n := an, p := ap]" "switch_tx W' = None" "mNSState W' = kNSStateReady"
      "mActiveAdapterIndex W' = (if ?dn then int n else mActiveAdapterIndex W)"
      by (simp_all add: W'_def W2_def W1_def ix0)
    have up: "?up = True" using True by blast
    show ?thesis
      using r W' c(2) f(2-4) unfolding up
      by (intro exI [of _ W'] exI [of _ an] exI [of _ ap]) (cases ?dn; simp)
  qed
qed

text \<open>When the previous adapter already sleeps: the switch is completed and then continues.\<close>

lemma switch_sleeping_prev:
  assumes tx: "switch_tx W = Some (int p, n)" and p: "p < length (mAdapters W)" "sleeping_idle (mAdapters W ! p)"
    and w: "sender_loop_ends w" "receiver_loop_ends w"
  shows "connect_next_adapter_callback w True W = Inl Null_dereference"
proof -
  let ?ok = "close_ok w \<and> disallow_ok w \<and> turn_off_ok w"
  have st: "mState (mAdapters W ! p) = kSleeping" using p(2) by (simp add: sleeping_idle_def)
  obtain a' where d: "on_adapter (int p) (disconnect_on_command (Some Disconnect_prev) (world_impl w W)) W
      = Inr ([(Disconnect_prev, ?ok)], W\<lparr>mAdapters := (mAdapters W)[p := a']\<rparr>)"
    "if ?ok then mState a' = kDisconnected \<and> all_down a' else mState a' = kSleeping"
    using disconnect_sleeping [OF p, of "world_impl w W"] w tx by auto
  define W1 where "W1 = W\<lparr>mAdapters := (mAdapters W)[p := a']\<rparr>"
  have tx1: "switch_tx W1 = Some (int p, n)" using tx by (simp add: W1_def)
  define W2 where "W2 = switched ?ok n W1"
  have r: "sleep_prev_adapter_callback w True W = Inr W2"
    using tx p(1) st d(1) switch_done_eq [OF tx1, of ?ok]
    by (simp add: sleep_prev_adapter_callback_def Let_def W1_def W2_def)
  have p2: "p < length (mAdapters W2)" and nth2: "mAdapters W2 ! p = a'" and tx2: "switch_tx W2 = None"
    using p(1) by (simp_all add: W2_def W1_def)
  have na: "mState a' \<noteq> kActive" using d(2) by (auto split: if_splits)
  have f: "sleep (Some Sleep_prev) False (mAdapters W2 ! p) = Inr (emit (Callback Sleep_prev False) a')"
    using na nth2 by (simp add: sleep_def)
  have e: "events (emit (Callback Sleep_prev False) a') = events (mAdapters W2 ! p) @ [Callback Sleep_prev False]"
    by (simp add: nth2)
  have "sleep_prev w (int p) W2 = Inl Null_dereference"
    using on_adapter_nat [where f = "sleep (Some Sleep_prev) False", OF p2 f e] tx2
    by (simp add: sleep_prev_def sleep_prev_adapter_callback_def switch_done_def)
  with tx p(1) st r show ?thesis by (simp add: connect_next_adapter_callback_def)
qed

section \<open>Properties\<close>

text \<open>
  C3: a switch between an active and an idle adapter is made before it is broken. If the next adapter does
  not come up, it is disconnected again, its parts are down if they can be taken down, and nothing else has changed: the previous adapter stays active
  and selected. If it comes up, it is active with its loops enabled, and the previous adapter
  is put to sleep and taken down; only when that has succeeded the next adapter becomes the selected
  one. In every case the transaction is over and the switcher ready for the next switch.
\<close>

theorem switch_make_before_break:
  assumes "switch_tx W = None" and "n < length (mAdapters W)" "idle_adapter (mAdapters W ! n)"
    and "p < length (mAdapters W)" "active_adapter (mAdapters W ! p)"
    and "falls_asleep wp" "sender_loop_ends wp" "receiver_loop_ends wp"
  shows "\<exists>W' an ap. switch_adapters (int p) (int n) wn wp W = Inr (True, W')
    \<and> switch_tx W' = None \<and> mNSState W' = kNSStateReady
    \<and> (if \<not> (turn_on_ok wn \<and> allow_ok wn \<and> open_ok wn)
       then mAdapters W' = (mAdapters W)[n := an] \<and> mState an = kDisconnected
         \<and> (turn_off_ok wn \<and> disallow_ok wn \<longrightarrow> all_down an)
         \<and> mSenderThread an = mSenderThread (mAdapters W ! n) \<and> mReceiverThread an = mReceiverThread (mAdapters W ! n)
         \<and> mActiveAdapterIndex W' = mActiveAdapterIndex W
       else mAdapters W' = (mAdapters W)[n := an, p := ap] \<and> mState an = kActive \<and> all_up an \<and> loops_enabled an
         \<and> mSenderThread an = map_option (\<lambda>s. s\<lparr>is_loop_enabled := True\<rparr>) (mSenderThread (mAdapters W ! n))
         \<and> loops_disabled ap
         \<and> (if close_ok wp \<and> disallow_ok wp \<and> turn_off_ok wp
            then mState ap = kDisconnected \<and> all_down ap \<and> mActiveAdapterIndex W' = int n
            else mState ap = kSleeping \<and> mServerSocket ap = Some kClosed
              \<and> mActiveAdapterIndex W' = mActiveAdapterIndex W))"
  by (rule switch_outcome [OF assms])

text \<open>Two adapters, the first of them active.\<close>

definition example_sender :: sender_thread where
  "example_sender = \<lparr>launched = True, is_thread_running = True, is_loop_ends = True, is_loop_enabled = False,
     is_loop_paused = False, last_seq_no_control = 7, last_seq_no_data = 7\<rparr>"

definition idle_example :: "i32 \<Rightarrow> callback adapter" where
  "idle_example i = (initialize (Some kOff) (Some kDisallowed) (Some kClosed) (adapter_ctor i (counter_ctor 0 True 0 0)))
     \<lparr>mSenderThread := Some example_sender, mReceiverThread := Some (loop_thread.truncate example_sender)\<rparr>"

definition active_example :: "i32 \<Rightarrow> callback adapter" where
  "active_example i = (initialize (Some kOn) (Some kAllowed) (Some kOpened) (adapter_ctor i (counter_ctor 0 True 0 0)))
     \<lparr>mState := kActive, mSenderThread := Some example_sender,
      mReceiverThread := Some (loop_thread.truncate example_sender)\<rparr>"

definition example_world :: "callback adapter list \<Rightarrow> world" where
  "example_world as = \<lparr>mAdapters = as, mActiveAdapterIndex = 0, mCoreState = kCoreStateReady,
     mNSState = kNSStateReady, switch_tx = None, connect_tx = None, start_tx = False, stop_tx = None,
     receiving_thread = True, monitoring = True, logging = True, start_sc_done = [True], stop_sc_done = []\<rparr>"

lemma example_adapters:
  "idle_adapter (idle_example i)" "active_adapter (active_example i)"
  "sleeping_idle ((active_example i)\<lparr>mState := kSleeping\<rparr>)"
  by (simp_all add: idle_adapter_def active_adapter_def sleeping_idle_def idle_example_def active_example_def
      initialize_def adapter_ctor_def all_down_def all_up_def has_threads_def example_sender_def)

theorem switch_make_before_break_witness:
  "\<exists>W'. switch_adapters 0 1 all_fine all_fine (example_world [active_example 1, idle_example 2]) = Inr (True, W')
    \<and> mActiveAdapterIndex W' = 1 \<and> mNSState W' = kNSStateReady"
proof -
  let ?W = "example_world [active_example 1, idle_example 2]"
  have W: "switch_tx ?W = None" "1 < length (mAdapters ?W)" "idle_adapter (mAdapters ?W ! 1)"
    "0 < length (mAdapters ?W)" "active_adapter (mAdapters ?W ! 0)"
    using example_adapters by (simp_all add: example_world_def)
  have f: "falls_asleep all_fine" "sender_loop_ends all_fine" "receiver_loop_ends all_fine"
    by (simp_all add: all_fine_def)
  from switch_make_before_break [OF W f, of all_fine] show ?thesis by (auto simp: all_fine_def)
qed

text \<open>
  Switching away from an adapter that sleeps already ends in a call through a null pointer. The
  transaction disconnects the adapter and is deleted, but the branch does not return: the adapter is put to
  sleep once more, that fails because it is no longer active, and its callback calls a member of the
  transaction that no longer exists. This is so whether or not the disconnection succeeds.
\<close>

lemma switch_from_sleeping_crashes:
  assumes "switch_tx W = None" and "n < length (mAdapters W)" "idle_adapter (mAdapters W ! n)"
    and "p < length (mAdapters W)" "sleeping_idle (mAdapters W ! p)"
    and "turn_on_ok wn" "allow_ok wn" "open_ok wn" and "sender_loop_ends wp" "receiver_loop_ends wp"
  shows "switch_adapters (int p) (int n) wn wp W = Inl Null_dereference"
proof -
  define W0 where "W0 = W\<lparr>mNSState := kNSStateSwitching, switch_tx := Some (int p, int n)\<rparr>"
  have A0: "mAdapters W0 = mAdapters W" and tx0: "switch_tx W0 = Some (int p, int n)"
    by (simp_all add: W0_def)
  have st: "mState (mAdapters W ! n) = kDisconnected" "mState (mAdapters W ! p) = kSleeping"
    using assms(3,5) by (simp_all add: idle_adapter_def sleeping_idle_def)
  then have np: "n \<noteq> p" by auto
  obtain an where c: "on_adapter (int n) (connect_or_wake_up (Some Connect_next) True (world_impl wn W0)) W0
      = Inr ([(Connect_next, True)], W0\<lparr>mAdapters := (mAdapters W0)[n := an]\<rparr>)"
    using connect_next [of n W0 "world_impl wn W0"] assms(2,3,6-8) unfolding A0 by auto
  define W1 where "W1 = W0\<lparr>mAdapters := (mAdapters W)[n := an]\<rparr>"
  have tx1: "switch_tx W1 = Some (int p, int n)" and p1: "p < length (mAdapters W1)" "sleeping_idle (mAdapters W1 ! p)"
    using tx0 assms(4,5) np by (simp_all add: W1_def)
  have "switch_start wn wp W0 = connect_next_adapter_callback wp True W1"
    using tx0 assms(2) st(1) c by (simp add: switch_start_def A0 W1_def)
  also have "\<dots> = Inl Null_dereference" by (rule switch_sleeping_prev [OF tx1 p1 assms(9,10)])
  finally show ?thesis using assms(1) by (simp add: switch_adapters_def switch_run_def W0_def)
qed



end
