(* ===== verification/CoreControl.thy ===== *)
theory CoreControl
  imports SwitcherContract
begin

text \<open>
  Starting and stopping: \<open>sc::Core\<close> with its two transactions (linux/core/src/Core.cpp), the blocking calls of
  linux/core/src/API.cpp around them, the registration of adapters, and the statistics of Stats.cpp. The
  data path of the core is in theory \<open>Transport\<close>. The monitor and the logger are only told to start
  and stop here.
\<close>

section \<open>Starting\<close>

definition done_start :: "bool \<Rightarrow> world \<Rightarrow> world" where
  "done_start is_success W =
     (if is_success
      then W\<lparr>mCoreState := kCoreStateReady, receiving_thread := True, start_sc_done := start_sc_done W @ [True]\<rparr>
      else W\<lparr>mCoreState := kCoreStateIdle\<rparr>)"

definition start_transaction_done :: "bool \<Rightarrow> world \<Rightarrow> world" where
  "start_transaction_done is_success W = (done_start is_success W)\<lparr>start_tx := False\<rparr>"

definition connect_first_adapter_callback :: "bool \<Rightarrow> world \<Rightarrow> fault + world" where
  "connect_first_adapter_callback is_success W =
     (if \<not> start_tx W then Inl Null_dereference else Inr (start_transaction_done is_success W))"

definition start_transaction_start :: "impl \<Rightarrow> world \<Rightarrow> fault + world" where
  "start_transaction_start w W =
     (if mAdapters W = [] then Inr (start_transaction_done False W)
      else and_then (on_adapter 0 (connect (Some Start_core) (world_impl w W)) W)
             (\<lambda>(cbs, W1). fold_ok (\<lambda>(cb, b). connect_first_adapter_callback b) cbs W1))"

definition start_transaction_run :: "impl \<Rightarrow> world \<Rightarrow> fault + world" where
  "start_transaction_run w W =
     (if start_tx W then Inr (done_start False W) else start_transaction_start w (W\<lparr>start_tx := True\<rparr>))"

definition core_start :: "bool \<Rightarrow> impl \<Rightarrow> world \<Rightarrow> fault + world" where
  "core_start is_root w W =
     (if \<not> is_root then Inl Process_exit
      else if mCoreState W \<noteq> kCoreStateIdle then Inr (done_start False W)
      else if mAdapters W = [] then Inr (done_start False W)
      else start_transaction_run w (W\<lparr>mCoreState := kCoreStateStarting\<rparr>))"

section \<open>Stopping\<close>

definition done_stop :: "bool \<Rightarrow> world \<Rightarrow> world" where
  "done_stop is_success W =
     (if is_success then W\<lparr>mCoreState := kCoreStateIdle, receiving_thread := False,
                          stop_sc_done := stop_sc_done W @ [True]\<rparr>
      else W\<lparr>mCoreState := kCoreStateReady, stop_sc_done := stop_sc_done W @ [False]\<rparr>)"

definition stop_transaction_done :: "bool \<Rightarrow> world \<Rightarrow> world" where
  "stop_transaction_done is_success W = (done_stop is_success W)\<lparr>stop_tx := None\<rparr>"

text \<open>The callback for the adapter with index \<open>k\<close>.\<close>

definition disconnect_adapter_callback :: "nat \<Rightarrow> bool \<Rightarrow> world \<Rightarrow> fault + world" where
  "disconnect_adapter_callback k is_success W =
     (if \<not> is_success
      then Inr (if stop_tx W \<noteq> None then stop_transaction_done False W else W)
      else and_then (on_adapter (int k) finish_thread W) (\<lambda>(cbs, W1).
        case stop_tx W1 of None \<Rightarrow> Inl Null_dereference
        | Some left \<Rightarrow>
          (let W2 = W1\<lparr>stop_tx := Some (left - 1)\<rparr>
           in Inr (if left - 1 = 0 then stop_transaction_done True W2 else W2))))"

definition needs_disconnect :: "callback adapter \<Rightarrow> bool" where
  "needs_disconnect a \<longleftrightarrow> mState a \<noteq> kDisconnected \<and> mState a \<noteq> kDisconnecting"

text \<open>The loop over the adapters; \<open>ws k\<close> are the plugins of adapter \<open>k\<close>.\<close>

definition stop_one :: "(nat \<Rightarrow> impl) \<Rightarrow> nat \<Rightarrow> world \<Rightarrow> fault + world" where
  "stop_one ws k W =
     (if needs_disconnect (mAdapters W ! k)
      then and_then (on_adapter (int k) (disconnect_on_command (Some Stop_core) (world_impl (ws k) W)) W)
             (\<lambda>(cbs, W1). fold_ok (\<lambda>(cb, b). disconnect_adapter_callback k b) cbs W1)
      else Inr W)"

definition stop_transaction_start :: "(nat \<Rightarrow> impl) \<Rightarrow> world \<Rightarrow> fault + world" where
  "stop_transaction_start ws W =
     fold_ok (stop_one ws) [0..<length (mAdapters W)]
       (W\<lparr>stop_tx := Some (int (length (filter needs_disconnect (mAdapters W))))\<rparr>)"

definition stop_transaction_run :: "(nat \<Rightarrow> impl) \<Rightarrow> world \<Rightarrow> fault + world" where
  "stop_transaction_run ws W =
     (if stop_tx W = None then stop_transaction_start ws (W\<lparr>stop_tx := Some 0\<rparr>) else Inr (done_stop False W))"

definition core_stop :: "(nat \<Rightarrow> impl) \<Rightarrow> world \<Rightarrow> fault + world" where
  "core_stop ws W =
     (if mCoreState W \<in> {kCoreStateStarting, kCoreStateStopping, kCoreStateIdle} then Inr (done_stop False W)
      else if mAdapters W = [] then Inr (done_stop False W)
      else stop_transaction_run ws (W\<lparr>mCoreState := kCoreStateStopping\<rparr>))"

definition register_adapter ::
    "sender_thread \<Rightarrow> loop_thread \<Rightarrow> callback adapter \<Rightarrow> world \<Rightarrow> world" where
  "register_adapter u v a W =
     (if mCoreState W \<noteq> kCoreStateIdle then W else W\<lparr>mAdapters := mAdapters W @ [launch_threads u v a]\<rparr>)"

text \<open>The two hooks are virtual functions of the adapter plugins.\<close>

definition prepare_switch ::
    "(int \<Rightarrow> int \<Rightarrow> callback adapter \<Rightarrow> callback adapter) \<Rightarrow> int \<Rightarrow> int \<Rightarrow> world \<Rightarrow> world" where
  "prepare_switch hook prev_id next_id W = W\<lparr>mAdapters := map (hook prev_id next_id) (mAdapters W)\<rparr>"

definition cancel_preparing_switch ::
    "(int \<Rightarrow> int \<Rightarrow> callback adapter \<Rightarrow> callback adapter) \<Rightarrow> int \<Rightarrow> int \<Rightarrow> world \<Rightarrow> world" where
  "cancel_preparing_switch hook prev_id next_id W = W\<lparr>mAdapters := map (hook prev_id next_id) (mAdapters W)\<rparr>"

section \<open>The blocking calls\<close>

text \<open>
  The caller waits until the transaction has reported its end. Nothing else reports it, so a call in
  whose course nothing was reported blocks.
\<close>

definition start_sc :: "bool \<Rightarrow> bool \<Rightarrow> bool \<Rightarrow> impl \<Rightarrow> world \<Rightarrow> fault + bool \<times> world" where
  "start_sc is_monitor is_logging is_root w W =
     and_then (core_start is_root w (W\<lparr>start_sc_done := []\<rparr>)) (\<lambda>W1.
     let W2 = (if is_monitor then W1\<lparr>monitoring := True\<rparr> else W1);
         W3 = (if is_logging then W2\<lparr>logging := True\<rparr> else W2)
     in if start_sc_done W3 = [] then Inl Would_block else Inr (last (start_sc_done W3), W3))"

definition stop_sc :: "bool \<Rightarrow> bool \<Rightarrow> (nat \<Rightarrow> impl) \<Rightarrow> world \<Rightarrow> fault + bool \<times> world" where
  "stop_sc is_monitor is_logging ws W =
     (let W0 = W\<lparr>stop_sc_done := []\<rparr>;
          W1 = (if is_monitor then W0\<lparr>monitoring := False\<rparr> else W0)
      in and_then (if is_logging then core_stop ws (W1\<lparr>logging := False\<rparr>) else Inr W1) (\<lambda>W2.
         if stop_sc_done W2 = [] then Inl Would_block else Inr (last (stop_sc_done W2), W2)))"

section \<open>Statistics\<close>

text \<open>\<open>get_bandwidth_up\<close> and \<open>get_bandwidth_down\<close> compute the speed and do not return it.\<close>

definition get_bandwidth_up :: "u64 \<Rightarrow> 'cb adapter \<Rightarrow> fault + i32" where
  "get_bandwidth_up now a = and_then (get_speed_locked now (mSendDataSize a)) (\<lambda>_. Inl Missing_return)"

definition get_bandwidth_down :: "u64 \<Rightarrow> 'cb adapter \<Rightarrow> fault + i32" where
  "get_bandwidth_down now a = and_then (get_speed_locked now (mReceiveDataSize a)) (\<lambda>_. Inl Missing_return)"

fun add_bandwidths :: "u64 \<Rightarrow> callback adapter list \<Rightarrow> i32 \<Rightarrow> fault + i32" where
  "add_bandwidths now [] total_bandwidth = Inr total_bandwidth"
| "add_bandwidths now (a # as) total_bandwidth =
     and_then (get_bandwidth_up now a) (\<lambda>up. and_then (get_bandwidth_down now a) (\<lambda>down.
     add_bandwidths now as (total_bandwidth + (up + down))))"

definition get_total_bandwidth :: "u64 \<Rightarrow> world \<Rightarrow> fault + i32" where
  "get_total_bandwidth now W = add_bandwidths now (mAdapters W) 0"

record stats =
  ema_queue_arrival_speed :: f32
  now_total_bandwidth :: i32
  ema_send_request_size :: f32
  ema_arrival_time_us :: f32
  now_queue_data_size :: i32
  ema_send_rtt :: f32
  ema_media_rtt :: f32

definition acquire_values :: "u64 \<Rightarrow> world \<Rightarrow> endpoint \<Rightarrow> fault + stats" where
  "acquire_values now W ep =
     and_then (get_ema_queue_arrival_speed (ep_sm ep)) (\<lambda>speed.
     and_then (get_total_bandwidth now W) (\<lambda>bandwidth.
     Inr \<lparr>ema_queue_arrival_speed = fl32 (of_int (sint speed)),
          now_total_bandwidth = bandwidth,
          ema_send_request_size = get_em_average (mSendRequestSize ep),
          ema_arrival_time_us = get_em_average (acCounter (mSendArrivalTime ep)),
          now_queue_data_size = get_queue_data_size kSQSendData (ep_sm ep)
            + get_queue_data_size kSQSendControl (ep_sm ep) + get_failed_sending_queue_data_size (ep_sm ep),
          ema_send_rtt = get_em_average (mSendRTT ep),
          ema_media_rtt = get_em_average (mMediaRTT ep)\<rparr>))"

section \<open>Starting either succeeds or never returns\<close>

lemma start_connects:
  assumes a: "idle_adapter (mAdapters W ! 0)" "mAdapters W \<noteq> []" and tx: "start_tx W"
  shows "\<exists>a'. start_transaction_start w W
      = Inr (start_transaction_done (turn_on_ok w \<and> allow_ok w \<and> open_ok w) (W\<lparr>mAdapters := (mAdapters W)[0 := a']\<rparr>))
    \<and> (if turn_on_ok w \<and> allow_ok w \<and> open_ok w then mState a' = kActive \<and> all_up a' \<and> loops_enabled a'
         \<and> mSenderThread a' = map_option (\<lambda>s. s\<lparr>is_loop_enabled := True\<rparr>) (mSenderThread (mAdapters W ! 0))
       else mState a' = kDisconnected)"
proof -
  let ?a = "mAdapters W ! 0" and ?w = "world_impl w W"
  let ?up = "turn_on_ok w \<and> allow_ok w \<and> open_ok w"
  have k: "0 < length (mAdapters W)" using a(2) by simp
  have ia: "mState ?a = kDisconnected" "all_down ?a" "has_threads ?a"
    using a(1) by (simp_all add: idle_adapter_def)
  obtain a' es where c: "connect (Some Start_core) ?w ?a = Inr a'" "events a' = events ?a @ es"
    "callbacks_of es = [(Start_core, ?up)]"
    "if ?up then mState a' = kActive \<and> all_up a' \<and> loops_enabled a'
         \<and> mSenderThread a' = map_option (\<lambda>s. s\<lparr>is_loop_enabled := True\<rparr>) (mSenderThread ?a)
     else mState a' = kDisconnected"
    using connect_callbacks [OF ia, of Start_core ?w] by auto
  have "on_adapter 0 (connect (Some Start_core) ?w) W
      = Inr ([(Start_core, ?up)], W\<lparr>mAdapters := (mAdapters W)[0 := a']\<rparr>)"
    using on_adapter_nat [where f = "connect (Some Start_core) ?w", OF k c(1,2)] c(3) by simp
  then have "start_transaction_start w W = Inr (start_transaction_done ?up (W\<lparr>mAdapters := (mAdapters W)[0 := a']\<rparr>))"
    using a(2) tx by (simp add: start_transaction_start_def connect_first_adapter_callback_def)
  with c(4) show ?thesis by blast
qed

lemma start_sc_outcome:
  assumes "mCoreState W = kCoreStateIdle" "\<not> start_tx W" "mAdapters W = a # as" "idle_adapter a"
  shows "if turn_on_ok w \<and> allow_ok w \<and> open_ok w
    then \<exists>a' W'. start_sc m l True w W = Inr (True, W') \<and> mCoreState W' = kCoreStateReady
      \<and> receiving_thread W' \<and> mAdapters W' = a' # as \<and> mState a' = kActive \<and> all_up a' \<and> loops_enabled a'
      \<and> mSenderThread a' = map_option (\<lambda>s. s\<lparr>is_loop_enabled := True\<rparr>) (mSenderThread a)
      \<and> switch_tx W' = switch_tx W \<and> mNSState W' = mNSState W \<and> mActiveAdapterIndex W' = mActiveAdapterIndex W
    else start_sc m l True w W = Inl Would_block"
proof -
  let ?up = "turn_on_ok w \<and> allow_ok w \<and> open_ok w"
  define W0 where "W0 = W\<lparr>start_sc_done := [], mCoreState := kCoreStateStarting, start_tx := True\<rparr>"
  have a0: "idle_adapter (mAdapters W0 ! 0)" "mAdapters W0 \<noteq> []" "start_tx W0"
    using assms(3,4) by (simp_all add: W0_def)
  obtain a' where r: "start_transaction_start w W0
      = Inr (start_transaction_done ?up (W0\<lparr>mAdapters := (mAdapters W0)[0 := a']\<rparr>))"
    "if ?up then mState a' = kActive \<and> all_up a' \<and> loops_enabled a'
         \<and> mSenderThread a' = map_option (\<lambda>s. s\<lparr>is_loop_enabled := True\<rparr>) (mSenderThread a)
       else mState a' = kDisconnected"
    using start_connects [OF a0, of w] assms(3) by (auto simp: W0_def)
  have c: "core_start True w (W\<lparr>start_sc_done := []\<rparr>) = start_transaction_start w W0"
    using assms(1-3) by (simp add: core_start_def start_transaction_run_def W0_def)
  show ?thesis
  proof (cases ?up)
    case True
    with r c assms(3) show ?thesis
      by (simp add: start_sc_def Let_def start_transaction_done_def done_start_def W0_def)
  next
    case False
    then have "?up = False" by blast
    with r(1) c show ?thesis
      by (simp add: start_sc_def Let_def start_transaction_done_def done_start_def W0_def)
  qed
qed

text \<open>
  C31: starting the core brings up the first adapter. If it comes up, the core is ready, the
  control receiver runs and \<open>start_sc\<close> returns true. If it does not, the core is idle again, but \<open>done_start\<close>
  returns before it reports the failure, and the caller of \<open>start_sc\<close> waits for ever.
\<close>

theorem start_succeeds_or_hangs:
  assumes "mCoreState W = kCoreStateIdle" "\<not> start_tx W" "mAdapters W \<noteq> []" "idle_adapter (mAdapters W ! 0)"
  shows "if turn_on_ok w \<and> allow_ok w \<and> open_ok w
    then \<exists>W'. start_sc m l True w W = Inr (True, W') \<and> mCoreState W' = kCoreStateReady
      \<and> receiving_thread W' \<and> mState (mAdapters W' ! 0) = kActive \<and> tl (mAdapters W') = tl (mAdapters W)
    else start_sc m l True w W = Inl Would_block"
proof -
  obtain a as where a: "mAdapters W = a # as" using assms(3) by (cases "mAdapters W") auto
  with assms(4) have "idle_adapter a" by simp
  from start_sc_outcome [OF assms(1,2) a this, of w m l] a show ?thesis by (auto split: if_splits)
qed

definition new_world :: "callback adapter list \<Rightarrow> world" where
  "new_world as = (example_world as)\<lparr>mCoreState := kCoreStateIdle, receiving_thread := False,
     monitoring := False, logging := False, start_sc_done := []\<rparr>"

theorem start_succeeds_or_hangs_witness:
  "start_sc True True True (all_fine\<lparr>open_ok := False\<rparr>) (new_world [idle_example 1]) = Inl Would_block"
proof -
  have "mCoreState (new_world [idle_example 1]) = kCoreStateIdle" "\<not> start_tx (new_world [idle_example 1])"
    "mAdapters (new_world [idle_example 1]) \<noteq> []" "idle_adapter (mAdapters (new_world [idle_example 1]) ! 0)"
    using example_adapters(1) by (simp_all add: new_world_def example_world_def)
  from start_succeeds_or_hangs [OF this, of "all_fine\<lparr>open_ok := False\<rparr>" True True] show ?thesis
    by (simp add: all_fine_def)
qed

section \<open>Stopping never succeeds\<close>

text \<open>
  Without a switch under way, the disconnection that the stop transaction commands either faults or
  is refused: the adapter's callback gets false.
\<close>

lemma commanded_stop:
  assumes "\<not> switch_ongoing w" "disconnect_on_command (Some Stop_core) w a = Inr a'"
  shows "\<exists>es. events a' = events a @ es \<and> callbacks_of es = [(Stop_core, False)]"
proof -
  obtain b a1 where s: "wait_for_sleeping w a = Inr (b, a1)"
    using assms(2) unfolding disconnect_on_command_def by (cases "wait_for_sleeping w a") auto
  have "\<not> b"
  proof
    assume b
    then show False
      using assms s by (auto simp: disconnect_on_command_def disconnect_internal_def Let_def split: option.splits)
  qed
  then have "a1 = a" "a' = emit (Callback Stop_core False) a"
    using assms(2) s by (auto simp: disconnect_on_command_def wait_for_sleeping_def split: if_splits)
  then show ?thesis by (intro exI [of _ "[Callback Stop_core False]"]) simp
qed

definition stop_pending :: "bool list \<Rightarrow> world \<Rightarrow> bool" where
  "stop_pending old W \<longleftrightarrow> switch_tx W = None
     \<and> (stop_tx W \<noteq> None \<and> stop_sc_done W = old \<and> mCoreState W = kCoreStateStopping
        \<or> stop_tx W = None \<and> stop_sc_done W = old @ [False] \<and> mCoreState W = kCoreStateReady)"

lemma stop_one_pending:
  assumes "stop_one ws k W = Inr W'" "stop_pending old W"
  shows "stop_pending old W'"
proof (cases "needs_disconnect (mAdapters W ! k)")
  case True
  let ?w = "world_impl (ws k) W"
  obtain cbs W1 where o: "on_adapter (int k) (disconnect_on_command (Some Stop_core) ?w) W = Inr (cbs, W1)"
    "fold_ok (\<lambda>(cb, b). disconnect_adapter_callback k b) cbs W1 = Inr W'"
    using assms(1) True by (auto simp: stop_one_def and_then_eq_Inr)
  obtain a a' where a: "disconnect_on_command (Some Stop_core) ?w a = Inr a'"
    "cbs = callbacks_of (drop (length (events a)) (events a'))" "W1 = W\<lparr>mAdapters := (mAdapters W)[k := a']\<rparr>"
    using o(1) by (auto simp: on_adapter_def and_then_eq_Inr)
  have "\<not> switch_ongoing ?w" using assms(2) by (simp add: stop_pending_def)
  from commanded_stop [OF this a(1)] have "cbs = [(Stop_core, False)]" unfolding a(2) by auto
  then have "W' = (if stop_tx W1 \<noteq> None then stop_transaction_done False W1 else W1)"
    using o(2) by (simp add: disconnect_adapter_callback_def)
  with assms(2) a(3) show ?thesis
    by (auto simp: stop_pending_def stop_transaction_done_def done_stop_def)
qed (use assms in \<open>simp add: stop_one_def\<close>)

definition only_failure :: "world \<Rightarrow> bool" where
  "only_failure W \<longleftrightarrow> stop_sc_done W = [] \<or> stop_sc_done W = [False]"

lemma stop_start_failure:
  assumes "stop_transaction_start ws S = Inr S'" "stop_sc_done S = []" "switch_tx S = None"
    "mCoreState S = kCoreStateStopping"
  shows "only_failure S'"
proof -
  define S0 where "S0 = S\<lparr>stop_tx := Some (int (length (filter needs_disconnect (mAdapters S))))\<rparr>"
  have p: "stop_pending [] S0" using assms(2-4) by (simp add: stop_pending_def S0_def)
  have f: "fold_ok (stop_one ws) [0..<length (mAdapters S)] S0 = Inr S'"
    using assms(1) by (simp add: stop_transaction_start_def S0_def)
  have "stop_pending [] S'"
    by (rule fold_ok_invariant [where I = "stop_pending []", OF _ p f]) (rule stop_one_pending)
  then show ?thesis by (auto simp: stop_pending_def only_failure_def)
qed

lemma core_stop_failure:
  assumes c: "core_stop ws W = Inr W'" and W: "stop_sc_done W = []" "switch_tx W = None"
  shows "only_failure W'"
proof -
  let ?W = "W\<lparr>mCoreState := kCoreStateStopping\<rparr>"
  have d: "only_failure (done_stop False W)" "only_failure (done_stop False ?W)"
    by (simp_all add: only_failure_def done_stop_def W)
  have "core_stop ws W \<in> {Inr (done_stop False W), Inr (done_stop False ?W),
      stop_transaction_start ws (?W\<lparr>stop_tx := Some 0\<rparr>)}"
    by (simp add: core_stop_def stop_transaction_run_def)
  with c consider "W' = done_stop False W" | "W' = done_stop False ?W"
    | "stop_transaction_start ws (?W\<lparr>stop_tx := Some 0\<rparr>) = Inr W'"
    by auto
  then show ?thesis
  proof cases
    case 3
    show ?thesis by (rule stop_start_failure [OF 3]) (simp_all add: W)
  qed (simp_all add: d)
qed

text \<open>
  C33: outside a switch, \<open>stop_sc\<close> never reports success. It reports failure as soon as one adapter is
  neither disconnected nor asleep, because the commanded disconnection accepts only sleeping adapters;
  for a sleeping adapter it dereferences the missing switch transaction; and if all adapters are
  disconnected, or the call does not ask for logging to stop, it waits for ever.
\<close>

theorem stop_never_succeeds:
  assumes "switch_tx W = None"
  shows "stop_sc m l ws W \<noteq> Inr (True, W')"
proof
  assume r: "stop_sc m l ws W = Inr (True, W')"
  define W1 where "W1 = (if m then W\<lparr>stop_sc_done := []\<rparr>\<lparr>monitoring := False\<rparr> else W\<lparr>stop_sc_done := []\<rparr>)"
  have W1: "stop_sc_done W1 = []" "switch_tx W1 = None" using assms by (simp_all add: W1_def)
  obtain W2 where W2: "(if l then core_stop ws (W1\<lparr>logging := False\<rparr>) else Inr W1) = Inr W2"
    "stop_sc_done W2 \<noteq> []" "last (stop_sc_done W2)"
    using r unfolding stop_sc_def Let_def W1_def [symmetric] and_then_eq_Inr by (auto split: if_splits)
  have "only_failure W2"
  proof (cases l)
    case True
    with W2(1) have "core_stop ws (W1\<lparr>logging := False\<rparr>) = Inr W2" by simp
    then show ?thesis by (rule core_stop_failure) (simp_all add: W1)
  qed (use W2 W1 in \<open>simp add: only_failure_def\<close>)
  with W2(2,3) show False by (auto simp: only_failure_def)
qed

theorem stop_never_succeeds_witness:
  "stop_sc True True (\<lambda>_. all_fine) (example_world [active_example 1])
     \<noteq> Inr (True, example_world [active_example 1])"
  by (rule stop_never_succeeds) (simp add: example_world_def)

end
