(* ===== verification/Policies.thy ===== *)
theory Policies
  imports CoreControl
begin

text \<open>
  The network selection policies that decide on the present statistics or on events alone
  (linux/policy: \<open>NMPolicyManual\<close>, \<open>NMPolicyAppManual\<close>, \<open>NMPolicyBtOnly\<close>, \<open>NMPolicyWfdOnly\<close>,
  \<open>NMPolicyThroughputAware\<close>), and the contract every policy meets. What \<open>NMPolicy\<close> prints around a
  decision is left out. A decision takes the clock, which only the history-based policy
  reads, and can fault.
\<close>

section \<open>Decisions\<close>

datatype switch_behavior =
    kNoBehavior | kIncreaseAdapter | kDecreaseAdapter
  | kPrepareIncreaseAdapter | kPrepareDecreaseAdapter | kCancelPrepareSwitchAdapter

type_synonym timeval = "int \<times> int"

type_synonym 's decision = "timeval \<Rightarrow> stats \<Rightarrow> bool \<Rightarrow> bool \<Rightarrow> 's \<Rightarrow> fault + switch_behavior \<times> 's"

section \<open>The policies\<close>

subsection \<open>Manual\<close>

record manual_policy =
  mWFDMode :: bool

definition manual_ctor :: manual_policy where
  "manual_ctor = \<lparr>mWFDMode = False\<rparr>"

definition manual_stats_string :: "'a manual_policy_scheme \<Rightarrow> string" where
  "manual_stats_string s = (if mWFDMode s then ''WFD Mode'' else ''BT Mode'')"

definition manual_event :: "string \<Rightarrow> manual_policy \<Rightarrow> manual_policy" where
  "manual_event event_description s =
     (if event_description = ''wfd'' then s\<lparr>mWFDMode := True\<rparr>
      else if event_description = ''bt'' then s\<lparr>mWFDMode := False\<rparr>
      else s)"

definition manual_behavior :: "bool \<Rightarrow> bool \<Rightarrow> 'a manual_policy_scheme \<Rightarrow> switch_behavior" where
  "manual_behavior is_increasable is_decreasable s =
     (if mWFDMode s \<and> is_increasable then kIncreaseAdapter
      else if \<not> mWFDMode s \<and> is_decreasable then kDecreaseAdapter
      else kNoBehavior)"

definition manual_decide :: "manual_policy decision" where
  "manual_decide now st is_increasable is_decreasable s =
     Inr (manual_behavior is_increasable is_decreasable s, s)"

subsection \<open>Manual by application\<close>

record app_manual_policy = manual_policy +
  mPresentAppName :: string

definition app_manual_ctor :: app_manual_policy where
  "app_manual_ctor = \<lparr>mWFDMode = False, mPresentAppName = ''''\<rparr>"

text \<open>\<open>snprintf\<close> cuts the text at 255 characters.\<close>

definition app_manual_stats_string :: "app_manual_policy \<Rightarrow> string" where
  "app_manual_stats_string s =
     take 255 ((if mWFDMode s then ''WFD Mode ('' else ''BT Mode ('') @ mPresentAppName s @ '')'')"

definition app_manual_event :: "string \<Rightarrow> app_manual_policy \<Rightarrow> app_manual_policy" where
  "app_manual_event event_description s =
     (let s1 = s\<lparr>mPresentAppName := event_description\<rparr> in
      if event_description = ''1-newsbriefing'' \<or> event_description = ''3-navermap''
      then s1\<lparr>mWFDMode := True\<rparr>
      else if event_description = ''2-remotecamera'' \<or> event_description = ''4-webbrowsing''
      then s1\<lparr>mWFDMode := False\<rparr>
      else s1)"

definition app_manual_decide :: "app_manual_policy decision" where
  "app_manual_decide now st is_increasable is_decreasable s =
     Inr (if mWFDMode s \<and> is_increasable then (kIncreaseAdapter, s)
          else if \<not> mWFDMode s \<and> is_decreasable then (kDecreaseAdapter, s)
          else (kNoBehavior, s))"

subsection \<open>One adapter only\<close>

definition bt_only_decide :: "unit decision" where
  "bt_only_decide now st is_increasable is_decreasable s =
     Inr (if is_decreasable then kDecreaseAdapter else kNoBehavior, s)"

record wfd_only_policy = manual_policy +
  mIsAppStarted :: bool

definition wfd_only_ctor :: wfd_only_policy where
  "wfd_only_ctor = \<lparr>mWFDMode = False, mIsAppStarted = False\<rparr>"

definition wfd_only_event :: "string \<Rightarrow> wfd_only_policy \<Rightarrow> wfd_only_policy" where
  "wfd_only_event event_description s =
     (if event_description \<noteq> '''' then s\<lparr>mIsAppStarted := True\<rparr> else s)"

definition wfd_only_decide :: "wfd_only_policy decision" where
  "wfd_only_decide now st is_increasable is_decreasable s =
     Inr (if mIsAppStarted s \<and> is_increasable then kIncreaseAdapter else kNoBehavior, s)"

subsection \<open>Throughput-aware\<close>

record throughput_policy = manual_policy +
  mIncreaseCount :: i32
  mDecreaseCount :: i32

definition INCREASE_THRESHOLD_BUFFER_LENGTH_BYTES :: int where
  "INCREASE_THRESHOLD_BUFFER_LENGTH_BYTES = 10 * 1000"
definition INCREASE_COUNT_THRESHOLD :: int where "INCREASE_COUNT_THRESHOLD = 5"
definition DECREASE_THRESHOLD_BANDWIDTH_BYTES_PER_SEC :: int where
  "DECREASE_THRESHOLD_BANDWIDTH_BYTES_PER_SEC = 62500"
definition DECREASE_COUNT_THRESHOLD :: int where "DECREASE_COUNT_THRESHOLD = 50"

lemmas throughput_thresholds = INCREASE_THRESHOLD_BUFFER_LENGTH_BYTES_def INCREASE_COUNT_THRESHOLD_def
  DECREASE_THRESHOLD_BANDWIDTH_BYTES_PER_SEC_def DECREASE_COUNT_THRESHOLD_def

definition throughput_ctor :: throughput_policy where
  "throughput_ctor = \<lparr>mWFDMode = False, mIncreaseCount = 0, mDecreaseCount = 0\<rparr>"

definition throughput_step ::
    "stats \<Rightarrow> bool \<Rightarrow> bool \<Rightarrow> throughput_policy \<Rightarrow> switch_behavior \<times> throughput_policy" where
  "throughput_step st is_increasable is_decreasable s =
     (if is_increasable then
        if sint (now_queue_data_size st) > INCREASE_THRESHOLD_BUFFER_LENGTH_BYTES then
          let s1 = s\<lparr>mIncreaseCount := mIncreaseCount s + 1\<rparr> in
          if sint (mIncreaseCount s1) \<ge> INCREASE_COUNT_THRESHOLD
          then (kIncreaseAdapter, s1\<lparr>mIncreaseCount := 0, mWFDMode := True\<rparr>)
          else (kNoBehavior, s1)
        else (kNoBehavior, s\<lparr>mIncreaseCount := 0\<rparr>)
      else if is_decreasable then
        if sint (now_total_bandwidth st) < DECREASE_THRESHOLD_BANDWIDTH_BYTES_PER_SEC then
          let s1 = s\<lparr>mDecreaseCount := mDecreaseCount s + 1\<rparr> in
          if sint (mDecreaseCount s1) \<ge> DECREASE_COUNT_THRESHOLD
          then (kDecreaseAdapter, s1\<lparr>mDecreaseCount := 0, mWFDMode := False\<rparr>)
          else (kNoBehavior, s1)
        else (kNoBehavior, s\<lparr>mDecreaseCount := 0\<rparr>)
      else (kNoBehavior, s))"

definition throughput_decide :: "throughput_policy decision" where
  "throughput_decide now st is_increasable is_decreasable s =
     Inr (throughput_step st is_increasable is_decreasable s)"

section \<open>The contract of a policy\<close>

text \<open>
  A policy asks for a higher adapter only when there is one, and for a lower one only when there
  is one; it never asks for the preparation of a switch, which the monitor ignores.
\<close>

locale selection_policy =
  fixes decide :: "'s decision"
  assumes increase_possible: "decide now st i d s = Inr (kIncreaseAdapter, s') \<Longrightarrow> i"
    and decrease_possible: "decide now st i d s = Inr (kDecreaseAdapter, s') \<Longrightarrow> d"
    and basic_behavior: "decide now st i d s = Inr (b, s') \<Longrightarrow> b \<in> {kNoBehavior, kIncreaseAdapter, kDecreaseAdapter}"
begin

lemma alone: "decide now st False False s = Inr (b, s') \<Longrightarrow> b = kNoBehavior"
  using increase_possible decrease_possible basic_behavior by blast

end

interpretation manual: selection_policy manual_decide
  by unfold_locales (auto simp: manual_decide_def manual_behavior_def split: if_splits)

interpretation app_manual: selection_policy app_manual_decide
  by unfold_locales (auto simp: app_manual_decide_def split: if_splits)

interpretation bt_only: selection_policy bt_only_decide
  by unfold_locales (auto simp: bt_only_decide_def split: if_splits)

interpretation wfd_only: selection_policy wfd_only_decide
  by unfold_locales (auto simp: wfd_only_decide_def split: if_splits)

interpretation throughput: selection_policy throughput_decide
  by unfold_locales (auto simp: throughput_decide_def throughput_step_def Let_def split: if_splits)

section \<open>Manual: the last command counts\<close>

text \<open>The mode a history of events asks for.\<close>

definition commands :: "string list \<Rightarrow> bool list" where
  "commands es = map (\<lambda>e. e = ''wfd'') (filter (\<lambda>e. e = ''wfd'' \<or> e = ''bt'') es)"

lemma manual_mode: "mWFDMode (fold manual_event es s) = last (mWFDMode s # commands es)"
proof (induction es arbitrary: s)
  case (Cons e es)
  have "mWFDMode (manual_event e s) = last (mWFDMode s # commands [e])"
    by (simp add: manual_event_def commands_def)
  with Cons show ?case by (simp add: commands_def)
qed (simp add: commands_def)

text \<open>
  The manual policy obeys the last valid command. After any events it asks for a higher adapter
  exactly if the last "wfd" or "bt" was "wfd" and there is a higher one, for a lower one exactly
  if it was "bt" or there was none, and there is a lower one; any other text is ignored.
\<close>

lemma manual_obeys_last_command:
  "manual_decide now st i d (fold manual_event es manual_ctor)
     = Inr (if last (False # commands es) \<and> i then kIncreaseAdapter
            else if \<not> last (False # commands es) \<and> d then kDecreaseAdapter else kNoBehavior,
            fold manual_event es manual_ctor)"
  using manual_mode [of es manual_ctor]
  by (simp add: manual_decide_def manual_behavior_def manual_ctor_def)

section \<open>Throughput-aware: hysteresis\<close>

text \<open>An input of the policy: the statistics and the two flags.\<close>

type_synonym policy_input = "stats \<times> bool \<times> bool"

definition throughput_run :: "policy_input list \<Rightarrow> throughput_policy" where
  "throughput_run xs = fold (\<lambda>(st, i, d) s. snd (throughput_step st i d s)) xs throughput_ctor"

definition busy :: "policy_input \<Rightarrow> bool" where
  "busy x \<longleftrightarrow> sint (now_queue_data_size (fst x)) > 10 * 1000"

definition idle :: "policy_input \<Rightarrow> bool" where
  "idle x \<longleftrightarrow> sint (now_total_bandwidth (fst x)) < 62500"

text \<open>The length of the run of inputs with property \<open>P\<close> that the list ends with.\<close>

definition streak :: "('a \<Rightarrow> bool) \<Rightarrow> 'a list \<Rightarrow> nat" where
  "streak P xs = length (takeWhile P (rev xs))"

lemma streak_simps [simp]:
  "streak P [] = 0"
  "streak P (xs @ [x]) = (if P x then Suc (streak P xs) else 0)"
  by (simp_all add: streak_def)

definition increasable_part :: "policy_input list \<Rightarrow> policy_input list" where
  "increasable_part = filter (\<lambda>x. fst (snd x))"

definition decreasable_part :: "policy_input list \<Rightarrow> policy_input list" where
  "decreasable_part = filter (\<lambda>x. \<not> fst (snd x) \<and> snd (snd x))"

lemma parts_snoc [simp]:
  "increasable_part (xs @ [x]) = (if fst (snd x) then increasable_part xs @ [x] else increasable_part xs)"
  "decreasable_part (xs @ [x]) = (if \<not> fst (snd x) \<and> snd (snd x) then decreasable_part xs @ [x] else decreasable_part xs)"
  by (simp_all add: increasable_part_def decreasable_part_def)

text \<open>The counters are the lengths of the streaks, modulo the thresholds.\<close>

lemma sint_small: "m \<le> 50 \<Longrightarrow> sint (of_nat m :: i32) = int m"
  using int_word_sint [of "int m", where 'a = 32] by simp

lemma word_count_step:
  assumes c: "c = (of_nat (k mod n) :: i32)" and n: "0 < n" "n \<le> 50"
  shows "int n \<le> sint (c + 1) \<longleftrightarrow> Suc k mod n = 0"
    and "Suc k mod n \<noteq> 0 \<Longrightarrow> c + 1 = of_nat (Suc k mod n)"
proof -
  have m: "Suc (k mod n) \<le> n" using n(1) by (simp add: Suc_leI)
  have c1: "c + 1 = of_nat (Suc (k mod n))" by (simp add: c)
  have "sint (c + 1) = int (Suc (k mod n))" unfolding c1 using m n(2) by (intro sint_small) simp
  then show "int n \<le> sint (c + 1) \<longleftrightarrow> Suc k mod n = 0" using m by (simp add: mod_Suc)
  show "Suc k mod n \<noteq> 0 \<Longrightarrow> c + 1 = of_nat (Suc k mod n)" unfolding c1 by (auto simp: mod_Suc split: if_splits)
qed

lemma throughput_step_eq [policy_simps]:
  "throughput_step st i d s =
    (if i then
       if busy (st, i, d) then
         if 5 \<le> sint (mIncreaseCount s + 1) then (kIncreaseAdapter, s\<lparr>mIncreaseCount := 0, mWFDMode := True\<rparr>)
         else (kNoBehavior, s\<lparr>mIncreaseCount := mIncreaseCount s + 1\<rparr>)
       else (kNoBehavior, s\<lparr>mIncreaseCount := 0\<rparr>)
     else if d then
       if idle (st, i, d) then
         if 50 \<le> sint (mDecreaseCount s + 1) then (kDecreaseAdapter, s\<lparr>mDecreaseCount := 0, mWFDMode := False\<rparr>)
         else (kNoBehavior, s\<lparr>mDecreaseCount := mDecreaseCount s + 1\<rparr>)
       else (kNoBehavior, s\<lparr>mDecreaseCount := 0\<rparr>)
     else (kNoBehavior, s))"
  by (simp add: throughput_step_def Let_def busy_def idle_def throughput_thresholds)

lemma throughput_counts:
  "mIncreaseCount (throughput_run xs) = of_nat (streak busy (increasable_part xs) mod 5) \<and>
   mDecreaseCount (throughput_run xs) = of_nat (streak idle (decreasable_part xs) mod 50)"
proof (induction xs rule: rev_induct)
  case Nil
  show ?case by (simp add: throughput_run_def throughput_ctor_def increasable_part_def decreasable_part_def)
next
  case (snoc x xs)
  obtain st i d where x: "x = (st, i, d)" by (cases x)
  define s where "s = throughput_run xs"
  have r: "throughput_run (xs @ [x]) = snd (throughput_step st i d s)"
    by (simp add: throughput_run_def s_def x)
  note c = snoc [folded s_def]
  note inc = word_count_step [OF c [THEN conjunct1], simplified]
    and dec = word_count_step [OF c [THEN conjunct2], simplified]
  show ?case
  proof (cases i)
    case True
    then show ?thesis unfolding r using inc c by (simp add: x policy_simps)
  next
    case False
    then show ?thesis unfolding r using dec c by (simp add: x policy_simps)
  qed
qed

text \<open>
  C38: the throughput-aware policy waits before it switches. It asks for a higher adapter
  exactly at every fifth decision in a row at which more than 10000 bytes are queued, and for a lower
  one exactly at every fiftieth in a row at which the bandwidth is below 62500 bytes per second;
  decisions at which the direction is not available do not interrupt the row.
\<close>

theorem throughput_hysteresis:
  "(fst (throughput_step st i d (throughput_run xs)) = kIncreaseAdapter \<longleftrightarrow>
     i \<and> 0 < streak busy (increasable_part (xs @ [(st, i, d)]))
       \<and> streak busy (increasable_part (xs @ [(st, i, d)])) mod 5 = 0)
   \<and> (fst (throughput_step st i d (throughput_run xs)) = kDecreaseAdapter \<longleftrightarrow>
     \<not> i \<and> d \<and> 0 < streak idle (decreasable_part (xs @ [(st, i, d)]))
       \<and> streak idle (decreasable_part (xs @ [(st, i, d)])) mod 50 = 0)"
proof -
  define s where "s = throughput_run xs"
  note c = throughput_counts [of xs, folded s_def]
  note inc = word_count_step(1) [OF c [THEN conjunct1], simplified]
    and dec = word_count_step(1) [OF c [THEN conjunct2], simplified]
  show ?thesis using inc dec unfolding s_def [symmetric] by (simp add: policy_simps)
qed

end
