(* ===== verification/NetworkMonitor.thy ===== *)
theory NetworkMonitor
  imports Policies
begin

text \<open>
  \<open>sc::NetworkMonitorThread\<close> (linux/core/src/NetworkMonitorThread.cpp): one pass of the monitor takes the
  statistics, asks the policy and starts a switch to the neighbouring adapter. The policy is an
  argument, a state and its \<open>decide\<close>; \<open>None\<close> is the null pointer the monitor starts with. The printing of
  statistics is compiled out by the configuration or writes only to the terminal.
\<close>

section \<open>The bounds of a switch\<close>

definition get_adapter_count :: "world \<Rightarrow> int" where
  "get_adapter_count W = int (length (mAdapters W))"

definition is_increaseable :: "world \<Rightarrow> bool" where
  "is_increaseable W \<longleftrightarrow> get_adapter_count W > 1 \<and> mActiveAdapterIndex W < get_adapter_count W - 1"

definition is_decreaseable :: "world \<Rightarrow> bool" where
  "is_decreaseable W \<longleftrightarrow> get_adapter_count W > 1 \<and> mActiveAdapterIndex W > 0"

definition increase_adapter :: "impl \<Rightarrow> impl \<Rightarrow> world \<Rightarrow> fault + bool \<times> world" where
  "increase_adapter wn wp W =
     (if get_adapter_count W = 0 then Inr (False, W)
      else if \<not> is_increaseable W then Inr (False, W)
      else switch_adapters (mActiveAdapterIndex W) (mActiveAdapterIndex W + 1) wn wp W)"

definition decrease_adapter :: "impl \<Rightarrow> impl \<Rightarrow> world \<Rightarrow> fault + bool \<times> world" where
  "decrease_adapter wn wp W =
     (if get_adapter_count W = 0 then Inr (False, W)
      else if \<not> is_decreaseable W then Inr (False, W)
      else switch_adapters (mActiveAdapterIndex W) (mActiveAdapterIndex W - 1) wn wp W)"

section \<open>One pass\<close>

text \<open>
  \<open>wn\<close> and \<open>wp\<close> are the plugins of the next and the previous adapter, \<open>hook\<close> the adapters' virtual
  \<open>cancel_preparing_switch\<close>.
\<close>

definition check_and_decide_switching ::
    "'s decision \<Rightarrow> (int \<Rightarrow> int \<Rightarrow> callback adapter \<Rightarrow> callback adapter) \<Rightarrow> timeval \<Rightarrow> stats
     \<Rightarrow> impl \<Rightarrow> impl \<Rightarrow> 's option \<Rightarrow> world \<Rightarrow> fault + 's option \<times> world" where
  "check_and_decide_switching decide hook now st wn wp policy W =
     (case policy of None \<Rightarrow> Inl Null_dereference
      | Some s \<Rightarrow>
        and_then (decide now st (is_increaseable W) (is_decreaseable W) s) (\<lambda>(behavior, s1).
        let prev_index = mActiveAdapterIndex W;
            next_index = (if is_increaseable W then prev_index + 1 else prev_index - 1)
        in case behavior of
             kIncreaseAdapter \<Rightarrow> and_then (increase_adapter wn wp W) (\<lambda>(res, W1). Inr (Some s1, W1))
           | kDecreaseAdapter \<Rightarrow> and_then (decrease_adapter wn wp W) (\<lambda>(res, W1). Inr (Some s1, W1))
           | kPrepareIncreaseAdapter \<Rightarrow> Inr (Some s1, W)
           | kPrepareDecreaseAdapter \<Rightarrow> Inr (Some s1, W)
           | kCancelPrepareSwitchAdapter \<Rightarrow> Inr (Some s1, cancel_preparing_switch hook prev_index next_index W)
           | kNoBehavior \<Rightarrow> Inr (Some s1, W)))"

definition monitor_pass ::
    "'s decision \<Rightarrow> (int \<Rightarrow> int \<Rightarrow> callback adapter \<Rightarrow> callback adapter) \<Rightarrow> timeval
     \<Rightarrow> impl \<Rightarrow> impl \<Rightarrow> 's option \<Rightarrow> endpoint \<Rightarrow> world \<Rightarrow> fault + 's option \<times> endpoint \<times> world" where
  "monitor_pass decide hook now wn wp policy ep W =
     (let now_us = tv_to_usec (fst now) (snd now) in
      and_then (update_queue_arrival_speed now_us (ep_sm ep)) (\<lambda>sm1.
      let ep1 = ep\<lparr>ep_sm := sm1\<rparr> in
      and_then (acquire_values now_us W ep1) (\<lambda>st.
      if mNSState W = kNSStateReady
      then and_then (check_and_decide_switching decide hook now st wn wp policy W) (\<lambda>(policy1, W1).
           Inr (policy1, ep1, W1))
      else Inr (policy, ep1, W))))"

section \<open>The monitor moves to a neighbour\<close>

text \<open>
  The specification: a decision moves the selection by one within the \<open>n\<close> adapters, or not at all.
\<close>

definition target :: "switch_behavior \<Rightarrow> int \<Rightarrow> nat \<Rightarrow> int option" where
  "target b m n =
     (if b = kIncreaseAdapter \<and> m + 1 < int n then Some (m + 1)
      else if b = kDecreaseAdapter \<and> 0 < m then Some (m - 1) else None)"

lemma target_in_range:
  "target b m n = Some k \<Longrightarrow> 0 \<le> m \<Longrightarrow> m < int n \<Longrightarrow> 0 \<le> k \<and> k < int n \<and> \<bar>k - m\<bar> = 1"
  by (auto simp: target_def split: if_splits)

lemma directions:
  assumes "0 \<le> mActiveAdapterIndex W" "mActiveAdapterIndex W < int (length (mAdapters W))"
  shows "is_increaseable W \<longleftrightarrow> mActiveAdapterIndex W + 1 < int (length (mAdapters W))"
    "is_decreaseable W \<longleftrightarrow> 0 < mActiveAdapterIndex W" "get_adapter_count W \<noteq> 0"
  using assms by (auto simp: is_increaseable_def is_decreaseable_def get_adapter_count_def)

text \<open>
  The monitor implements the specification \<open>target\<close>: whatever a policy answers, one pass starts at
  most one switch, from the active adapter to a neighbour that exists, and else leaves the adapters
  alone (but for the hook that cancels preparations).
\<close>

lemma monitor_moves_to_neighbour:
  assumes "0 \<le> mActiveAdapterIndex W" "mActiveAdapterIndex W < int (length (mAdapters W))"
  shows "check_and_decide_switching decide hook now st wn wp (Some s) W =
      and_then (decide now st (is_increaseable W) (is_decreaseable W) s) (\<lambda>(b, s1).
        case target b (mActiveAdapterIndex W) (length (mAdapters W)) of
          Some k \<Rightarrow> and_then (switch_adapters (mActiveAdapterIndex W) k wn wp W) (\<lambda>(res, W1). Inr (Some s1, W1))
        | None \<Rightarrow> Inr (Some s1,
            if b = kCancelPrepareSwitchAdapter
            then cancel_preparing_switch hook (mActiveAdapterIndex W)
                   (if is_increaseable W then mActiveAdapterIndex W + 1 else mActiveAdapterIndex W - 1) W
            else W))
    \<and> (\<forall>b k. target b (mActiveAdapterIndex W) (length (mAdapters W)) = Some k \<longrightarrow>
        0 \<le> k \<and> k < int (length (mAdapters W)) \<and> \<bar>k - mActiveAdapterIndex W\<bar> = 1)"
proof (intro conjI allI impI)
  show "check_and_decide_switching decide hook now st wn wp (Some s) W =
      and_then (decide now st (is_increaseable W) (is_decreaseable W) s) (\<lambda>(b, s1).
        case target b (mActiveAdapterIndex W) (length (mAdapters W)) of
          Some k \<Rightarrow> and_then (switch_adapters (mActiveAdapterIndex W) k wn wp W) (\<lambda>(res, W1). Inr (Some s1, W1))
        | None \<Rightarrow> Inr (Some s1,
            if b = kCancelPrepareSwitchAdapter
            then cancel_preparing_switch hook (mActiveAdapterIndex W)
                   (if is_increaseable W then mActiveAdapterIndex W + 1 else mActiveAdapterIndex W - 1) W
            else W))"
    by (cases "decide now st (is_increaseable W) (is_decreaseable W) s")
       (auto simp: check_and_decide_switching_def Let_def increase_adapter_def decrease_adapter_def target_def
          directions [OF assms] split: switch_behavior.splits)
qed (use target_in_range assms in blast)+

section \<open>A policy's request is carried out\<close>

context selection_policy
begin

lemma request_has_target:
  assumes "0 \<le> mActiveAdapterIndex W" "mActiveAdapterIndex W < int (length (mAdapters W))"
    and "decide now st (is_increaseable W) (is_decreaseable W) s = Inr (b, s')"
  shows "b = kNoBehavior \<or> (\<exists>k. target b (mActiveAdapterIndex W) (length (mAdapters W)) = Some k)"
proof -
  have "b = kIncreaseAdapter \<Longrightarrow> is_increaseable W" "b = kDecreaseAdapter \<Longrightarrow> is_decreaseable W"
    using assms(3) increase_possible decrease_possible by blast+
  then show ?thesis using basic_behavior [OF assms(3)] directions [OF assms(1,2)] by (auto simp: target_def)
qed

lemma request_reaches_switcher:
  assumes "0 \<le> mActiveAdapterIndex W" "mActiveAdapterIndex W < int (length (mAdapters W))"
    and "decide now st (is_increaseable W) (is_decreaseable W) s = Inr (b, s')" "b \<noteq> kNoBehavior"
  shows "\<exists>k. 0 \<le> k \<and> k < int (length (mAdapters W)) \<and> \<bar>k - mActiveAdapterIndex W\<bar> = 1
    \<and> check_and_decide_switching decide hook now st wn wp (Some s) W
      = and_then (switch_adapters (mActiveAdapterIndex W) k wn wp W) (\<lambda>(res, W1). Inr (Some s', W1))"
proof -
  obtain k where k: "target b (mActiveAdapterIndex W) (length (mAdapters W)) = Some k"
    using request_has_target [OF assms(1-3)] assms(4) by blast
  have "check_and_decide_switching decide hook now st wn wp (Some s) W
      = and_then (switch_adapters (mActiveAdapterIndex W) k wn wp W) (\<lambda>(res, W1). Inr (Some s', W1))"
    using k assms(3) directions [OF assms(1,2)]
    by (auto simp: check_and_decide_switching_def Let_def increase_adapter_def decrease_adapter_def target_def split: if_splits)
  then show ?thesis using target_in_range [OF k assms(1,2)] by blast
qed

end

section \<open>The statistics are undefined\<close>

text \<open>
  With at least one adapter registered the statistics that a pass of the monitor hands to the policy
  are undefined: \<open>get_bandwidth_up\<close> ends without a \<open>return\<close>, so the run of \<open>acquire_values\<close> has no defined
  outcome, and with it no pass of the monitor has.
\<close>

lemma statistics_undefined:
  assumes "mAdapters W \<noteq> []"
  shows "\<not> is_ok (acquire_values now_us W ep) \<and> \<not> is_ok (monitor_pass decide hook now wn wp policy ep W)"
proof -
  obtain a as where a: "mAdapters W = a # as" using assms by (cases "mAdapters W") auto
  have "\<not> is_ok (get_bandwidth_up now_us a)" for now_us
    by (auto simp: get_bandwidth_up_def is_ok_iff and_then_eq_Inr)
  then have "\<not> is_ok (get_total_bandwidth now_us W)" for now_us
    by (auto simp: get_total_bandwidth_def a is_ok_iff and_then_eq_Inr)
  then have acq: "\<not> is_ok (acquire_values now_us W ep)" for now_us ep
    by (auto simp: acquire_values_def is_ok_iff and_then_eq_Inr)
  then have "\<not> is_ok (monitor_pass decide hook now wn wp policy ep W)"
    by (auto simp: monitor_pass_def Let_def is_ok_iff and_then_eq_Inr)
  with acq show ?thesis by blast
qed

end
