(* ===== verification/HistoryBased.thy ===== *)
theory HistoryBased
  imports TrafficHistory EnergyBounds NetworkMonitor
begin

text \<open>
  \<open>sc::NMPolicyHistoryBased\<close> (linux/policy): the policy that looks up the recorded traffic of the running
  applications, predicts the energy of staying and of switching, and filters its decisions. The clock is
  read once per call. A prediction that would not end is \<open>Would_block\<close>.
\<close>

section \<open>State\<close>

record history_policy =
  mPresentFGAppName :: string
  mPresentBGAppName :: string
  mPresentFGAppStartTS :: timeval
  mPresentFGEventType :: i32
  mPresentBGAppStartTS :: timeval
  mPresentBGEventType :: i32
  mLastMediaBandwidth :: f32
  mRequestSpeedIncCount :: i32
  mRequestSpeedDecCount :: i32
  mSerialIncCount :: i32
  mSerialDecCount :: i32
  mEnergyRetain :: f32
  mEnergySwitch :: f32
  mIsRecentWfdOn :: bool
  mBGAppEntry :: "app_entry option"
  mRecentSwitchTS :: timeval
  mTrafficPredictionTable :: traffic_table

text \<open>\<open>s.find(p) != npos\<close>\<close>

fun contains :: "string \<Rightarrow> string \<Rightarrow> bool" where
  "contains p [] = (p = [])"
| "contains p (c # cs) = (take (length p) (c # cs) = p \<or> contains p cs)"

definition check_background_app_entry :: "history_policy \<Rightarrow> fault + history_policy" where
  "check_background_app_entry s =
     fold_ok (\<lambda>(appName, appEntry) s1.
         if contains ''BG'' appName
         then and_then (require (mBGAppEntry s1 = None) Assertion_failure) (\<lambda>_. Inr (s1\<lparr>mBGAppEntry := Some appEntry\<rparr>))
         else Inr s1)
       (mTrafficPredictionTable s) s"

definition history_blank :: history_policy where
  "history_blank =
     \<lparr>mPresentFGAppName = [], mPresentBGAppName = [], mPresentFGAppStartTS = (0, 0), mPresentFGEventType = 0,
      mPresentBGAppStartTS = (0, 0), mPresentBGEventType = 0, mLastMediaBandwidth = 0,
      mRequestSpeedIncCount = 0, mRequestSpeedDecCount = 0, mSerialIncCount = 0, mSerialDecCount = 0,
      mEnergyRetain = 0, mEnergySwitch = 0, mIsRecentWfdOn = False, mBGAppEntry = None, mRecentSwitchTS = (0, 0),
      mTrafficPredictionTable = []\<rparr>"

definition reset_recent_switch_ts :: "history_policy \<Rightarrow> history_policy" where
  "reset_recent_switch_ts s = s\<lparr>mRecentSwitchTS := (0, 0)\<rparr>"

definition update_recent_switch_ts :: "timeval \<Rightarrow> history_policy \<Rightarrow> history_policy" where
  "update_recent_switch_ts now s = s\<lparr>mRecentSwitchTS := now\<rparr>"

definition history_ctor :: "nat \<Rightarrow> string \<Rightarrow> string option \<Rightarrow> (fault + history_policy) option" where
  "history_ctor block_len fresh file =
     map_option (\<lambda>res. and_then res (\<lambda>tbl.
         and_then (check_background_app_entry (history_blank\<lparr>mTrafficPredictionTable := tbl\<rparr>)) (\<lambda>s.
         Inr (reset_recent_switch_ts s))))
       (table_initialize block_len fresh file)"

definition history_stats_string :: "history_policy \<Rightarrow> fault + string" where
  "history_stats_string s =
     and_then (float_to_int (mEnergyRetain s)) (\<lambda>retain.
     and_then (float_to_int (mEnergySwitch s)) (\<lambda>switch.
     Inr (take 255 ([CHR 0x22] @ mPresentBGAppName s @ ''('' @ int_to_string (mPresentBGEventType s) @ '')/''
       @ mPresentFGAppName s @ ''('' @ int_to_string (mPresentFGEventType s) @ '')'' @ [CHR 0x22] @ '': ''
       @ int_to_string retain @ '' vs. '' @ int_to_string switch @ '' - (''
       @ int_to_string (mRequestSpeedIncCount s) @ ''/'' @ int_to_string (mRequestSpeedDecCount s) @ '') - ''
       @ (if mIsRecentWfdOn s then ''WFD'' else ''BT'')))))"

section \<open>Events\<close>

definition name_event :: "timeval \<Rightarrow> bool \<Rightarrow> string \<Rightarrow> history_policy \<Rightarrow> history_policy" where
  "name_event now is_background_app token s =
     (if is_background_app then
        (if mPresentBGAppName s \<noteq> token then s\<lparr>mPresentBGAppStartTS := now\<rparr> else s)\<lparr>mPresentBGAppName := token\<rparr>
      else
        (if mPresentFGAppName s \<noteq> token then s\<lparr>mPresentFGAppStartTS := now\<rparr> else s)\<lparr>mPresentFGAppName := token\<rparr>)"

text \<open>The first piece is the name, the second the event type; further pieces are skipped.\<close>

definition history_event :: "timeval \<Rightarrow> string \<Rightarrow> history_policy \<Rightarrow> fault + history_policy" where
  "history_event now event_description s =
     and_then
       (case tokens CHR '' '' event_description of [] \<Rightarrow> Inr s
        | name # rest \<Rightarrow>
           (let is_background_app = contains ''BG'' name;
                s1 = name_event now is_background_app name s
            in case rest of [] \<Rightarrow> Inr s1
               | token # _ \<Rightarrow> and_then (stoi token) (\<lambda>event_type.
                   Inr (if is_background_app then s1\<lparr>mPresentBGEventType := event_type\<rparr>
                        else s1\<lparr>mPresentFGEventType := event_type\<rparr>))))
       (\<lambda>s1. Inr (reset_recent_switch_ts s1))"

section \<open>The raw decision\<close>

definition tv_us :: "timeval \<Rightarrow> int" where
  "tv_us tv = fst tv * (1000 * 1000) + snd tv"

definition get_predicted_traffic ::
    "abs_overload \<Rightarrow> timeval \<Rightarrow> app_entry \<Rightarrow> bool \<Rightarrow> history_policy \<Rightarrow> fault + traffic_entry option" where
  "get_predicted_traffic ov now appEntry isBackgroundApp s =
     (let start = (if isBackgroundApp then mPresentBGAppStartTS s else mPresentFGAppStartTS s);
          event_type = (if isBackgroundApp then mPresentBGEventType s else mPresentFGEventType s)
      in case event_getItem event_type appEntry of None \<Rightarrow> Inr None
         | Some eventTypeEntry \<Rightarrow>
             findItem ov (fl32 (fl32 (of_int (tv_us now - tv_us start)) / 1000000)) eventTypeEntry)"

definition INC_COUNT_THRESHOLD :: int where "INC_COUNT_THRESHOLD = 10"
definition DEC_COUNT_THRESHOLD :: int where "DEC_COUNT_THRESHOLD = 10"
definition HIGH_THRESHOLD :: f32 where "HIGH_THRESHOLD = 150 * 1000"
definition LOW_THRESHOLD :: f32 where "LOW_THRESHOLD = 50 * 1000"

lemmas history_thresholds = INC_COUNT_THRESHOLD_def DEC_COUNT_THRESHOLD_def HIGH_THRESHOLD_def LOW_THRESHOLD_def

definition count_traffic :: "f32 \<Rightarrow> history_policy \<Rightarrow> history_policy" where
  "count_traffic bandwidth s =
     (let inc = s\<lparr>mRequestSpeedIncCount := mRequestSpeedIncCount s + 1, mRequestSpeedDecCount := 0\<rparr>;
          dec = s\<lparr>mRequestSpeedDecCount := mRequestSpeedDecCount s + 1, mRequestSpeedIncCount := 0\<rparr>
      in (if bandwidth > HIGH_THRESHOLD then inc
          else if bandwidth < LOW_THRESHOLD then dec
          else if bandwidth > mLastMediaBandwidth s then inc
          else if bandwidth < mLastMediaBandwidth s then dec
          else s)\<lparr>mLastMediaBandwidth := bandwidth\<rparr>)"

definition filtered :: "bool \<Rightarrow> bool \<Rightarrow> history_policy \<Rightarrow> bool" where
  "filtered is_increasable is_decreasable s \<longleftrightarrow>
     (sint (mRequestSpeedIncCount s) < INC_COUNT_THRESHOLD \<and> sint (mRequestSpeedDecCount s) < DEC_COUNT_THRESHOLD)
     \<or> (is_increasable \<and> sint (mRequestSpeedDecCount s) > DEC_COUNT_THRESHOLD)
     \<or> (is_decreasable \<and> sint (mRequestSpeedIncCount s) > INC_COUNT_THRESHOLD)"

definition traffic_at :: "traffic_entry option \<Rightarrow> nat \<Rightarrow> fault + i32" where
  "traffic_at e i = (case e of None \<Rightarrow> Inr 0
     | Some x \<Rightarrow> if i < length (mTrafficSequence x) then Inr (mTrafficSequence x ! i) else Inl Out_of_bounds)"

text \<open>The length is the background's where there is one, whatever the foreground's.\<close>

definition merge_traffic :: "traffic_entry option \<Rightarrow> traffic_entry option \<Rightarrow> fault + i32 list" where
  "merge_traffic fg bg =
     (let n0 = (case fg of None \<Rightarrow> 0 | Some e \<Rightarrow> length (mTrafficSequence e));
          predicted_traffic_length = (case bg of None \<Rightarrow> n0 | Some e \<Rightarrow> length (mTrafficSequence e))
      in fold_ok (\<lambda>i seq. and_then (traffic_at fg i) (\<lambda>f. and_then (traffic_at bg i) (\<lambda>b. Inr (seq @ [f + b]))))
           [0..<predicted_traffic_length] [])"

definition energy_of :: "i32 \<Rightarrow> i32 list \<Rightarrow> int \<Rightarrow> fault + f32" where
  "energy_of seg_q_length traffic_seq scenario_id =
     (case predictEnergy seg_q_length traffic_seq scenario_id of None \<Rightarrow> Inl Would_block | Some r \<Rightarrow> r)"

definition compare_energy ::
    "i32 \<Rightarrow> i32 list \<Rightarrow> bool \<Rightarrow> bool \<Rightarrow> history_policy \<Rightarrow> fault + switch_behavior \<times> history_policy" where
  "compare_energy seg_q_length traffic_seq is_increasable is_decreasable s =
     (if is_increasable then
        and_then (energy_of seg_q_length traffic_seq SCENARIO_BT) (\<lambda>energy_bt.
        and_then (energy_of seg_q_length traffic_seq SCENARIO_BT_TO_WFD) (\<lambda>energy_bt_to_wfd.
        let s1 = s\<lparr>mEnergyRetain := energy_bt, mEnergySwitch := energy_bt_to_wfd\<rparr>
        in Inr (if energy_bt < 0 \<or> energy_bt_to_wfd < 0 then kNoBehavior
                else if energy_bt > energy_bt_to_wfd \<or> energy_bt = FLT_MAX then kIncreaseAdapter
                else kNoBehavior, s1)))
      else if is_decreasable then
        and_then (energy_of seg_q_length traffic_seq SCENARIO_WFD) (\<lambda>energy_wfd.
        and_then (energy_of seg_q_length traffic_seq SCENARIO_WFD_TO_BT) (\<lambda>energy_wfd_to_bt.
        let s1 = s\<lparr>mEnergyRetain := energy_wfd, mEnergySwitch := energy_wfd_to_bt\<rparr>
        in Inr (if energy_wfd < 0 \<or> energy_wfd_to_bt < 0 then kNoBehavior
                else if energy_wfd > energy_wfd_to_bt then kDecreaseAdapter
                else kNoBehavior, s1)))
      else Inr (kNoBehavior, s))"

text \<open>
  The forecast of the running applications, \<open>None\<close> where there is none: no application at all, a foreground
  application that is not in the table, an event type that is not recorded.
\<close>

definition forecast :: "abs_overload \<Rightarrow> timeval \<Rightarrow> history_policy \<Rightarrow> fault + i32 list option" where
  "forecast ov now s =
     (let fgAppEntry = (if mPresentFGAppName s = [] then None
                        else app_getItem (mPresentFGAppName s) (mTrafficPredictionTable s));
          bgAppEntry = mBGAppEntry s
      in if mPresentFGAppName s \<noteq> [] \<and> fgAppEntry = None then Inr None
         else if fgAppEntry = None \<and> bgAppEntry = None then Inr None
         else
           and_then (case fgAppEntry of None \<Rightarrow> Inr None | Some a \<Rightarrow> get_predicted_traffic ov now a False s) (\<lambda>fg_traffic.
           if fgAppEntry \<noteq> None \<and> fg_traffic = None then Inr None
           else
             and_then (case bgAppEntry of None \<Rightarrow> Inr None | Some a \<Rightarrow> get_predicted_traffic ov now a True s) (\<lambda>bg_traffic.
             if bgAppEntry \<noteq> None \<and> bg_traffic = None then Inr None
             else and_then (merge_traffic fg_traffic bg_traffic) (\<lambda>seq. Inr (Some seq)))))"

definition decide_internal :: "abs_overload \<Rightarrow> history_policy decision" where
  "decide_internal ov now st is_increasable is_decreasable s =
     (let present_media_bandwidth = fl32 (ema_queue_arrival_speed st + fl32 (of_int (sint (now_queue_data_size st))));
          s1 = count_traffic present_media_bandwidth s
      in if filtered is_increasable is_decreasable s1 then Inr (kNoBehavior, s1)
         else and_then (forecast ov now s1) (\<lambda>traffic.
           case traffic of None \<Rightarrow> Inr (kNoBehavior, s1)
           | Some seq \<Rightarrow> compare_energy (now_queue_data_size st) seq is_increasable is_decreasable s1))"

section \<open>The decision\<close>

definition SERIAL_INC_COUNT_THRESHOLD :: int where "SERIAL_INC_COUNT_THRESHOLD = 3"
definition SERIAL_DEC_COUNT_THRESHOLD :: int where "SERIAL_DEC_COUNT_THRESHOLD = 3"

text \<open>The recent switch counts only if both parts of its time stamp differ from zero.\<close>

definition after_switch :: "timeval \<Rightarrow> history_policy \<Rightarrow> bool" where
  "after_switch now s \<longleftrightarrow> fst (mRecentSwitchTS s) \<noteq> 0 \<and> snd (mRecentSwitchTS s) \<noteq> 0
     \<and> tv_us now - tv_us (mRecentSwitchTS s) < int PREDICTION_WINDOW_SEC * 1000 * 1000 div 2"

definition serial_filter :: "switch_behavior \<Rightarrow> history_policy \<Rightarrow> switch_behavior \<times> history_policy" where
  "serial_filter behavior s =
     (if behavior = kIncreaseAdapter then
        (if sint (mSerialIncCount s) < SERIAL_INC_COUNT_THRESHOLD
         then (kNoBehavior, s\<lparr>mSerialIncCount := mSerialIncCount s + 1, mSerialDecCount := 0\<rparr>)
         else (behavior, s\<lparr>mIsRecentWfdOn := True, mSerialIncCount := mSerialIncCount s + 1, mSerialDecCount := 0\<rparr>))
      else if behavior = kDecreaseAdapter then
        (if sint (mSerialDecCount s) < SERIAL_DEC_COUNT_THRESHOLD
         then (kNoBehavior, s\<lparr>mSerialDecCount := mSerialDecCount s + 1, mSerialIncCount := 0\<rparr>)
         else (behavior, s\<lparr>mIsRecentWfdOn := False, mSerialDecCount := mSerialDecCount s + 1, mSerialIncCount := 0\<rparr>))
      else (behavior, s\<lparr>mSerialIncCount := 0, mSerialDecCount := 0\<rparr>))"

definition history_decide :: "abs_overload \<Rightarrow> history_policy decision" where
  "history_decide ov now st is_increasable is_decreasable s =
     (if after_switch now s then Inr (kNoBehavior, s)
      else and_then (decide_internal ov now st is_increasable is_decreasable s) (\<lambda>(b, s1).
        case serial_filter b s1 of (behavior, s2) \<Rightarrow>
          Inr (behavior, if behavior = kIncreaseAdapter \<or> behavior = kDecreaseAdapter
                         then update_recent_switch_ts now s2 else s2)))"


section \<open>The contract of a policy\<close>

lemma compare_energy_eq:
  assumes "compare_energy q seq i d s = Inr (b, s')"
  shows "b = kIncreaseAdapter \<Longrightarrow> i" "b = kDecreaseAdapter \<Longrightarrow> d" "b \<in> {kNoBehavior, kIncreaseAdapter, kDecreaseAdapter}"
    "\<exists>r w. s' = s\<lparr>mEnergyRetain := r, mEnergySwitch := w\<rparr>"
proof -
  have "\<exists>r w. s = s\<lparr>mEnergyRetain := r, mEnergySwitch := w\<rparr>"
    by (intro exI [of _ "mEnergyRetain s"] exI [of _ "mEnergySwitch s"]) simp
  then show "b = kIncreaseAdapter \<Longrightarrow> i" "b = kDecreaseAdapter \<Longrightarrow> d" "b \<in> {kNoBehavior, kIncreaseAdapter, kDecreaseAdapter}"
    "\<exists>r w. s' = s\<lparr>mEnergyRetain := r, mEnergySwitch := w\<rparr>"
    using assms by (auto simp: compare_energy_def and_then_eq_Inr Let_def split: if_splits)
qed

lemma decide_internal_cases:
  assumes "decide_internal ov now st i d s = Inr (b, s')"
  obtains bw where "b = kNoBehavior" "s' = count_traffic bw s"
  | bw q seq where "compare_energy q seq i d (count_traffic bw s) = Inr (b, s')"
  using assms by (auto simp: decide_internal_def Let_def and_then_eq_Inr split: if_splits option.splits)

lemma decide_internal_behavior:
  assumes "decide_internal ov now st i d s = Inr (b, s')"
  shows "b = kIncreaseAdapter \<Longrightarrow> i" "b = kDecreaseAdapter \<Longrightarrow> d" "b \<in> {kNoBehavior, kIncreaseAdapter, kDecreaseAdapter}"
  using decide_internal_cases [OF assms] compare_energy_eq by (metis insertI1 switch_behavior.distinct(1,3))+

lemma count_traffic_serial [simp]:
  "mSerialIncCount (count_traffic bw s) = mSerialIncCount s" "mSerialDecCount (count_traffic bw s) = mSerialDecCount s"
  "mRecentSwitchTS (count_traffic bw s) = mRecentSwitchTS s"
  by (simp_all add: count_traffic_def Let_def)

lemma decide_internal_serial:
  assumes "decide_internal ov now st i d s = Inr (b, s')"
  shows "mSerialIncCount s' = mSerialIncCount s \<and> mSerialDecCount s' = mSerialDecCount s \<and> mRecentSwitchTS s' = mRecentSwitchTS s"
  using assms
proof (cases rule: decide_internal_cases)
  case (2 bw q seq)
  then show ?thesis using compare_energy_eq(4) by fastforce
qed simp

lemma serial_filter_behavior: "serial_filter b s = (b', s') \<Longrightarrow> b' = b \<or> b' = kNoBehavior"
  by (auto simp: serial_filter_def split: if_splits)

lemma history_decide_parts:
  assumes "history_decide ov now st i d s = Inr (b, s')" "\<not> after_switch now s"
  obtains raw s1 s2 where "decide_internal ov now st i d s = Inr (raw, s1)" "serial_filter raw s1 = (b, s2)"
    "s' = (if b = kIncreaseAdapter \<or> b = kDecreaseAdapter then update_recent_switch_ts now s2 else s2)"
proof -
  obtain raw s1 where r: "decide_internal ov now st i d s = Inr (raw, s1)"
    using assms by (auto simp: history_decide_def and_then_eq_Inr)
  obtain b' s2 where f: "serial_filter raw s1 = (b', s2)" by (cases "serial_filter raw s1")
  show thesis using assms r f by (intro that [OF r, of s2]) (auto simp: history_decide_def)
qed

lemma history_decide_raw:
  assumes "history_decide ov now st i d s = Inr (b, s')"
  shows "b = kNoBehavior \<or> (\<exists>s1. decide_internal ov now st i d s = Inr (b, s1))"
proof (cases "after_switch now s")
  case True
  with assms show ?thesis by (simp add: history_decide_def)
next
  case False
  from history_decide_parts [OF assms this] obtain raw s1 s2 where
    "decide_internal ov now st i d s = Inr (raw, s1)" "serial_filter raw s1 = (b, s2)" by metis
  with serial_filter_behavior show ?thesis by blast
qed

interpretation history_based: selection_policy "history_decide ov" for ov
proof
  fix now st i d s s' b
  show "history_decide ov now st i d s = Inr (kIncreaseAdapter, s') \<Longrightarrow> i"
    using history_decide_raw decide_internal_behavior(1) by (metis switch_behavior.distinct(1))
  show "history_decide ov now st i d s = Inr (kDecreaseAdapter, s') \<Longrightarrow> d"
    using history_decide_raw decide_internal_behavior(2) by (metis switch_behavior.distinct(3))
  show "history_decide ov now st i d s = Inr (b, s') \<Longrightarrow> b \<in> {kNoBehavior, kIncreaseAdapter, kDecreaseAdapter}"
    using history_decide_raw decide_internal_behavior(3) by (metis insertI1)
qed


section \<open>Four decisions in a row\<close>

text \<open>A history of the policy: its decisions and the events between them. The raw decisions are collected.\<close>

datatype history_input = Decision timeval stats bool bool | Event timeval string

fun history_step :: "abs_overload \<Rightarrow> history_input \<Rightarrow> history_policy \<times> switch_behavior list
    \<Rightarrow> fault + history_policy \<times> switch_behavior list" where
  "history_step ov (Decision now st i d) (s, raws) =
     and_then (history_decide ov now st i d s) (\<lambda>(b, s1).
       if after_switch now s then Inr (s1, raws)
       else and_then (decide_internal ov now st i d s) (\<lambda>(raw, _). Inr (s1, raws @ [raw])))"
| "history_step ov (Event now e) (s, raws) = and_then (history_event now e s) (\<lambda>s1. Inr (s1, raws))"

definition serial_counts :: "switch_behavior list \<Rightarrow> history_policy \<Rightarrow> bool" where
  "serial_counts raws s \<longleftrightarrow>
     mSerialIncCount s = of_nat (streak (\<lambda>b. b = kIncreaseAdapter) raws)
     \<and> mSerialDecCount s = of_nat (streak (\<lambda>b. b = kDecreaseAdapter) raws)"

lemma streak_le: "streak P xs \<le> length xs"
  by (simp add: streak_def) (metis length_rev length_takeWhile_le)

lemma count_below:
  assumes "n < 2147483648"
  shows "sint (of_nat n :: i32) < 3 \<longleftrightarrow> n < 3"
proof -
  have "sint (of_nat n :: i32) = int n" using int_word_sint [of "int n", where 'a = 32] assms by simp
  then show ?thesis by simp
qed

lemma serial_filter_counts:
  assumes "serial_counts raws s" "serial_filter raw s = (b, s')" "length raws < 2147483648"
  shows "serial_counts (raws @ [raw]) s'"
    and "b = kIncreaseAdapter \<longleftrightarrow> 4 \<le> streak (\<lambda>b. b = kIncreaseAdapter) (raws @ [raw])"
    and "b = kDecreaseAdapter \<longleftrightarrow> 4 \<le> streak (\<lambda>b. b = kDecreaseAdapter) (raws @ [raw])"
proof -
  have l: "streak P raws < 2147483648" for P using streak_le [of P raws] assms(3) by simp
  show "serial_counts (raws @ [raw]) s'"
    using assms(1,2) by (auto simp: serial_filter_def serial_counts_def ac_simps split: if_splits)
  show "b = kIncreaseAdapter \<longleftrightarrow> 4 \<le> streak (\<lambda>b. b = kIncreaseAdapter) (raws @ [raw])"
    "b = kDecreaseAdapter \<longleftrightarrow> 4 \<le> streak (\<lambda>b. b = kDecreaseAdapter) (raws @ [raw])"
    using assms(1,2) count_below [OF l]
    by (auto simp: serial_filter_def serial_counts_def SERIAL_INC_COUNT_THRESHOLD_def SERIAL_DEC_COUNT_THRESHOLD_def
        split: if_splits)
qed

lemma serial_counts_cong:
  "mSerialIncCount s' = mSerialIncCount s \<Longrightarrow> mSerialDecCount s' = mSerialDecCount s \<Longrightarrow> serial_counts raws s' = serial_counts raws s"
  by (simp add: serial_counts_def)

lemma history_event_serial:
  "history_event now e s = Inr s' \<Longrightarrow> mSerialIncCount s' = mSerialIncCount s \<and> mSerialDecCount s' = mSerialDecCount s"
  by (auto simp: history_event_def and_then_eq_Inr name_event_def reset_recent_switch_ts_def Let_def split: list.splits if_splits)

lemma history_step_counts:
  assumes "history_step ov x (s, raws) = Inr (s', raws')" "serial_counts raws s" "length raws < 2147483648"
  shows "serial_counts raws' s' \<and> length raws' \<le> Suc (length raws)"
proof (cases x)
  case (Decision now st i d)
  obtain b s1 where h: "history_decide ov now st i d s = Inr (b, s1)"
    using assms(1) by (auto simp: Decision and_then_eq_Inr)
  show ?thesis
  proof (cases "after_switch now s")
    case True
    then show ?thesis using assms(1,2) h by (auto simp: Decision history_decide_def)
  next
    case False
    from history_decide_parts [OF h this] obtain raw si s2 where
      d: "decide_internal ov now st i d s = Inr (raw, si)" "serial_filter raw si = (b, s2)"
      "s1 = (if b = kIncreaseAdapter \<or> b = kDecreaseAdapter then update_recent_switch_ts now s2 else s2)" by metis
    have "serial_counts raws si" using assms(2) decide_internal_serial [OF d(1)] serial_counts_cong by blast
    then have "serial_counts (raws @ [raw]) s2" using serial_filter_counts(1) d(2) assms(3) by blast
    then have "serial_counts (raws @ [raw]) s1"
      by (simp add: d(3) serial_counts_def update_recent_switch_ts_def)
    with assms(1) h d(1) False show ?thesis by (auto simp: Decision)
  qed
next
  case (Event now e)
  then have "history_event now e s = Inr s'" "raws' = raws" using assms(1) by (auto simp: and_then_eq_Inr)
  then show ?thesis using assms(2) history_event_serial [of now e s s'] by (simp add: serial_counts_def)
qed

lemma history_run_counts:
  assumes "fold_ok (history_step ov) xs (s, raws) = Inr (s', raws')" "serial_counts raws s"
    "length raws + length xs \<le> 2147483647"
  shows "serial_counts raws' s' \<and> length raws' \<le> length raws + length xs"
  using assms
proof (induction xs arbitrary: s raws)
  case (Cons x xs)
  then obtain s1 raws1 where s1: "history_step ov x (s, raws) = Inr (s1, raws1)"
    "fold_ok (history_step ov) xs (s1, raws1) = Inr (s', raws')" by (auto simp: and_then_eq_Inr)
  have "serial_counts raws1 s1 \<and> length raws1 \<le> Suc (length raws)"
    using history_step_counts [OF s1(1)] Cons.prems by simp
  then show ?case using Cons.IH [OF s1(2)] Cons.prems(3) by simp
qed simp

end
