(* ===== verification/HistoryDecision.thy ===== *)
theory HistoryDecision
  imports HistoryBased
begin

text \<open>
  What the decisions of \<open>sc::NMPolicyHistoryBased\<close> amount to: the rest after a switch, the merged forecast, and the
  way out of a congested Bluetooth, with an example history that switches.
\<close>

section \<open>Four in a row\<close>

text \<open>
  C13: the history-based policy switches only on four equal raw decisions in a row. After any history of
  decisions and events from a start with both counts zero (below \<open>2 ^ 31\<close> of them), a decision
  asks for a higher adapter exactly if it is not held back after a switch and the raw decision says so for
  the fourth time in a row, and for a lower one accordingly; events do not interrupt the row, any
  other raw decision does.
\<close>

theorem history_needs_four_in_a_row:
  assumes "mSerialIncCount s0 = 0" "mSerialDecCount s0 = 0" "length xs < 2147483647"
    and "fold_ok (history_step ov) xs (s0, []) = Inr (s, raws)"
    and "history_decide ov now st i d s = Inr (b, s')" "decide_internal ov now st i d s = Inr (raw, s1)"
  shows "(b = kIncreaseAdapter \<longleftrightarrow> \<not> after_switch now s \<and> 4 \<le> streak (\<lambda>b. b = kIncreaseAdapter) (raws @ [raw]))
    \<and> (b = kDecreaseAdapter \<longleftrightarrow> \<not> after_switch now s \<and> 4 \<le> streak (\<lambda>b. b = kDecreaseAdapter) (raws @ [raw]))"
proof -
  have "serial_counts [] s0" using assms(1,2) by (simp add: serial_counts_def)
  from history_run_counts [OF assms(4) this] assms(3) have r: "serial_counts raws s" "length raws < 2147483648" by auto
  have si: "serial_counts raws s1" using r(1) decide_internal_serial [OF assms(6)] serial_counts_cong by blast
  show ?thesis
  proof (cases "after_switch now s")
    case True
    then show ?thesis using assms(5) by (auto simp: history_decide_def)
  next
    case False
    obtain s2 where f: "serial_filter raw s1 = (b, s2)"
      using history_decide_parts [OF assms(5) False] assms(6) by auto
    show ?thesis using serial_filter_counts(2,3) [OF si f r(2)] False by blast
  qed
qed

section \<open>No decision right after a switch\<close>


section \<open>The merged forecast\<close>

lemma traffic_at_ok:
  "i < length (mTrafficSequence x) \<Longrightarrow> traffic_at (Some x) i = Inr (mTrafficSequence x ! i)"
  by (simp add: traffic_at_def)

lemma merge_loop:
  assumes "\<forall>i<n. traffic_at fg i = Inr (f i) \<and> traffic_at bg i = Inr (g i)"
  shows "fold_ok (\<lambda>i seq. and_then (traffic_at fg i) (\<lambda>f. and_then (traffic_at bg i) (\<lambda>b. Inr (seq @ [f + b])))) [0..<n] []
    = Inr (map (\<lambda>i. f i + g i) [0..<n])"
  using assms by (induction n) (simp_all add: fold_ok_append)

text \<open>
  The merged forecast has the length of the background's. With both applications recorded, the sums of
  the two sequences are taken up to the length of the background's: what the foreground's has beyond it
  is lost, and a foreground sequence that is shorter is read past its end.
\<close>

lemma merged_forecast_has_background_length:
  "merge_traffic (Some fg) (Some bg) =
    (if length (mTrafficSequence fg) < length (mTrafficSequence bg) then Inl Out_of_bounds
     else Inr (map (\<lambda>(f, b). f + b) (zip (mTrafficSequence fg) (mTrafficSequence bg))))"
proof (cases "length (mTrafficSequence fg) < length (mTrafficSequence bg)")
  case True
  let ?step = "\<lambda>i seq. and_then (traffic_at (Some fg) i) (\<lambda>f. and_then (traffic_at (Some bg) i) (\<lambda>b. Inr (seq @ [f + b])))"
  obtain k where k: "length (mTrafficSequence bg) = Suc (length (mTrafficSequence fg) + k)"
    using True less_imp_Suc_add by blast
  let ?n = "length (mTrafficSequence fg)"
  have "[0..<?n + Suc k] = [0..<?n] @ [?n..<?n + Suc k]" by (rule upt_add_eq_append) simp
  also have "[?n..<?n + Suc k] = ?n # [Suc ?n..<?n + Suc k]" by (rule upt_conv_Cons) simp
  finally have u: "[0..<length (mTrafficSequence bg)] = [0..<?n] @ ?n # [Suc ?n..<?n + Suc k]" by (simp only: k add_Suc_right)
  have "fold_ok ?step [0..<length (mTrafficSequence fg)] []
      = Inr (map (\<lambda>i. mTrafficSequence fg ! i + mTrafficSequence bg ! i) [0..<length (mTrafficSequence fg)])"
    using True by (intro merge_loop) (simp add: traffic_at_ok)
  then have "fold_ok ?step [0..<length (mTrafficSequence bg)] [] = Inl Out_of_bounds"
    unfolding u fold_ok_append by (simp add: traffic_at_def)
  then show ?thesis using True by (simp add: merge_traffic_def)
next
  case False
  have "merge_traffic (Some fg) (Some bg)
      = Inr (map (\<lambda>i. mTrafficSequence fg ! i + mTrafficSequence bg ! i) [0..<length (mTrafficSequence bg)])"
    using False unfolding merge_traffic_def by (simp, intro merge_loop) (simp add: traffic_at_ok)
  also have "map (\<lambda>i. mTrafficSequence fg ! i + mTrafficSequence bg ! i) [0..<length (mTrafficSequence bg)]
      = map (\<lambda>(f, b). f + b) (zip (mTrafficSequence fg) (mTrafficSequence bg))"
    using False by (intro nth_equalityI) simp_all
  finally show ?thesis using False by simp
qed

section \<open>Congestion\<close>

lemma count_traffic_fields [simp]:
  "mPresentFGAppName (count_traffic bw s) = mPresentFGAppName s" "mBGAppEntry (count_traffic bw s) = mBGAppEntry s"
  "mTrafficPredictionTable (count_traffic bw s) = mTrafficPredictionTable s"
  "mPresentFGAppStartTS (count_traffic bw s) = mPresentFGAppStartTS s" "mPresentBGAppStartTS (count_traffic bw s) = mPresentBGAppStartTS s"
  "mPresentFGEventType (count_traffic bw s) = mPresentFGEventType s" "mPresentBGEventType (count_traffic bw s) = mPresentBGEventType s"
  by (simp_all add: count_traffic_def Let_def)

lemma forecast_count_traffic [simp]: "forecast ov now (count_traffic bw s) = forecast ov now s"
  unfolding forecast_def get_predicted_traffic_def count_traffic_fields ..

lemma sint_plus_one: "sint (w :: i32) < 2147483647 \<Longrightarrow> sint (w + 1) = sint w + 1"
  using sint_greater_eq [of w] by (simp add: sint_word_ariths(1) signed_take_bit_int_eq_self)

lemma energy_of_congested:
  assumes "0 \<le> sint q" "\<forall>t\<in>set ts. 0 \<le> sint t" "sint q + sum_list (map sint ts) < 2147483648"
    and "60 * 75000 < sint q + sum_list (map sint ts)" "12 \<le> length ts"
  shows "energy_of q ts SCENARIO_BT = Inr FLT_MAX" "\<exists>e. energy_of q ts SCENARIO_BT_TO_WFD = Inr e \<and> 0 \<le> e"
proof -
  obtain seq where seq: "predictBandwidthSeq q ts 1 [] = Some (Inr (True, seq))"
    "sum_list (map sint seq) = sint q + sum_list (map sint ts)" "\<forall>i<length seq. sint (seq ! i) \<le> slot_limit 1 i"
    using predicted_bandwidth [of 1 q ts] assms by auto
  have "sum_list (map sint seq) \<le> sum_list (map (\<lambda>_. 75000) seq)"
    using seq(3) by (intro sum_list_mono) (auto simp: in_set_conv_nth slot_limit_def)
  then have "60 < length seq" using seq(2) assms(4) by (simp add: sum_list_triv)
  then have "predictEnergyOfSeq seq 1 = FLT_MAX"
    by (simp add: predictEnergyOfSeq_def getInitialAdapter_def adapter_ids PREDICTION_WINDOW_SEC_def)
  then show "energy_of q ts SCENARIO_BT = Inr FLT_MAX"
    using seq(1) by (simp add: energy_of_def predictEnergy_def adapter_ids)
  obtain seq3 where seq3: "predictBandwidthSeq q ts 3 [] = Some (Inr (True, seq3))" "length ts \<le> length seq3"
    "\<forall>b\<in>set seq3. 0 \<le> sint b" "\<forall>i<length seq3. sint (seq3 ! i) \<le> slot_limit 3 i"
    using predicted_bandwidth [of 3 q ts] assms by auto
  then have "0 \<le> predictEnergyOfSeq seq3 3" using assms(5) by (intro energy_of_seq_nonneg) auto
  then show "\<exists>e. energy_of q ts SCENARIO_BT_TO_WFD = Inr e \<and> 0 \<le> e"
    using seq3(1) by (simp add: energy_of_def predictEnergy_def adapter_ids)
qed

lemma FLT_MAX_no_int: "float_to_int FLT_MAX = Inl Undefined_conversion" "0 < FLT_MAX"
  by (simp_all add: float_to_int_def trunc_rat_def FLT_MAX_def)

lemma congested_decision:
  assumes bw: "HIGH_THRESHOLD < fl32 (ema_queue_arrival_speed st + fl32 (of_int (sint (now_queue_data_size st))))"
    and c: "9 \<le> sint (mRequestSpeedIncCount s)" "sint (mRequestSpeedIncCount s) < 2147483647"
    and f: "forecast ov now s = Inr (Some ts)" and n: "12 \<le> length ts" "\<forall>t\<in>set ts. 0 \<le> sint t"
    and q: "0 \<le> sint (now_queue_data_size st)" "sint (now_queue_data_size st) + sum_list (map sint ts) < 2147483648"
      "60 * 75000 < sint (now_queue_data_size st) + sum_list (map sint ts)"
  shows "\<exists>bw w. 0 \<le> w \<and> decide_internal ov now st True False s = Inr (kIncreaseAdapter,
    s\<lparr>mRequestSpeedIncCount := mRequestSpeedIncCount s + 1, mRequestSpeedDecCount := 0, mLastMediaBandwidth := bw,
      mEnergyRetain := FLT_MAX, mEnergySwitch := w\<rparr>)"
proof -
  define bw where "bw = fl32 (ema_queue_arrival_speed st + fl32 (of_int (sint (now_queue_data_size st))))"
  define s1 where "s1 = s\<lparr>mRequestSpeedIncCount := mRequestSpeedIncCount s + 1, mRequestSpeedDecCount := 0, mLastMediaBandwidth := bw\<rparr>"
  have s1: "count_traffic bw s = s1" using assms(1) by (simp add: count_traffic_def Let_def s1_def bw_def)
  have "sint (mRequestSpeedIncCount s + 1) = sint (mRequestSpeedIncCount s) + 1"
    using c by (simp add: sint_plus_one)
  then have nf: "\<not> filtered True False s1" using c by (simp add: filtered_def history_thresholds s1_def)
  obtain e where e: "energy_of (now_queue_data_size st) ts SCENARIO_BT = Inr FLT_MAX"
    "energy_of (now_queue_data_size st) ts SCENARIO_BT_TO_WFD = Inr e" "0 \<le> e"
    using energy_of_congested [OF q(1) n(2) q(2,3) n(1)] by auto
  have "forecast ov now s1 = Inr (Some ts)" using f s1 forecast_count_traffic by metis
  then have "decide_internal ov now st True False s = Inr (kIncreaseAdapter, s1\<lparr>mEnergyRetain := FLT_MAX, mEnergySwitch := e\<rparr>)"
    using nf e FLT_MAX_no_int(2) unfolding decide_internal_def Let_def bw_def [symmetric] s1
    by (simp add: compare_energy_def)
  with e(3) show ?thesis unfolding s1_def by auto
qed



section \<open>An example\<close>

definition example_history :: history_policy where
  "example_history = history_blank\<lparr>mPresentFGAppName := ''video'', mPresentFGEventType := 1, mPresentFGAppStartTS := (1, 1),
     mRequestSpeedIncCount := 9,
     mTrafficPredictionTable := [(''video'', \<lparr>mAppName = ''video'', mEventTypeMap =
       [(1, \<lparr>mEventType = 1, mTrafficList = [\<lparr>mTimeSec = 0, mTrafficSequence = replicate 30 200000\<rparr>]\<rparr>)]\<rparr>)]\<rparr>"

definition example_stats :: stats where
  "example_stats = \<lparr>ema_queue_arrival_speed = 0, now_total_bandwidth = 0, ema_send_request_size = 0, ema_arrival_time_us = 0,
     now_queue_data_size = 1000000, ema_send_rtt = 0, ema_media_rtt = 0\<rparr>"

lemma example_forecast:
  assumes "mPresentFGAppName s = ''video''" "mPresentFGEventType s = 1" "mPresentFGAppStartTS s = now" "mBGAppEntry s = None"
    "mTrafficPredictionTable s = mTrafficPredictionTable example_history"
  shows "forecast Abs_float now s = Inr (Some (replicate 30 200000))"
proof -
  have m: "merge_traffic (Some \<lparr>mTimeSec = 0, mTrafficSequence = replicate 30 200000\<rparr>) None = Inr (replicate 30 200000)"
  proof -
    have "fold_ok (\<lambda>i seq. and_then (traffic_at (Some \<lparr>mTimeSec = 0, mTrafficSequence = replicate 30 200000\<rparr>) i)
        (\<lambda>f. and_then (traffic_at None i) (\<lambda>b. Inr (seq @ [f + b])))) [0..<30] [] = Inr (map (\<lambda>i. 200000 + 0) [0..<30])"
      by (rule merge_loop) (simp add: traffic_at_def)
    then show ?thesis by (simp add: merge_traffic_def map_replicate_const)
  qed
  have "findItem Abs_float 0 \<lparr>mEventType = 1, mTrafficList = [\<lparr>mTimeSec = 0, mTrafficSequence = replicate 30 200000\<rparr>]\<rparr>
      = Inr (Some \<lparr>mTimeSec = 0, mTrafficSequence = replicate 30 200000\<rparr>)"
    using FLT_MAX_no_int(2) by (simp add: findItem_def closer_def time_distance_def)
  with m show ?thesis using assms
    by (simp add: forecast_def app_getItem_def map_find_def example_history_def get_predicted_traffic_def
        event_getItem_def tv_us_def Let_def)
qed

lemma example_traffic:
  "HIGH_THRESHOLD < fl32 (ema_queue_arrival_speed example_stats + fl32 (of_int (sint (now_queue_data_size example_stats))))"
  "sint (now_queue_data_size example_stats) = 1000000" "\<forall>t\<in>set (replicate 30 (200000::i32)). 0 \<le> sint t"
  "sum_list (map sint (replicate 30 (200000::i32))) = 6000000"
  using fl32_exact [of 1000000] by (simp_all add: example_stats_def HIGH_THRESHOLD_def sum_list_replicate)



text \<open>The example after \<open>n\<close> congested decisions.\<close>

definition congested_state :: "nat \<Rightarrow> history_policy \<Rightarrow> bool" where
  "congested_state n s \<longleftrightarrow> mPresentFGAppName s = ''video'' \<and> mPresentFGEventType s = 1 \<and> mPresentFGAppStartTS s = (1, 1)
     \<and> mBGAppEntry s = None \<and> mTrafficPredictionTable s = mTrafficPredictionTable example_history
     \<and> sint (mRequestSpeedIncCount s) = 9 + int n \<and> mSerialIncCount s = of_nat n \<and> mRecentSwitchTS s = (0, 0)"

lemma congested_raw:
  assumes "congested_state n s" "n < 10"
  shows "\<exists>s1. decide_internal Abs_float (1, 1) example_stats True False s = Inr (kIncreaseAdapter, s1)
    \<and> congested_state n (s1\<lparr>mRequestSpeedIncCount := mRequestSpeedIncCount s\<rparr>)
    \<and> sint (mRequestSpeedIncCount s1) = 10 + int n"
proof -
  have f: "forecast Abs_float (1, 1) s = Inr (Some (replicate 30 200000))"
    using assms(1) by (intro example_forecast) (simp_all add: congested_state_def)
  have c: "9 \<le> sint (mRequestSpeedIncCount s)" "sint (mRequestSpeedIncCount s) < 2147483647"
    using assms by (simp_all add: congested_state_def)
  have "sint (mRequestSpeedIncCount s + 1) = 10 + int n"
    using assms by (simp add: sint_plus_one congested_state_def)
  then show ?thesis
    using congested_decision [OF example_traffic(1) c f] example_traffic(2-4) assms(1) by (auto simp: congested_state_def)
qed

lemma congested_step:
  assumes "congested_state n s" "n < 3"
  shows "\<exists>s'. history_step Abs_float (Decision (1, 1) example_stats True False) (s, raws) = Inr (s', raws @ [kIncreaseAdapter])
    \<and> congested_state (Suc n) s'"
proof -
  obtain s1 where s1: "decide_internal Abs_float (1, 1) example_stats True False s = Inr (kIncreaseAdapter, s1)"
    "congested_state n (s1\<lparr>mRequestSpeedIncCount := mRequestSpeedIncCount s\<rparr>)" "sint (mRequestSpeedIncCount s1) = 10 + int n"
    using congested_raw [OF assms(1)] assms(2) by auto
  have na: "\<not> after_switch (1, 1) s" using assms(1) by (simp add: after_switch_def congested_state_def)
  have "mSerialIncCount s1 = of_nat n" using s1(2) by (simp add: congested_state_def)
  then have sf: "serial_filter kIncreaseAdapter s1
      = (kNoBehavior, s1\<lparr>mSerialIncCount := mSerialIncCount s1 + 1, mSerialDecCount := 0\<rparr>)"
    using assms(2) count_below [of n] by (simp add: serial_filter_def SERIAL_INC_COUNT_THRESHOLD_def)
  define s2 where "s2 = s1\<lparr>mSerialIncCount := mSerialIncCount s1 + 1, mSerialDecCount := 0\<rparr>"
  have "history_decide Abs_float (1, 1) example_stats True False s = Inr (kNoBehavior, s2)"
    using s1(1) na sf by (simp add: history_decide_def s2_def)
  then have "history_step Abs_float (Decision (1, 1) example_stats True False) (s, raws) = Inr (s2, raws @ [kIncreaseAdapter])"
    using s1(1) na by simp
  moreover have "congested_state (Suc n) s2"
    using s1(2,3) by (simp add: congested_state_def s2_def)
  ultimately show ?thesis by blast
qed

lemma congested_switch:
  assumes "congested_state 3 s"
  shows "\<exists>s1 s'. decide_internal Abs_float (1, 1) example_stats True False s = Inr (kIncreaseAdapter, s1)
    \<and> history_decide Abs_float (1, 1) example_stats True False s = Inr (kIncreaseAdapter, s')"
proof -
  obtain s1 where s1: "decide_internal Abs_float (1, 1) example_stats True False s = Inr (kIncreaseAdapter, s1)"
    "congested_state 3 (s1\<lparr>mRequestSpeedIncCount := mRequestSpeedIncCount s\<rparr>)"
    using congested_raw [OF assms] by auto
  have na: "\<not> after_switch (1, 1) s" using assms by (simp add: after_switch_def congested_state_def)
  have "mSerialIncCount s1 = 3" using s1(2) by (simp add: congested_state_def)
  then show ?thesis using s1 na
    by (simp add: history_decide_def serial_filter_def SERIAL_INC_COUNT_THRESHOLD_def)
qed

lemma example_congested: "congested_state 0 example_history"
  by (simp add: congested_state_def example_history_def history_blank_def)


theorem history_needs_four_in_a_row_witness:
  "\<exists>s s'. fold_ok (history_step Abs_float) (replicate 3 (Decision (1, 1) example_stats True False)) (example_history, [])
      = Inr (s, [kIncreaseAdapter, kIncreaseAdapter, kIncreaseAdapter])
    \<and> history_decide Abs_float (1, 1) example_stats True False s = Inr (kIncreaseAdapter, s')"
proof -
  let ?x = "Decision (1, 1) example_stats True False"
  obtain sa where a: "history_step Abs_float ?x (example_history, []) = Inr (sa, [kIncreaseAdapter])" "congested_state 1 sa"
    using congested_step [OF example_congested, of "[]"] by auto
  obtain sb where b: "history_step Abs_float ?x (sa, [kIncreaseAdapter]) = Inr (sb, [kIncreaseAdapter, kIncreaseAdapter])"
    "congested_state 2 sb"
    using congested_step [OF a(2), of "[kIncreaseAdapter]"] by (auto simp: numeral_2_eq_2)
  obtain sc where c: "history_step Abs_float ?x (sb, [kIncreaseAdapter, kIncreaseAdapter])
      = Inr (sc, [kIncreaseAdapter, kIncreaseAdapter, kIncreaseAdapter])" "congested_state 3 sc"
    using congested_step [OF b(2), of "[kIncreaseAdapter, kIncreaseAdapter]"] by (auto simp: numeral_3_eq_3 numeral_2_eq_2)
  have run: "fold_ok (history_step Abs_float) (replicate 3 ?x) (example_history, [])
      = Inr (sc, [kIncreaseAdapter, kIncreaseAdapter, kIncreaseAdapter])"
    using a(1) b(1) c(1) by (simp add: numeral_3_eq_3)
  obtain s1 where raw: "decide_internal Abs_float (1, 1) example_stats True False sc = Inr (kIncreaseAdapter, s1)"
    using congested_switch [OF c(2)] by blast
  obtain bh sh where d: "history_decide Abs_float (1, 1) example_stats True False sc = Inr (bh, sh)"
    using congested_switch [OF c(2)] by blast
  have "mSerialIncCount example_history = 0" "mSerialDecCount example_history = 0"
    by (simp_all add: example_history_def history_blank_def)
  from history_needs_four_in_a_row [OF this _ run d raw] c(2) have "bh = kIncreaseAdapter"
    by (simp add: streak_def after_switch_def congested_state_def)
  with run d show ?thesis by blast
qed

end
