(* ===== verification/StreamSocket.thy ===== *)
theory StreamSocket
  imports Counter TextNumbers
begin

text \<open>
  The two server sockets (linux/device/src/TcpServerSocket.cpp, RfcommServerSocket.cpp): opening, and the loops that
  send and receive a buffer over a byte stream. What the system calls answer is a script: for every call
  of \<open>send\<close> or \<open>recv\<close> either a result that is not positive, or how many bytes the kernel is ready to move at
  that call. The throttling of Bluetooth is compiled out, the service record is not modelled (the
  library that registers it answers a number). \<open>EXP\<close> and verbose code is compiled out.
\<close>

section \<open>Bytes through a stream\<close>

text \<open>One \<open>recv\<close> of at most \<open>left\<close> bytes: the result, the bytes, and the stream behind them.\<close>

definition recv_call :: "int \<Rightarrow> nat \<Rightarrow> u8 list \<Rightarrow> fault + int \<times> u8 list \<times> u8 list" where
  "recv_call k left stream =
     (if k \<le> 0 then Inr (k, [], stream)
      else let m = min (nat k) (min left (length stream))
           in if m = 0 then Inl Would_block else Inr (int m, take m stream, drop m stream))"

fun socket_receive_loop :: "int list \<Rightarrow> nat \<Rightarrow> u8 list \<Rightarrow> u8 list \<Rightarrow> fault + int \<times> u8 list \<times> u8 list \<times> int list" where
  "socket_receive_loop [] data_length got stream =
     (if length got < data_length then Inl Would_block else Inr (int (length got), got, stream, []))"
| "socket_receive_loop (k # ks) data_length got stream =
     (if length got < data_length then
        and_then (recv_call k (data_length - length got) stream) (\<lambda>(once_received_bytes, chunk, stream1).
        if once_received_bytes \<le> 0 then Inr (once_received_bytes, got, stream1, ks)
        else socket_receive_loop ks data_length (got @ chunk) stream1)
      else Inr (int (length got), got, stream, k # ks))"

text \<open>\<open>poll_res\<close> is what \<open>poll\<close> answers, with a timeout of a second.\<close>

definition tcp_receive_impl ::
    "int \<Rightarrow> int \<Rightarrow> int list \<Rightarrow> nat \<Rightarrow> u8 list \<Rightarrow> fault + int \<times> u8 list \<times> u8 list \<times> int list" where
  "tcp_receive_impl client_socket poll_res calls data_length stream =
     (if client_socket \<le> 0 then Inr (- 1, [], stream, calls)
      else if poll_res = - 1 then Inr (- 1, [], stream, calls)
      else if poll_res = 0 then Inr (- 999, [], stream, calls)
      else socket_receive_loop calls data_length [] stream)"

fun socket_send_loop :: "int list \<Rightarrow> u8 list \<Rightarrow> nat \<Rightarrow> u8 list \<Rightarrow> fault + int \<times> u8 list \<times> int list" where
  "socket_send_loop [] data_buffer sent_bytes wire =
     (if sent_bytes < length data_buffer then Inl Would_block else Inr (int sent_bytes, wire, []))"
| "socket_send_loop (k # ks) data_buffer sent_bytes wire =
     (if sent_bytes < length data_buffer then
        if k \<le> 0 then Inr (k, wire, ks)
        else let m = min (nat k) (length data_buffer - sent_bytes)
             in socket_send_loop ks data_buffer (sent_bytes + m) (wire @ bytes_at sent_bytes m data_buffer)
      else Inr (int sent_bytes, wire, k # ks))"

definition tcp_send_impl :: "int \<Rightarrow> int list \<Rightarrow> u8 list \<Rightarrow> u8 list \<Rightarrow> fault + int \<times> u8 list \<times> int list" where
  "tcp_send_impl client_socket calls data_buffer wire =
     (if client_socket \<le> 0 then Inr (- 1, wire, calls) else socket_send_loop calls data_buffer 0 wire)"

text \<open>The Bluetooth socket counts the bytes of a buffer that went through as a whole.\<close>

definition rfcomm_send_impl ::
    "int \<Rightarrow> int list \<Rightarrow> u8 list \<Rightarrow> u8 list \<Rightarrow> counter \<Rightarrow> fault + int \<times> u8 list \<times> int list \<times> counter" where
  "rfcomm_send_impl client_socket calls data_buffer wire speed =
     (if client_socket \<le> 0 then Inr (- 1, wire, calls, speed)
      else and_then (socket_send_loop calls data_buffer 0 wire) (\<lambda>(res, wire1, calls1).
        Inr (res, wire1, calls1,
          if 0 < res \<or> data_buffer = [] then counter_add (word_of_int res) speed else speed)))"

definition rfcomm_receive_impl ::
    "int \<Rightarrow> int \<Rightarrow> int list \<Rightarrow> nat \<Rightarrow> u8 list \<Rightarrow> counter \<Rightarrow> fault + int \<times> u8 list \<times> u8 list \<times> int list \<times> counter" where
  "rfcomm_receive_impl client_socket poll_res calls data_length stream speed =
     (if client_socket \<le> 0 then Inr (- 1, [], stream, calls, speed)
      else if poll_res = - 1 then Inr (- 1, [], stream, calls, speed)
      else if poll_res = 0 then Inr (- 999, [], stream, calls, speed)
      else and_then (socket_receive_loop calls data_length [] stream) (\<lambda>(res, got, stream1, calls1).
        Inr (res, got, stream1, calls1,
          if length got = data_length then counter_add (word_of_int res) speed else speed)))"

section \<open>Opening and closing\<close>

record socket_fds =
  mServerSocketFd :: int
  mClientSocketFd :: int
  mPort :: int
  open_fds :: "int set"

definition close_fd :: "int \<Rightarrow> socket_fds \<Rightarrow> socket_fds" where
  "close_fd fd s = s\<lparr>open_fds := open_fds s - {fd}\<rparr>"

definition set_server_fd :: "int \<Rightarrow> socket_fds \<Rightarrow> socket_fds" where
  "set_server_fd fd s = s\<lparr>mServerSocketFd := fd, open_fds := (if 0 \<le> fd then insert fd (open_fds s) else open_fds s)\<rparr>"

definition set_client_fd :: "int \<Rightarrow> socket_fds \<Rightarrow> socket_fds" where
  "set_client_fd fd s = s\<lparr>mClientSocketFd := fd, open_fds := (if 0 \<le> fd then insert fd (open_fds s) else open_fds s)\<rparr>"

text \<open>
  What the calls answer: the descriptor, the results of \<open>setsockopt\<close>, \<open>bind\<close> and \<open>listen\<close>, and for each \<open>accept\<close> its
  result and whether it was interrupted.
\<close>

record socket_calls =
  socket_res :: int
  setsockopt_res :: int
  listen_res :: int
  accepts :: "(int \<times> bool) list"

definition kMaxTries :: nat where "kMaxTries = 10"

fun accept_loop :: "nat \<Rightarrow> (int \<times> bool) list \<Rightarrow> socket_fds \<Rightarrow> fault + bool \<times> socket_fds" where
  "accept_loop 0 as s = Inr (False, s)"
| "accept_loop (Suc tries) [] s = Inl Would_block"
| "accept_loop (Suc tries) ((res, interrupted) # as) s =
     (let s1 = set_client_fd res s
      in if 0 \<le> res then Inr (True, s1) else if interrupted then accept_loop tries as s1 else Inr (False, s1))"

text \<open>The result, whether the peer was asked to connect, and the socket.\<close>

definition tcp_open_impl ::
    "bool \<Rightarrow> i32 \<Rightarrow> int \<Rightarrow> socket_calls \<Rightarrow> socket_fds \<Rightarrow> fault + bool \<times> bool \<times> socket_fds" where
  "tcp_open_impl is_send_request ip_address_raw bind_res c s =
     (if ip_address_raw = 0 then Inr (False, False, s)
      else
       (let s1 = set_server_fd (socket_res c) s in
        if setsockopt_res c = - 1 then Inr (False, False, s1)
        else if bind_res < 0 then Inr (False, False, s1)
        else if listen_res c < 0 then Inr (False, False, s1)
        else and_then (accept_loop kMaxTries (accepts c) s1) (\<lambda>(ok, s2). Inr (ok, is_send_request, s2))))"

definition tcp_close_impl :: "socket_fds \<Rightarrow> bool \<times> socket_fds" where
  "tcp_close_impl s =
     (True, (close_fd (mServerSocketFd s) (close_fd (mClientSocketFd s) s))\<lparr>mClientSocketFd := 0, mServerSocketFd := 0\<rparr>)"

text \<open>The search for a free channel; \<open>bind\<close> answers for each its result and whether \<open>errno\<close> is \<open>EINVAL\<close>.\<close>

function bind_from :: "(int \<Rightarrow> int \<times> bool) \<Rightarrow> int \<Rightarrow> int" where
  "bind_from bind_call port =
     (if port < 31 then
        case bind_call port of (res, einval) \<Rightarrow>
          if res = 0 then port
          else if einval then res
          else bind_from bind_call (port + 1)
      else - 1)"
  by pat_completeness auto
termination by (relation "measure (\<lambda>(bind_call, port). nat (31 - port))") auto

declare bind_from.simps [simp del]

definition bt_dynamic_bind_rc :: "(int \<Rightarrow> int \<times> bool) \<Rightarrow> int" where
  "bt_dynamic_bind_rc bind_call = bind_from bind_call 1"

definition rfcomm_open_impl ::
    "bool \<Rightarrow> (int \<Rightarrow> int \<times> bool) \<Rightarrow> int \<Rightarrow> socket_calls \<Rightarrow> socket_fds \<Rightarrow> counter
     \<Rightarrow> fault + bool \<times> bool \<times> socket_fds \<times> counter" where
  "rfcomm_open_impl is_send_request bind_call register_res c s speed =
     (let s0 = (if 0 < mServerSocketFd s then (close_fd (mServerSocketFd s) s)\<lparr>mServerSocketFd := 0\<rparr> else s);
          s1 = set_server_fd (socket_res c) s0 in
      if mServerSocketFd s1 < 0 then Inr (False, False, s1, speed)
      else
       (let s2 = s1\<lparr>mPort := bt_dynamic_bind_rc bind_call\<rparr> in
        if mPort s2 < 1 \<or> mPort s2 > 30 then Inr (False, False, s2, speed)
        else if register_res < 0 then Inr (False, False, s2, speed)
        else if listen_res c < 0 then Inr (False, False, s2, speed)
        else
         (case accepts c of [] \<Rightarrow> Inl Would_block
          | (res, _) # _ \<Rightarrow>
             (let s3 = set_client_fd res s2
              in if res < 0 then Inr (False, is_send_request, s3, speed)
                 else Inr (True, is_send_request, s3, fst (start_measure_speed speed))))))"

definition rfcomm_close_impl :: "socket_fds \<Rightarrow> counter \<Rightarrow> bool \<times> socket_fds \<times> counter" where
  "rfcomm_close_impl s speed =
     (True, (close_fd (mServerSocketFd s) (close_fd (mClientSocketFd s) s))\<lparr>mClientSocketFd := 0, mServerSocketFd := 0\<rparr>,
      stop_measure_speed speed)"

section \<open>Descriptors\<close>

lemmas fd_defs = close_fd_def set_server_fd_def set_client_fd_def

lemma accept_loop_fds:
  "accept_loop n as s = Inr (ok, s') \<Longrightarrow> mServerSocketFd s' = mServerSocketFd s \<and> open_fds s \<subseteq> open_fds s'
    \<and> open_fds s' \<subseteq> (if ok then insert (mClientSocketFd s') (open_fds s) else open_fds s)"
  by (induction n as s rule: accept_loop.induct) (auto simp: Let_def fd_defs split: if_splits)

text \<open>
  The Bluetooth socket has at most its own two descriptors open beside those of others (\<open>base\<close>): an attempt to open it
  closes what the failed one before left.
\<close>

definition owns_fds :: "int set \<Rightarrow> socket_fds \<Rightarrow> bool" where
  "owns_fds base s \<longleftrightarrow> open_fds s \<subseteq> base \<union> {mServerSocketFd s, mClientSocketFd s}"

lemma rfcomm_open_owns:
  assumes "rfcomm_open_impl req bind_call reg c s speed = Inr (ok, req', s', speed')"
    and "open_fds s \<subseteq> insert (mServerSocketFd s) base" "\<forall>fd\<in>open_fds s. 0 \<le> fd" "0 \<in> base"
  shows "(if ok then owns_fds base s' else open_fds s' \<subseteq> insert (mServerSocketFd s') base) \<and> (\<forall>fd\<in>open_fds s'. 0 \<le> fd)"
proof -
  define s1 where "s1 = set_server_fd (socket_res c)
    (if 0 < mServerSocketFd s then (close_fd (mServerSocketFd s) s)\<lparr>mServerSocketFd := 0\<rparr> else s)"
  have "open_fds s - {mServerSocketFd s} \<subseteq> base" "0 < mServerSocketFd s \<or> open_fds s \<subseteq> base"
    using assms(2-4) by force+
  then have "\<forall>fd\<in>open_fds s1. fd = mServerSocketFd s1 \<or> fd \<in> base" "\<forall>fd\<in>open_fds s1. 0 \<le> fd"
    using assms(3) by (auto simp: s1_def fd_defs)
  then show ?thesis
    using assms(1) unfolding rfcomm_open_impl_def Let_def s1_def [symmetric]
    by (auto simp: owns_fds_def set_client_fd_def split: if_splits list.splits) (blast+)
qed

lemma rfcomm_close_owns:
  assumes "owns_fds base s"
  shows "open_fds (fst (snd (rfcomm_close_impl s speed))) \<subseteq> base"
  using assms by (auto simp: rfcomm_close_impl_def owns_fds_def fd_defs)

text \<open>
  The TCP socket forgets the descriptor of a failed attempt: after the next attempt and the closing it is still open,
  and no field holds it.
\<close>

lemma tcp_failed_open_leaks:
  assumes "ip \<noteq> 0" "0 < fd" "socket_res c = fd" "setsockopt_res c \<noteq> - 1" "bind_res < 0"
    and "socket_res c' \<noteq> fd" "\<forall>(res, i)\<in>set (accepts c'). res \<noteq> fd"
    and "tcp_open_impl req ip bind_res c s = Inr (ok, req', s1)"
    and "tcp_open_impl req ip bind_res' c' s1 = Inr (True, req'', s2)"
  shows "fd \<in> open_fds (snd (tcp_close_impl s2)) \<and> mServerSocketFd s2 \<noteq> fd \<and> mClientSocketFd s2 \<noteq> fd"
proof -
  have s1: "fd \<in> open_fds s1" using assms(1-5,8) by (auto simp: tcp_open_impl_def Let_def fd_defs)
  have a: "accept_loop kMaxTries (accepts c') (set_server_fd (socket_res c') s1) = Inr (True, s2)"
    using assms(1,9) by (auto simp: tcp_open_impl_def Let_def and_then_def split: if_splits sum.splits)
  have cl: "accept_loop n as u = Inr (True, u') \<Longrightarrow> \<forall>(res, i)\<in>set as. res \<noteq> fd \<Longrightarrow> mClientSocketFd u' \<noteq> fd" for n as u u'
    by (induction n as u rule: accept_loop.induct) (auto simp: Let_def fd_defs split: if_splits)
  have "mServerSocketFd s2 \<noteq> fd" "fd \<in> open_fds s2"
    using accept_loop_fds [OF a] s1 assms(6) by (auto simp: fd_defs)
  with cl [OF a assms(7)] show ?thesis by (simp add: tcp_close_impl_def fd_defs)
qed

section \<open>Framing\<close>

lemma socket_receive_loop_all:
  assumes "\<forall>k\<in>set ks. 0 < k" "n - length got \<le> length ks" "n - length got \<le> length stream" "length got \<le> n"
  shows "\<exists>rest. socket_receive_loop ks n got stream
      = Inr (int n, got @ take (n - length got) stream, drop (n - length got) stream, rest)
    \<and> (\<exists>used. ks = used @ rest \<and> length used \<le> n - length got)"
  using assms
proof (induction ks arbitrary: got stream)
  case Nil
  then have "length got = n" by simp
  then show ?case by simp
next
  case (Cons k ks)
  show ?case
  proof (cases "length got < n")
    case False
    then have "length got = n" using Cons.prems(4) by simp
    then show ?thesis by simp
  next
    case True
    define m where "m = min (nat k) (min (n - length got) (length stream))"
    have m: "0 < m" "m \<le> n - length got" "m \<le> length stream"
      using Cons.prems True by (auto simp: m_def)
    have r: "recv_call k (n - length got) stream = Inr (int m, take m stream, drop m stream)"
      using m Cons.prems(1) by (simp add: recv_call_def m_def [symmetric] Let_def)
    define left where "left = n - length got - m"
    have l: "n - length (got @ take m stream) = left" using m by (simp add: left_def)
    have "\<forall>k\<in>set ks. 0 < k" "n - length (got @ take m stream) \<le> length ks"
      "n - length (got @ take m stream) \<le> length (drop m stream)" "length (got @ take m stream) \<le> n"
      using Cons.prems m True by auto
    from Cons.IH [OF this, unfolded l] obtain rest used
      where ih: "socket_receive_loop ks n (got @ take m stream) (drop m stream)
        = Inr (int n, (got @ take m stream) @ take left (drop m stream), drop left (drop m stream), rest)"
      "ks = used @ rest" "length used \<le> left"
      by blast
    have s: "take m stream @ take left (drop m stream) = take (n - length got) stream"
      "drop left (drop m stream) = drop (n - length got) stream"
      using m by (simp_all add: left_def take_add [symmetric])
    have "socket_receive_loop (k # ks) n got stream
        = Inr (int n, got @ take (n - length got) stream, drop (n - length got) stream, rest)"
      using True m(1) ih(1) s by (simp add: r)
    moreover have "k # ks = (k # used) @ rest" "length (k # used) \<le> n - length got"
      using ih(2,3) m by (simp_all add: left_def)
    ultimately show ?thesis by blast
  qed
qed

lemma socket_send_loop_all:
  assumes "\<forall>k\<in>set ks. 0 < k" "length data - n \<le> length ks" "n \<le> length data"
  shows "\<exists>rest. socket_send_loop ks data n wire = Inr (int (length data), wire @ drop n data, rest)
    \<and> (\<exists>used. ks = used @ rest \<and> length used \<le> length data - n)"
  using assms
proof (induction ks arbitrary: n wire)
  case Nil
  then show ?case by simp
next
  case (Cons k ks)
  show ?case
  proof (cases "n < length data")
    case False
    then have "n = length data" using Cons.prems(3) by simp
    then show ?thesis by simp
  next
    case True
    define m where "m = min (nat k) (length data - n)"
    have m: "0 < m" "m \<le> length data - n" using Cons.prems(1) True by (auto simp: m_def)
    have "\<forall>k\<in>set ks. 0 < k" "length data - (n + m) \<le> length ks" "n + m \<le> length data"
      using Cons.prems m True by auto
    from Cons.IH [OF this, of "wire @ bytes_at n m data"] obtain rest used
      where ih: "socket_send_loop ks data (n + m) (wire @ bytes_at n m data)
        = Inr (int (length data), (wire @ bytes_at n m data) @ drop (n + m) data, rest)"
      "ks = used @ rest" "length used \<le> length data - (n + m)"
      by blast
    have "bytes_at n m data @ drop (n + m) data = drop n data"
      using append_take_drop_id [of m "drop n data"] by (simp add: bytes_at_def add.commute)
    then have "socket_send_loop (k # ks) data n wire = Inr (int (length data), wire @ drop n data, rest)"
      using True ih(1) Cons.prems(1) by (simp add: m_def [symmetric] Let_def)
    moreover have "k # ks = (k # used) @ rest" "length (k # used) \<le> length data - n"
      using ih(2,3) m by simp_all
    ultimately show ?thesis by blast
  qed
qed

text \<open>All buffers one after the other, on one connection.\<close>

fun send_buffers :: "int \<Rightarrow> int list \<Rightarrow> u8 list list \<Rightarrow> u8 list \<Rightarrow> fault + u8 list" where
  "send_buffers fd calls [] wire = Inr wire"
| "send_buffers fd calls (f # fs) wire =
     and_then (tcp_send_impl fd calls f wire) (\<lambda>(res, wire1, calls1). send_buffers fd calls1 fs wire1)"

fun receive_buffers :: "int \<Rightarrow> int list \<Rightarrow> nat \<Rightarrow> nat \<Rightarrow> u8 list \<Rightarrow> fault + u8 list list" where
  "receive_buffers fd calls n 0 stream = Inr []"
| "receive_buffers fd calls n (Suc m) stream =
     and_then (tcp_receive_impl fd 1 calls n stream) (\<lambda>(res, got, stream1, calls1).
     and_then (receive_buffers fd calls1 n m stream1) (\<lambda>fs. Inr (got # fs)))"

lemma send_buffers_all:
  assumes "0 < fd" "\<forall>k\<in>set ks. 0 < k" "length (concat fs) \<le> length ks"
  shows "send_buffers fd ks fs wire = Inr (wire @ concat fs)"
  using assms(2,3)
proof (induction fs arbitrary: ks wire)
  case (Cons f fs)
  obtain rest used where s: "socket_send_loop ks f 0 wire = Inr (int (length f), wire @ f, rest)" "ks = used @ rest" "length used \<le> length f"
    using socket_send_loop_all [of ks f 0 wire] Cons.prems by auto
  have "send_buffers fd rest fs (wire @ f) = Inr ((wire @ f) @ concat fs)"
    using s(2,3) Cons.prems by (intro Cons.IH) auto
  with s(1) assms(1) show ?case by (simp add: tcp_send_impl_def)
qed simp

lemma receive_buffers_all:
  assumes "0 < fd" "\<forall>k\<in>set ks. 0 < k" "length (concat fs) \<le> length ks" "\<forall>f\<in>set fs. length f = n"
  shows "receive_buffers fd ks n (length fs) (concat fs @ behind) = Inr fs"
  using assms(2-4)
proof (induction fs arbitrary: ks)
  case (Cons f fs)
  obtain rest used where s: "socket_receive_loop ks n [] (concat (f # fs) @ behind)
      = Inr (int n, take n (concat (f # fs) @ behind), drop n (concat (f # fs) @ behind), rest)" "ks = used @ rest" "length used \<le> n"
    using socket_receive_loop_all [of ks n "[]" "concat (f # fs) @ behind"] Cons.prems by auto
  have "receive_buffers fd rest n (length fs) (concat fs @ behind) = Inr fs"
    using s(2,3) Cons.prems by (intro Cons.IH) auto
  with s(1) assms(1) Cons.prems(3) show ?case by (simp add: tcp_receive_impl_def)
qed simp

text \<open>
  C18: segments keep their bounds on a byte stream. Buffers of the same length that are sent one after the other
  arrive one by one as they were sent, whatever pieces the two kernels cut the stream into, as long as
  no call fails.
\<close>

theorem frames_survive_the_stream:
  assumes "0 < fd" "0 < fd'" "\<forall>f\<in>set fs. length f = n"
    and "\<forall>k\<in>set sends. 0 < k" "\<forall>k\<in>set recvs. 0 < k" "length (concat fs) \<le> length sends" "length (concat fs) \<le> length recvs"
  shows "and_then (send_buffers fd sends fs []) (receive_buffers fd' recvs n (length fs)) = Inr fs"
  using send_buffers_all [OF assms(1,4,6), of "[]"] receive_buffers_all [OF assms(2,5,7,3), of "[]"] by simp

theorem frames_survive_the_stream_witness:
  "and_then (send_buffers 4 (replicate 6 2) [[1, 2, 3], [4, 5, 6]] []) (receive_buffers 5 [1, 5, 2, 2, 1, 1] 3 2)
    = Inr [[1, 2, 3], [4, 5, 6]]"
  using frames_survive_the_stream [of 4 5 "[[1, 2, 3], [4, 5, 6]]" 3 "replicate 6 2" "[1, 5, 2, 2, 1, 1]"] by (simp add: numeral_2_eq_2)

text \<open>
  A send that fails in the middle tears the stream. The bytes that went out stay in the stream, the result says
  failure, and when the buffer is sent again, as a failed segment is, the peer reads the beginning of
  the buffer twice: its next buffer is the sent part followed by the start of the whole, and every one behind it is
  shifted.
\<close>

lemma failed_send_tears_the_stream:
  assumes "0 < fd" "0 < fd'" "0 < m" "m < length f" "e \<le> 0"
    and "\<forall>k\<in>set sends. 0 < k" "\<forall>k\<in>set recvs. 0 < k" "length f \<le> length sends" "length f \<le> length recvs"
  shows "\<exists>rest rest'. tcp_send_impl fd [int m, e] f wire = Inr (e, wire @ take m f, [])
    \<and> tcp_send_impl fd sends f (take m f) = Inr (int (length f), take m f @ f, rest)
    \<and> tcp_receive_impl fd' 1 recvs (length f) (take m f @ f)
        = Inr (int (length f), take m f @ take (length f - m) f, drop (length f - m) f, rest')"
proof -
  have "tcp_send_impl fd [int m, e] f wire = Inr (e, wire @ take m f, [])"
    using assms(1,3-5) by (auto simp: tcp_send_impl_def bytes_at_def)
  moreover obtain rest where "tcp_send_impl fd sends f (take m f) = Inr (int (length f), take m f @ f, rest)"
    using socket_send_loop_all [of sends f 0 "take m f"] assms(1,6,8) by (auto simp: tcp_send_impl_def)
  moreover obtain rest' where "tcp_receive_impl fd' 1 recvs (length f) (take m f @ f)
      = Inr (int (length f), take m f @ take (length f - m) f, drop (length f - m) f, rest')"
    using socket_receive_loop_all [of recvs "length f" "[]" "take m f @ f"] assms(2,4,7,9) by (auto simp: tcp_receive_impl_def)
  ultimately show ?thesis by blast
qed

section \<open>Channels\<close>

lemma bind_from_first:
  assumes "port \<le> p" "p < 31" "fst (bind_call p) = 0" "\<forall>q. port \<le> q \<and> q < p \<longrightarrow> fst (bind_call q) \<noteq> 0 \<and> \<not> snd (bind_call q)"
  shows "bind_from bind_call port = p"
  using assms
proof (induction "nat (p - port)" arbitrary: port)
  case 0
  then have "port = p" by simp
  with 0 show ?case by (subst bind_from.simps) (simp add: split_def)
next
  case (Suc k)
  then have l: "port < p" by simp
  then have "fst (bind_call port) \<noteq> 0" "\<not> snd (bind_call port)" using Suc.prems(4) by auto
  moreover have "bind_from bind_call (port + 1) = p"
    using Suc l by (intro Suc.hyps(1)) auto
  ultimately show ?case using l Suc.prems(2) by (subst bind_from.simps) (simp add: split_def)
qed

end
