(* ===== verification/ServiceUuid.thy ===== *)
theory ServiceUuid
  imports TextNumbers
begin

text \<open>
  The service identifier of the Bluetooth socket, read from its text (\<open>str2uuid\<close> in linux/device/src/RfcommServerSocket.cpp), with
  \<open>strtol\<close> in base 16 on two characters.
\<close>

definition hex_value :: "char \<Rightarrow> nat option" where
  "hex_value c = (let n = (of_char c :: nat) in
     if 48 \<le> n \<and> n \<le> 57 then Some (n - 48)
     else if 97 \<le> n \<and> n \<le> 102 then Some (n - 87)
     else if 65 \<le> n \<and> n \<le> 70 then Some (n - 55)
     else None)"

fun hex_digits_value :: "nat \<Rightarrow> string \<Rightarrow> nat" where
  "hex_digits_value n [] = n"
| "hex_digits_value n (c # cs) = (case hex_value c of None \<Rightarrow> n | Some d \<Rightarrow> hex_digits_value (16 * n + d) cs)"

text \<open>
  On at most two characters: after white space and a sign there is one digit at most, and a \<open>0x\<close> with no digit behind it
  reads as its zero. No digit at all is zero.
\<close>

definition strtol_hex :: "string \<Rightarrow> int" where
  "strtol_hex s =
     (let s1 = dropWhile is_space s
      in if s1 \<noteq> [] \<and> hd s1 = CHR ''-'' then - int (hex_digits_value 0 (tl s1))
         else if s1 \<noteq> [] \<and> hd s1 = CHR ''+'' then int (hex_digits_value 0 (tl s1))
         else int (hex_digits_value 0 s1))"

text \<open>
  Two characters for each byte; dashes are skipped where a pair begins. The array has 16 bytes. The second
  character of the last pair may be the end of the string.
\<close>

fun uuid_bytes :: "string \<Rightarrow> u8 list \<Rightarrow> fault + u8 list" where
  "uuid_bytes [] adv_data = Inr adv_data"
| "uuid_bytes (c # cs) adv_data =
     (if c = CHR ''-'' then uuid_bytes cs adv_data
      else if 16 \<le> length adv_data then Inl Out_of_bounds
      else
       (case cs of
          [] \<Rightarrow> Inr (adv_data @ [word_of_int (strtol_hex [c])])
        | d # ds \<Rightarrow> uuid_bytes ds (adv_data @ [word_of_int (strtol_hex [c, d])])))"

text \<open>The result -1 is \<open>None\<close>; the bytes that are not written stay undetermined.\<close>

definition str2uuid :: "string \<Rightarrow> fault + u8 list option" where
  "str2uuid str = (if length str \<noteq> 36 then Inr None else and_then (uuid_bytes str []) (\<lambda>adv_data. Inr (Some adv_data)))"

section \<open>The text of an identifier\<close>

definition hex_char :: "nat \<Rightarrow> char" where
  "hex_char n = char_of (if n < 10 then 48 + n else 87 + n)"

definition hex_byte :: "u8 \<Rightarrow> string" where
  "hex_byte b = [hex_char (unat b div 16), hex_char (unat b mod 16)]"

definition hex_bytes :: "u8 list \<Rightarrow> string" where
  "hex_bytes bs = concat (map hex_byte bs)"

definition uuid_text :: "u8 list \<Rightarrow> string" where
  "uuid_text bs = hex_bytes (take 4 bs) @ CHR ''-'' # hex_bytes (bytes_at 4 2 bs) @ CHR ''-'' # hex_bytes (bytes_at 6 2 bs)
     @ CHR ''-'' # hex_bytes (bytes_at 8 2 bs) @ CHR ''-'' # hex_bytes (drop 10 bs)"

lemma of_char_hex: "n < 16 \<Longrightarrow> (of_char (hex_char n) :: nat) = (if n < 10 then 48 + n else 87 + n)"
  by (simp add: hex_char_def of_char_of)

lemma hex_value_char: "n < 16 \<Longrightarrow> hex_value (hex_char n) = Some n"
  by (auto simp: hex_value_def of_char_hex Let_def)

lemma hex_char_plain:
  assumes "n < 16"
  shows "\<not> is_space (hex_char n)" "hex_char n \<noteq> CHR ''-''" "hex_char n \<noteq> CHR ''+''"
proof -
  have "(of_char (CHR ''-'') :: nat) = 45" "(of_char (CHR ''+'') :: nat) = 43" by simp_all
  with of_char_hex [OF assms] show "\<not> is_space (hex_char n)" "hex_char n \<noteq> CHR ''-''" "hex_char n \<noteq> CHR ''+''"
    by (auto simp: is_space_def split: if_splits)
qed

lemma unat_byte: "unat (b :: u8) div 16 < 16" "unat b mod 16 < 16"
  using unsigned_less [of b, where ?'a = nat] by auto

lemma strtol_hex_byte: "word_of_int (strtol_hex (hex_byte b)) = b"
proof -
  have "strtol_hex (hex_byte b) = int (16 * (unat b div 16) + unat b mod 16)"
    using unat_byte [of b] by (simp add: hex_byte_def strtol_hex_def hex_char_plain hex_value_char)
  also have "\<dots> = int (unat b)" by (simp add: mult.commute)
  finally show ?thesis by simp
qed

lemma uuid_bytes_hex:
  "length acc + length bs \<le> 16 \<Longrightarrow> uuid_bytes (hex_bytes bs @ rest) acc = uuid_bytes rest (acc @ bs)"
proof (induction bs arbitrary: acc)
  case (Cons b bs)
  have "uuid_bytes (hex_byte b @ hex_bytes bs @ rest) acc = uuid_bytes (hex_bytes bs @ rest) (acc @ [b])"
    using Cons.prems strtol_hex_byte [of b] unat_byte [of b] by (simp add: hex_byte_def hex_char_plain)
  then show ?case using Cons by (simp add: hex_bytes_def)
qed (simp add: hex_bytes_def)

lemma length_hex_bytes: "length (hex_bytes bs) = 2 * length bs"
  by (induction bs) (simp_all add: hex_bytes_def hex_byte_def)

text \<open>
  The text of a service identifier, in the usual five groups, is read back as its 16 bytes.
\<close>

lemma str2uuid_roundtrip:
  assumes "length bs = 16"
  shows "str2uuid (uuid_text bs) = Inr (Some bs)"
proof -
  have l: "length (uuid_text bs) = 36"
    using assms by (simp add: uuid_text_def length_hex_bytes bytes_at_def)
  have "uuid_bytes (uuid_text bs) [] = Inr (take 4 bs @ bytes_at 4 2 bs @ bytes_at 6 2 bs @ bytes_at 8 2 bs @ drop 10 bs)"
    using assms uuid_bytes_hex [of _ "drop 10 bs" "[]"]
    by (simp add: uuid_text_def uuid_bytes_hex bytes_at_def)
  also have "take 4 bs @ bytes_at 4 2 bs @ bytes_at 6 2 bs @ bytes_at 8 2 bs @ drop 10 bs = bs"
    using append_take_drop_id [of 2 "drop 8 bs"] append_take_drop_id [of 2 "drop 6 bs"]
      append_take_drop_id [of 2 "drop 4 bs"] append_take_drop_id [of 4 bs]
    by (simp add: bytes_at_def)
  finally show ?thesis using l by (simp add: str2uuid_def)
qed

text \<open>Thirty-six digits without the dashes overrun the array.\<close>

lemma undashed_identifier_overruns:
  assumes "length bs = 18"
  shows "str2uuid (hex_bytes bs) = Inl Out_of_bounds"
proof -
  have bs: "hex_bytes bs = hex_bytes (take 16 bs) @ hex_bytes (drop 16 bs)"
    by (simp add: hex_bytes_def concat_append [symmetric] map_append [symmetric])
  obtain b bs' where d: "drop 16 bs = b # bs'" using assms by (cases "drop 16 bs") auto
  have "uuid_bytes (hex_bytes (drop 16 bs)) (take 16 bs) = Inl Out_of_bounds"
    using assms unat_byte [of b] by (simp add: d hex_bytes_def hex_byte_def hex_char_plain)
  then have "uuid_bytes (hex_bytes bs) [] = Inl Out_of_bounds"
    using uuid_bytes_hex [of "[]" "take 16 bs" "hex_bytes (drop 16 bs)"] assms by (simp add: bs)
  then show ?thesis using assms by (simp add: str2uuid_def length_hex_bytes)
qed

end
