(* ===== verification/Commands.thy ===== *)
theory Commands
  imports TextNumbers
begin

text \<open>
  The commands that the device plugins run: child processes with their output read through a pipe
  (linux/common/src/ChildProcess.cpp), \<open>wpa_cli\<close>, \<open>rfkill\<close> and \<open>iwpriv\<close> (linux/device/src/CommandWpaCli.cpp, CommandRfkill.cpp,
  CommandIwpriv.cpp). The processes are a script: for every process the program starts, what the calls answer and what is read from
  the pipe. Next to it the record keeps the command lines that were started and the
  processes that run on because nobody waits for them.
\<close>

section \<open>C strings\<close>

abbreviation NUL :: char where "NUL \<equiv> CHR 0x00"

text \<open>Reading an array as a C string: an array without a NUL is read past its end.\<close>

definition cstring :: "string \<Rightarrow> fault + string" where
  "cstring buf = (if NUL \<in> set buf then Inr (takeWhile (\<lambda>c. c \<noteq> NUL) buf) else Inl Out_of_bounds)"

fun find_str :: "string \<Rightarrow> string \<Rightarrow> nat option" where
  "find_str pat [] = (if pat = [] then Some 0 else None)"
| "find_str pat (c # cs) = (if take (length pat) (c # cs) = pat then Some 0 else map_option Suc (find_str pat cs))"

definition strstr :: "string \<Rightarrow> string \<Rightarrow> bool" where
  "strstr s pat \<longleftrightarrow> find_str pat s \<noteq> None"

text \<open>All the tokens that repeated calls of \<open>strtok\<close> with the delimiters \<open>ds\<close> return.\<close>

function strtok :: "char set \<Rightarrow> string \<Rightarrow> string list" where
  "strtok ds s =
     (let s1 = dropWhile (\<lambda>c. c \<in> ds) s
      in if s1 = [] then [] else takeWhile (\<lambda>c. c \<notin> ds) s1 # strtok ds (dropWhile (\<lambda>c. c \<notin> ds) s1))"
  by pat_completeness auto
termination
proof (relation "measure (\<lambda>(ds, s). length s)", simp)
  fix ds :: "char set" and s s1 :: string
  assume s1: "s1 = dropWhile (\<lambda>c. c \<in> ds) s" "s1 \<noteq> []"
  then have "hd s1 \<notin> ds" by (metis hd_dropWhile)
  then have "length (dropWhile (\<lambda>c. c \<notin> ds) s1) \<le> length (tl s1)"
    using s1(2) by (cases s1) (auto intro: length_dropWhile_le)
  also have "\<dots> < length s1" using s1(2) by simp
  also have "\<dots> \<le> length s" using s1(1) by (simp add: length_dropWhile_le)
  finally show "((ds, dropWhile (\<lambda>c. c \<notin> ds) s1), ds, s) \<in> measure (\<lambda>(ds, s). length s)" by simp
qed

declare strtok.simps [simp del]

definition blanks :: "char set" where "blanks = {CHR 0x09, CHR '' '', nl, CHR 0x27}"

section \<open>Child processes\<close>

text \<open>
  What happens when a process is to be started: the error numbers of \<open>pipe\<close> and \<open>fork\<close> (0 when the call succeeds), the
  identifier of the child, the results of the calls of \<open>read\<close>, and what the caller's buffer holds before.
\<close>

record child =
  pipe_errno :: int
  fork_errno :: int
  child_pid :: int
  reads :: "(int + string) list"
  stale :: string

record shell =
  children :: "child list"
  ran :: "string list list"
  alive :: "int set"

definition next_child :: "'a shell_scheme \<Rightarrow> fault + child \<times> 'a shell_scheme" where
  "next_child w = (case children w of [] \<Rightarrow> Inl Would_block | c # cs \<Rightarrow> Inr (c, w\<lparr>children := cs\<rparr>))"

text \<open>At most \<open>tries\<close> calls of \<open>read\<close> until one succeeds; the error of the last one.\<close>

fun read_tries :: "nat \<Rightarrow> int \<Rightarrow> (int + string) list \<Rightarrow> fault + int + string" where
  "read_tries 0 err rs = Inr (Inl err)"
| "read_tries (Suc tries) err [] = Inl Would_block"
| "read_tries (Suc tries) err (Inl e # rs) = read_tries tries e rs"
| "read_tries (Suc tries) err (Inr out # rs) = Inr (Inr (take 1024 out))"

definition stack_buffer :: "nat \<Rightarrow> child \<Rightarrow> string" where
  "stack_buffer len c = take len (stale c @ replicate len NUL)"

text \<open>
  \<open>run\<close> with a buffer of \<open>len\<close> bytes. Every failure returns the positive error number and leaves the buffer as it
  is; the output is copied without a NUL behind it.
\<close>

definition run_captured :: "nat \<Rightarrow> string list \<Rightarrow> 'a shell_scheme \<Rightarrow> fault + (int \<times> string) \<times> 'a shell_scheme" where
  "run_captured len params w =
     and_then (next_child w) (\<lambda>(c, w1).
     if pipe_errno c \<noteq> 0 then Inr ((pipe_errno c, stack_buffer len c), w1)
     else if fork_errno c \<noteq> 0 then Inr ((fork_errno c, stack_buffer len c), w1)
     else
       (let w2 = w1\<lparr>ran := ran w1 @ [params]\<rparr>
        in and_then (read_tries 5 0 (reads c)) (\<lambda>r. case r of
             Inl e \<Rightarrow> Inr ((e, stack_buffer len c), w2)
           | Inr out \<Rightarrow> Inr ((child_pid c, put_bytes 0 (take len out) (stack_buffer len c)), w2))))"

definition run_silent :: "string list \<Rightarrow> bool \<Rightarrow> 'a shell_scheme \<Rightarrow> fault + int \<times> 'a shell_scheme" where
  "run_silent params is_wait_child w =
     and_then (next_child w) (\<lambda>(c, w1).
     if fork_errno c \<noteq> 0 then Inr (fork_errno c, w1)
     else
       (let w2 = w1\<lparr>ran := ran w1 @ [params]\<rparr>
        in Inr (child_pid c, if is_wait_child then w2 else w2\<lparr>alive := insert (child_pid c) (alive w2)\<rparr>)))"

text \<open>
  The child's side of \<open>run\<close>: when \<open>execv\<close> fails, the copy of the program returns 0 from \<open>run\<close> and goes on.
\<close>

definition child_side :: "bool \<Rightarrow> int option" where
  "child_side exec_ok = (if exec_ok then None else Some 0)"

section \<open>wpa\_cli\<close>

text \<open>The texts that \<open>ping\<close> and \<open>status\<close> return.\<close>

definition captured_text :: "string list \<Rightarrow> 'a shell_scheme \<Rightarrow> fault + string \<times> 'a shell_scheme" where
  "captured_text params w =
     and_then (run_captured 512 params w) (\<lambda>((ret, buf), w1).
     if ret < 0 then Inr ([], w1) else and_then (cstring buf) (\<lambda>s. Inr (s, w1)))"

definition set_device_name :: "string \<Rightarrow> string \<Rightarrow> 'a shell_scheme \<Rightarrow> fault + bool \<times> 'a shell_scheme" where
  "set_device_name wlan_name device_name w =
     and_then (require (wlan_name \<noteq> [] \<and> device_name \<noteq> []) Assertion_failure) (\<lambda>_.
     and_then (run_captured 512 [''wpa_cli'', ''-i'', wlan_name, ''set'', ''device_name'', device_name] w) (\<lambda>((ret, buf), w1).
     Inr (0 \<le> ret, w1)))"

definition ping :: "'a shell_scheme \<Rightarrow> fault + string \<times> 'a shell_scheme" where
  "ping w = captured_text [''wpa_cli'', ''ping''] w"

definition status :: "string \<Rightarrow> 'a shell_scheme \<Rightarrow> fault + string \<times> 'a shell_scheme" where
  "status p2p_name w =
     and_then (require (p2p_name \<noteq> []) Assertion_failure) (\<lambda>_. captured_text [''wpa_cli'', ''-i'', p2p_name, ''status''] w)"

text \<open>The loop over the tokens of the answer to \<open>ping\<close>; \<open>None\<close> is the return value false.\<close>

fun p2p_name_of :: "string \<Rightarrow> string list \<Rightarrow> string option" where
  "p2p_name_of wlan_name [] = Some wlan_name"
| "p2p_name_of wlan_name (ptr # ptrs) =
     (if strstr ptr ''p2p-wlan'' then Some ptr
      else if strstr ptr ''FAIL'' then None
      else p2p_name_of wlan_name ptrs)"

definition get_p2p_name :: "string \<Rightarrow> 'a shell_scheme \<Rightarrow> fault + string option \<times> 'a shell_scheme" where
  "get_p2p_name wlan_name w =
     and_then (require (wlan_name \<noteq> []) Assertion_failure) (\<lambda>_.
     and_then (ping w) (\<lambda>(ping_ret, w1).
     if ping_ret = [] then Inr (None, w1)
     else Inr (p2p_name_of wlan_name (strtok blanks ping_ret), w1)))"

definition says_ok :: "string list \<Rightarrow> 'a shell_scheme \<Rightarrow> fault + bool \<times> 'a shell_scheme" where
  "says_ok params w =
     and_then (run_captured 512 params w) (\<lambda>((ret, buf), w1).
     if ret < 0 then Inr (False, w1) else and_then (cstring buf) (\<lambda>s. Inr (strstr s ''OK'', w1)))"

definition p2p_group_add :: "string \<Rightarrow> 'a shell_scheme \<Rightarrow> fault + bool \<times> 'a shell_scheme" where
  "p2p_group_add wlan_name w =
     and_then (require (wlan_name \<noteq> []) Assertion_failure) (\<lambda>_.
     says_ok [''wpa_cli'', ''-i'', wlan_name, ''p2p_group_add''] w)"

definition p2p_group_remove :: "string \<Rightarrow> string \<Rightarrow> 'a shell_scheme \<Rightarrow> fault + bool \<times> 'a shell_scheme" where
  "p2p_group_remove wlan_name p2p_name w =
     and_then (require (wlan_name \<noteq> [] \<and> p2p_name \<noteq> []) Assertion_failure) (\<lambda>_.
     says_ok [''wpa_cli'', ''-i'', wlan_name, ''p2p_group_remove'', p2p_name] w)"

text \<open>From \<open>pos\<close> to the end of the line, or of the text when there is none.\<close>

definition rest_of_line :: "nat \<Rightarrow> string \<Rightarrow> string" where
  "rest_of_line pos s = (case find_str [nl] (drop pos s) of None \<Rightarrow> drop pos s | Some n \<Rightarrow> take n (drop pos s))"

text \<open>
  The result, the device address and the SSID. A status without an address returns -1, which is true as a
  \<open>bool\<close>, and leaves both as they were.
\<close>

definition get_p2p_info ::
    "string \<Rightarrow> string \<Rightarrow> string \<Rightarrow> 'a shell_scheme \<Rightarrow> fault + (bool \<times> string \<times> string) \<times> 'a shell_scheme" where
  "get_p2p_info p2p_name dev_addr ssid w =
     and_then (require (p2p_name \<noteq> []) Assertion_failure) (\<lambda>_.
     and_then (status p2p_name w) (\<lambda>(status_ret, w1).
     if status_ret = [] then Inr ((False, dev_addr, ssid), w1)
     else case find_str ''p2p_device_address='' status_ret of
       None \<Rightarrow> Inr ((True, dev_addr, ssid), w1)
     | Some header_pos \<Rightarrow>
         (let dev_addr1 = rest_of_line (header_pos + length ''p2p_device_address='') status_ret
          in case find_str (nl # ''ssid='') status_ret of
               None \<Rightarrow> Inr ((True, dev_addr1, ''any''), w1)
             | Some pos \<Rightarrow> Inr ((True, dev_addr1, rest_of_line (pos + 1 + length ''ssid='') status_ret), w1))))"

definition set_wps_pin :: "string \<Rightarrow> string \<Rightarrow> 'a shell_scheme \<Rightarrow> fault + bool \<times> 'a shell_scheme" where
  "set_wps_pin dev_name pin w =
     and_then (run_silent [''wpa_cli'', ''-i'', dev_name, ''wps_pin'', ''any'', pin] True w) (\<lambda>(ret, w1). Inr (0 \<le> ret, w1))"

definition PASSPHRASE_LENGTH :: nat where "PASSPHRASE_LENGTH = 8"

definition p2p_get_passphrase :: "string \<Rightarrow> 'a shell_scheme \<Rightarrow> fault + string \<times> 'a shell_scheme" where
  "p2p_get_passphrase p2p_name w =
     and_then (require (p2p_name \<noteq> []) Assertion_failure) (\<lambda>_.
     and_then (run_captured 512 [''wpa_cli'', ''-i'', p2p_name, ''p2p_get_passphrase''] w) (\<lambda>((res, buf), w1).
     if res < 0 then Inr ([], w1)
     else and_then (cstring (buf[PASSPHRASE_LENGTH := NUL])) (\<lambda>s. Inr (s, w1))))"

text \<open>
  What \<open>sscanf(ptr, "%*[^=]=%s", buf)\<close> stores: nothing when the token begins with the sign, has none, or has nothing
  behind it.
\<close>

definition scan_value :: "string \<Rightarrow> string option" where
  "scan_value ptr =
     (let v = dropWhile is_space (tl (dropWhile (\<lambda>c. c \<noteq> CHR ''='') ptr))
      in if ptr = [] \<or> hd ptr = CHR ''='' \<or> v = [] then None else Some (takeWhile (\<lambda>c. \<not> is_space c) v))"

text \<open>
  The first token that names an address. The value goes to the start of the buffer that the tokens are in; when there is none, what stands
  there is the first token, behind the delimiters in front of it.
\<close>

definition buffer_start :: "string \<Rightarrow> string" where
  "buffer_start s = takeWhile (\<lambda>c. c \<in> blanks) s @ takeWhile (\<lambda>c. c \<notin> blanks) (dropWhile (\<lambda>c. c \<in> blanks) s)"

fun address_of :: "string \<Rightarrow> string list \<Rightarrow> string" where
  "address_of start [] = []"
| "address_of start (ptr # ptrs) =
     (if strstr ptr ''ip_address'' \<or> strstr ptr ''p2p_device_address''
      then case scan_value ptr of Some v \<Rightarrow> v | None \<Rightarrow> start
      else address_of start ptrs)"

definition get_ip_address :: "string \<Rightarrow> 'a shell_scheme \<Rightarrow> fault + string \<times> 'a shell_scheme" where
  "get_ip_address p2p_name w =
     and_then (require (p2p_name \<noteq> []) Assertion_failure) (\<lambda>_.
     and_then (status p2p_name w) (\<lambda>(status_ret, w1).
     if status_ret = [] then Inr ([], w1)
     else Inr (address_of (buffer_start status_ret) (strtok blanks status_ret), w1)))"

section \<open>rfkill and iwpriv\<close>

fun rfkill_number_of :: "string \<Rightarrow> string list \<Rightarrow> fault + string" where
  "rfkill_number_of device_name [] = Inr []"
| "rfkill_number_of device_name (ptr # ptrs) =
     (if strstr ptr device_name then
        (case strtok {CHR '':'', CHR '' ''} ptr of [] \<Rightarrow> Inl Null_dereference | ptr2 # _ \<Rightarrow> Inr ptr2)
      else rfkill_number_of device_name ptrs)"

definition get_rfkill_number_str :: "string \<Rightarrow> 'a shell_scheme \<Rightarrow> fault + string \<times> 'a shell_scheme" where
  "get_rfkill_number_str device_name w =
     and_then (run_captured 512 [''rfkill'', ''list''] w) (\<lambda>((res, buf), w1).
     if res < 0 then Inr ([], w1)
     else and_then (cstring buf) (\<lambda>s.
          and_then (rfkill_number_of device_name (strtok {nl} s)) (\<lambda>n. Inr (n, w1))))"

definition rfkill_command :: "string \<Rightarrow> string \<Rightarrow> 'a shell_scheme \<Rightarrow> fault + int \<times> 'a shell_scheme" where
  "rfkill_command verb device_name w =
     and_then (get_rfkill_number_str device_name w) (\<lambda>(rfkill_number, w1).
     if rfkill_number = [] then Inr (0, w1) else run_silent [''rfkill'', verb, rfkill_number] True w1)"

definition block_device :: "string \<Rightarrow> 'a shell_scheme \<Rightarrow> fault + int \<times> 'a shell_scheme" where
  "block_device device_name w = rfkill_command ''block'' device_name w"

definition unblock_device :: "string \<Rightarrow> 'a shell_scheme \<Rightarrow> fault + int \<times> 'a shell_scheme" where
  "unblock_device device_name w = rfkill_command ''unblock'' device_name w"

definition p2p_set_enable :: "string \<Rightarrow> i32 \<Rightarrow> 'a shell_scheme \<Rightarrow> fault + int \<times> 'a shell_scheme" where
  "p2p_set_enable device_name p2p_role w =
     run_silent [''iwpriv'', device_name, ''p2p_set'', ''enable='' @ int_to_string p2p_role] True w"

section \<open>Texts of lines\<close>

lemma strtok_simps:
  "strtok ds [] = []"
  "d \<in> ds \<Longrightarrow> strtok ds (d # s) = strtok ds s"
proof -
  show "strtok ds [] = []" by (subst strtok.simps) simp
  show "strtok ds (d # s) = strtok ds s" if "d \<in> ds"
    using that by (subst (1 2) strtok.simps) simp
qed

lemma strtok_token:
  assumes "tok \<noteq> []" "set tok \<inter> ds = {}" "d \<in> ds"
  shows "strtok ds (tok @ d # s) = tok # strtok ds s"
proof -
  have n: "\<forall>c\<in>set tok. c \<notin> ds" using assms(2) by auto
  have "dropWhile (\<lambda>c. c \<in> ds) (tok @ d # s) = tok @ d # s"
    using assms(1) n by (cases tok) auto
  moreover have "takeWhile (\<lambda>c. c \<notin> ds) (tok @ d # s) = tok" "dropWhile (\<lambda>c. c \<notin> ds) (tok @ d # s) = d # s"
    using n assms(3) by (simp_all add: takeWhile_append2 dropWhile_append2)
  ultimately show ?thesis using assms(1,3) by (subst strtok.simps) (simp add: Let_def strtok_simps)
qed

definition line_of :: "string \<times> string \<Rightarrow> string" where
  "line_of f = fst f @ CHR ''='' # snd f"

definition lines_text :: "string list \<Rightarrow> string" where
  "lines_text ls = concat (map (\<lambda>l. l @ [nl]) ls)"

text \<open>Fields as \<open>wpa_cli\<close> prints them: a name and a value without white space, the name without \<open>=\<close>.\<close>

definition field_ok :: "string \<times> string \<Rightarrow> bool" where
  "field_ok f \<longleftrightarrow> fst f \<noteq> [] \<and> snd f \<noteq> [] \<and> CHR ''='' \<notin> set (fst f)
     \<and> (\<forall>c\<in>set (fst f) \<union> set (snd f). \<not> is_space c \<and> c \<noteq> CHR 0x27 \<and> c \<noteq> NUL)"

lemma blank_is_space: "c \<in> blanks \<Longrightarrow> is_space c \<or> c = CHR 0x27"
  by (auto simp: blanks_def is_space_def)

lemma field_line:
  assumes "field_ok f"
  shows "line_of f \<noteq> []" "set (line_of f) \<inter> blanks = {}" "nl \<notin> set (line_of f)" "NUL \<notin> set (line_of f)"
    "scan_value (line_of f) = Some (snd f)"
proof -
  obtain k v where f: "f = (k, v)" by (cases f)
  have v: "v \<noteq> []" "\<forall>c\<in>set v. \<not> is_space c" and k: "k \<noteq> []" "CHR ''='' \<notin> set k"
    using assms by (auto simp: field_ok_def f)
  have sp: "is_space nl" "\<not> is_space (CHR ''='')" by (simp_all add: is_space_def)
  show "line_of f \<noteq> []" by (simp add: line_of_def)
  show "nl \<notin> set (line_of f)" "NUL \<notin> set (line_of f)"
    using assms sp by (auto simp: line_of_def field_ok_def)
  show "set (line_of f) \<inter> blanks = {}"
    using assms blank_is_space sp(2) by (fastforce simp: line_of_def field_ok_def)
  have "\<forall>c\<in>set k. c \<noteq> CHR ''=''" using k(2) by auto
  then have "dropWhile (\<lambda>c. c \<noteq> CHR ''='') (line_of f) = CHR ''='' # v"
    by (simp add: f line_of_def dropWhile_append2)
  moreover have "dropWhile is_space v = v" using v by (cases v) auto
  moreover have "takeWhile (\<lambda>c. \<not> is_space c) v = v" using v(2) by (simp add: takeWhile_eq_all_conv)
  moreover have "hd (line_of f) \<noteq> CHR ''=''" using k by (cases k) (auto simp: f line_of_def)
  ultimately show "scan_value (line_of f) = Some (snd f)"
    using v(1) by (simp add: scan_value_def f line_of_def)
qed

lemma strtok_lines:
  assumes "\<forall>l\<in>set ls. l \<noteq> [] \<and> set l \<inter> blanks = {}"
  shows "strtok blanks (lines_text ls) = ls"
  using assms
proof (induction ls)
  case Nil
  then show ?case by (simp add: lines_text_def strtok_simps)
next
  case (Cons l ls)
  have "nl \<in> blanks" by (simp add: blanks_def)
  then show ?case using Cons strtok_token [of l blanks nl "lines_text ls"] by (simp add: lines_text_def)
qed

lemma address_of_fields:
  assumes "\<forall>f\<in>set fs. field_ok f"
  shows "address_of start (map line_of fs)
    = (case find (\<lambda>f. strstr (line_of f) ''ip_address'' \<or> strstr (line_of f) ''p2p_device_address'') fs of
         None \<Rightarrow> [] | Some f \<Rightarrow> snd f)"
  using assms by (induction fs) (simp_all add: field_line)

section \<open>What a process prints\<close>

text \<open>The process runs, its output fits the buffer of 512 bytes, and the byte behind it happens to be a NUL.\<close>

definition prints :: "string \<Rightarrow> child \<Rightarrow> bool" where
  "prints out c \<longleftrightarrow> pipe_errno c = 0 \<and> fork_errno c = 0 \<and> 0 < child_pid c \<and> reads c \<noteq> [] \<and> hd (reads c) = Inr out
     \<and> length out < 512 \<and> NUL \<notin> set out \<and> stack_buffer 512 c ! length out = NUL"

lemma length_stack_buffer [simp]: "length (stack_buffer n c) = n"
  by (simp add: stack_buffer_def)

lemma cstring_prefix: "NUL \<notin> set s \<Longrightarrow> cstring (s @ NUL # t) = Inr s"
proof -
  assume "NUL \<notin> set s"
  then have "\<forall>c\<in>set s. c \<noteq> NUL" by auto
  then show ?thesis by (simp add: cstring_def takeWhile_append2)
qed

lemma run_captured_prints:
  assumes "prints out c" "children w = c # cs"
  shows "\<exists>t. run_captured 512 params w
    = Inr ((child_pid c, out @ NUL # t), w\<lparr>children := cs, ran := ran w @ [params]\<rparr>) \<and> length t = 511 - length out"
proof -
  obtain rs where rs: "reads c = Inr out # rs" using assms(1) by (cases "reads c") (auto simp: prints_def)
  define b where "b = stack_buffer 512 c"
  have l: "length out < length b" and n: "b ! length out = NUL"
    using assms(1) by (simp_all add: prints_def b_def)
  have "drop (length out) b = NUL # drop (Suc (length out)) b" using Cons_nth_drop_Suc [OF l] n by simp
  then have "put_bytes 0 out b = out @ NUL # drop (Suc (length out)) b" by (simp add: put_bytes_def)
  moreover have "read_tries 5 0 (reads c) = Inr (Inr out)"
    using assms(1) by (simp add: rs prints_def eval_nat_numeral)
  moreover have "take 512 out = out" using l by (simp add: b_def)
  ultimately show ?thesis using assms
    by (simp add: run_captured_def next_child_def prints_def Let_def b_def)
qed

lemma captured_text_prints:
  assumes "prints out c" "children w = c # cs"
  shows "captured_text params w = Inr (out, w\<lparr>children := cs, ran := ran w @ [params]\<rparr>)"
proof -
  obtain t where "run_captured 512 params w = Inr ((child_pid c, out @ NUL # t), w\<lparr>children := cs, ran := ran w @ [params]\<rparr>)"
    using run_captured_prints [OF assms] by blast
  then show ?thesis using assms(1) by (simp add: captured_text_def cstring_prefix prints_def)
qed

text \<open>
  The address is the value of the first field that names one of the two addresses: while the group has no \<open>ip_address\<close>, the hardware address.
\<close>

lemma get_ip_address_fields:
  assumes "prints (lines_text (map line_of fs)) c" "children w = c # cs" "p2p_name \<noteq> []" "\<forall>f\<in>set fs. field_ok f" "fs \<noteq> []"
  shows "get_ip_address p2p_name w = Inr
    (case find (\<lambda>f. strstr (line_of f) ''ip_address'' \<or> strstr (line_of f) ''p2p_device_address'') fs of
       None \<Rightarrow> [] | Some f \<Rightarrow> snd f,
     w\<lparr>children := cs, ran := ran w @ [[''wpa_cli'', ''-i'', p2p_name, ''status'']]\<rparr>)"
proof -
  have "\<forall>l\<in>set (map line_of fs). l \<noteq> [] \<and> set l \<inter> blanks = {}" using assms(4) field_line(1,2) by auto
  then have t: "strtok blanks (lines_text (map line_of fs)) = map line_of fs" by (rule strtok_lines)
  have "lines_text (map line_of fs) \<noteq> []" using assms(5) by (cases fs) (simp_all add: lines_text_def)
  then show ?thesis
    by (simp add: get_ip_address_def status_def assms(3) captured_text_prints [OF assms(1,2)] t address_of_fields [OF assms(4)])
qed

section \<open>The two fields of the information\<close>

lemma find_str_line:
  assumes "pat \<noteq> []" "nl \<notin> set pat"
  shows "find_str pat (l @ nl # rest) =
    (case find_str pat l of Some n \<Rightarrow> Some n | None \<Rightarrow> map_option (\<lambda>n. length l + 1 + n) (find_str pat rest))"
proof (induction l)
  case Nil
  have "take (length pat) (nl # rest) \<noteq> pat" using assms by (cases pat) auto
  then show ?case using assms(1) by (cases "find_str pat rest") simp_all
next
  case (Cons c l)
  have "take (length pat) (c # l @ nl # rest) = pat \<longleftrightarrow> take (length pat) (c # l) = pat"
  proof (cases "length pat \<le> length (c # l)")
    case True
    then have "take (length pat) ((c # l) @ nl # rest) = take (length pat) (c # l)" by (simp del: append_Cons)
    then show ?thesis by simp
  next
    case False
    have "nl \<in> set (take (length pat) ((c # l) @ nl # rest))" using False by (auto simp: take_Cons' split: if_splits)
    moreover have "length (take (length pat) (c # l)) < length pat" using False by simp
    ultimately show ?thesis using assms(2) by (metis append_Cons nat_less_le)
  qed
  then show ?case using Cons by (cases "find_str pat rest"; cases "find_str pat l") auto
qed

lemma find_str_lines:
  assumes "pat \<noteq> []" "nl \<notin> set pat" "\<forall>l\<in>set pre. find_str pat l = None" "find_str pat l = Some n"
  shows "find_str pat (lines_text (pre @ l # post)) = Some (length (lines_text pre) + n)"
  using assms(3)
proof (induction pre)
  case Nil
  then show ?case using find_str_line [OF assms(1,2), of l] assms(4) by (simp add: lines_text_def)
next
  case (Cons m pre)
  then show ?case using find_str_line [OF assms(1,2), of m "lines_text (pre @ l # post)"] by (simp add: lines_text_def)
qed

text \<open>A pattern that begins with the line separator is found where a line behind the first begins with the rest of it.\<close>

lemma find_str_line_start:
  assumes "nl \<notin> set l"
  shows "find_str (nl # pat) (l @ nl # rest) =
    (if take (length pat) rest = pat then Some (length l) else map_option (\<lambda>n. length l + 1 + n) (find_str (nl # pat) rest))"
  using assms by (induction l) (cases "find_str (nl # pat) rest"; auto)+

lemma find_str_line_starts:
  assumes "\<forall>m\<in>set (l0 # pre). nl \<notin> set m" "\<forall>m\<in>set pre. take (length pat) (m @ [nl]) \<noteq> pat"
    and "nl \<notin> set pat" "take (length pat) l = pat"
  shows "find_str (nl # pat) (lines_text ((l0 # pre) @ l # post)) = Some (length (lines_text (l0 # pre)) - 1)"
  using assms(1,2)
proof (induction pre arbitrary: l0)
  case Nil
  then show ?case using find_str_line_start [of l0 pat "lines_text (l # post)"] assms(4)
    by (simp add: lines_text_def)
       (metis append_take_drop_id length_append length_take min_def nat_le_linear take_all_iff take_append diff_is_0_eq' take0 append_Nil2 le_add1)
next
  case (Cons m pre)
  let ?r = "lines_text ((m # pre) @ l # post)"
  have "take (length pat) ?r \<noteq> pat"
  proof
    assume a: "take (length pat) ?r = pat"
    have r: "?r = (m @ [nl]) @ lines_text (pre @ l # post)" by (simp add: lines_text_def)
    have "length pat \<le> length m"
    proof (rule ccontr)
      assume "\<not> length pat \<le> length m"
      then have "nl \<in> set (take (length pat) ?r)" unfolding r by (auto simp: take_Cons')
      with a assms(3) show False by simp
    qed
    then have "take (length pat) (m @ [nl]) = take (length pat) ?r" unfolding r by simp
    with a Cons.prems(2) show False by simp
  qed
  then show ?case using find_str_line_start [of l0 pat ?r] Cons by (simp add: lines_text_def)
qed

lemma rest_of_line_text:
  assumes "nl \<notin> set v"
  shows "rest_of_line (length p) (p @ v @ nl # q) = v"
proof -
  have "find_str [nl] (v @ nl # q) = Some (length v)" using assms by (induction v) auto
  then show ?thesis by (simp add: rest_of_line_def)
qed

lemma line_key:
  assumes "CHR ''='' \<notin> set (fst f)" "take (length k + 1) (line_of f @ t) = k @ ''=''" "CHR ''='' \<notin> set k"
  shows "fst f = k"
proof -
  have tw: "takeWhile (\<lambda>c. c \<noteq> CHR ''='') (a @ CHR ''='' # b) = a" if "CHR ''='' \<notin> set a" for a b
  proof -
    have "\<forall>c\<in>set a. c \<noteq> CHR ''=''" using that by auto
    then show ?thesis by (simp add: takeWhile_append2)
  qed
  have "line_of f @ t = k @ CHR ''='' # drop (length k + 1) (line_of f @ t)"
    using append_take_drop_id [of "length k + 1" "line_of f @ t"] unfolding assms(2) by simp
  then show ?thesis using tw [OF assms(1), of "snd f @ t"] tw [OF assms(3)] by (simp add: line_of_def)
qed

lemma lines_text_append: "lines_text (xs @ ys) = lines_text xs @ lines_text ys"
  by (simp add: lines_text_def)

text \<open>
  The information of a status whose first line is not the SSID's: the values of the first line that names the
  device address and of the first \<open>ssid\<close> field, not those of a \<open>bssid\<close>.
\<close>

lemma get_p2p_info_fields:
  assumes "prints (lines_text (map line_of fs)) c" "children w = c # cs" "p2p_name \<noteq> []"
    and nls: "\<forall>f\<in>set fs. nl \<notin> set (line_of f)"
    and dev: "fs = a @ (''p2p_device_address'', mac) # b" "\<forall>f\<in>set a. find_str ''p2p_device_address='' (line_of f) = None"
    and ssid: "fs = f0 # s1 @ (''ssid'', sid) # s2" "\<forall>f\<in>set s1. fst f \<noteq> ''ssid'' \<and> CHR ''='' \<notin> set (fst f)"
  shows "get_p2p_info p2p_name d0 s0 w
    = Inr ((True, mac, sid), w\<lparr>children := cs, ran := ran w @ [[''wpa_cli'', ''-i'', p2p_name, ''status'']]\<rparr>)"
proof -
  define doc where "doc = lines_text (map line_of fs)"
  define p where "p = lines_text (map line_of a) @ ''p2p_device_address=''"
  define q where "q = lines_text (map line_of (f0 # s1)) @ ''ssid=''"
  have d: "doc = p @ mac @ nl # lines_text (map line_of b)"
    by (simp add: doc_def p_def dev(1) lines_text_append lines_text_def line_of_def)
  have s: "doc = q @ sid @ nl # lines_text (map line_of s2)"
    by (simp add: doc_def q_def ssid(1) lines_text_append lines_text_def line_of_def)
  have "find_str ''p2p_device_address='' doc = Some (length (lines_text (map line_of a)) + 0)"
    using dev(2) unfolding doc_def dev(1) map_append list.map
    by (intro find_str_lines) (auto simp: line_of_def)
  then have fd: "find_str ''p2p_device_address='' doc = Some (length p - length ''p2p_device_address='')"
    by (simp add: p_def)
  have "find_str (nl # ''ssid='') (lines_text ((line_of f0 # map line_of s1) @ line_of (''ssid'', sid) # map line_of s2))
      = Some (length (lines_text (line_of f0 # map line_of s1)) - 1)"
  proof (rule find_str_line_starts)
    show "\<forall>m\<in>set (line_of f0 # map line_of s1). nl \<notin> set m" using nls ssid(1) by auto
    show "\<forall>m\<in>set (map line_of s1). take (length ''ssid='') (m @ [nl]) \<noteq> ''ssid=''"
      using ssid(2) line_key [of _ "''ssid''" "[nl]"] by (auto simp del: take_append)
  qed (simp_all add: line_of_def)
  then have fs: "find_str (nl # ''ssid='') doc = Some (length (lines_text (map line_of (f0 # s1))) - 1)"
    by (simp add: doc_def ssid(1))
  have pos: "length (lines_text (map line_of (f0 # s1))) - 1 + 1 + length ''ssid='' = length q"
    by (simp add: q_def lines_text_def)
  have lp: "length p - length ''p2p_device_address='' + length ''p2p_device_address='' = length p"
    by (simp add: p_def)
  have "nl \<notin> set mac" using nls dev(1) by (auto simp: line_of_def)
  moreover have "nl \<notin> set sid" using nls unfolding ssid(1) by (auto simp: line_of_def)
  ultimately have v: "rest_of_line (length p) doc = mac" "rest_of_line (length q) doc = sid"
    using rest_of_line_text d s by metis+
  have "doc \<noteq> []" by (simp add: d p_def)
  then show ?thesis
    using captured_text_prints [OF assms(1,2)] assms(3)
    unfolding get_p2p_info_def status_def doc_def [symmetric]
    by (simp only: require_eq and_then_simps fd fs option.case pos lp v Let_def split_def fst_conv snd_conv if_False simp_thms)
qed

text \<open>
  No failure to start a process is reported: the error numbers are positive, so a command of which only the sign of the
  result is looked at always succeeds.
\<close>

definition real_child :: "child \<Rightarrow> bool" where
  "real_child c \<longleftrightarrow> 0 \<le> pipe_errno c \<and> 0 \<le> fork_errno c \<and> 0 < child_pid c \<and> (\<forall>e. Inl e \<in> set (reads c) \<longrightarrow> 0 < e)"

lemma read_tries_positive:
  "read_tries n e rs = Inr (Inl e') \<Longrightarrow> 0 \<le> e \<Longrightarrow> \<forall>e. Inl e \<in> set rs \<longrightarrow> 0 < e \<Longrightarrow> 0 \<le> e'"
  by (induction n e rs rule: read_tries.induct) (auto intro: less_imp_le)

lemma run_captured_not_negative:
  assumes "run_captured len params w = Inr ((ret, buf), w')" "\<forall>c\<in>set (children w). real_child c"
  shows "0 \<le> ret \<and> length buf = len"
proof -
  obtain c cs where cs: "children w = c # cs" using assms(1)
    by (cases "children w") (simp_all add: run_captured_def next_child_def)
  then have c: "real_child c" using assms(2) by simp
  show ?thesis
  proof (cases "pipe_errno c \<noteq> 0 \<or> fork_errno c \<noteq> 0")
    case True
    then show ?thesis using assms(1) cs c
      by (auto simp: run_captured_def next_child_def real_child_def split: if_splits)
  next
    case False
    then obtain r where r: "read_tries 5 0 (reads c) = Inr r" and out: "(case r of
        Inl e \<Rightarrow> Inr ((e, stack_buffer len c), w\<lparr>children := cs, ran := ran w @ [params]\<rparr>)
      | Inr o1 \<Rightarrow> Inr ((child_pid c, put_bytes 0 (take len o1) (stack_buffer len c)),
          w\<lparr>children := cs, ran := ran w @ [params]\<rparr>)) = (Inr ((ret, buf), w') :: fault + (int \<times> string) \<times> _)"
      using assms(1) cs by (auto simp: run_captured_def next_child_def Let_def and_then_eq_Inr)
    have "0 \<le> e" if "r = Inl e" for e
      using read_tries_positive [of 5 0 "reads c" e] r c that by (simp add: real_child_def)
    with out c show ?thesis by (cases r) (auto simp: real_child_def)
  qed
qed

lemma set_device_name_never_fails:
  assumes "set_device_name wlan dev w = Inr (ok, w')" "\<forall>c\<in>set (children w). real_child c"
  shows "ok"
  using assms run_captured_not_negative [OF _ assms(2)]
  by (fastforce simp: set_device_name_def and_then_eq_Inr)

end
