(* ===== verification/WfdServer.thy ===== *)
theory WfdServer
  imports Commands
begin

text \<open>
  The Wi-Fi Direct server (linux/device/src/WfdP2PServer.cpp): the group is added and announced to the peer, and the DHCP server
  is started, watched by a handler of \<open>SIGCHLD\<close>, and killed. The group's other plugins are here, too: the devices and the
  Bluetooth server, and the initialization of the interfaces (NetworkInitializer.cpp).
\<close>

section \<open>State\<close>

text \<open>
  \<open>sDhcpdCaller\<close> says whether the static pointer is set; there is one server. The record also has what is outside
  the program: whether the handler is installed, the configuration file, the processes that were sent
  \<open>SIGKILL\<close>, the private data sent to the peer and the addresses the listeners were told.
\<close>

record wfd_server = shell +
  mDeviceName :: string
  mP2PName :: string
  sDhcpdMonitoring :: bool
  sDhcpdPid :: int
  sDhcpdCaller :: bool
  sDhcpdEnabled :: bool
  handler_installed :: bool
  config_file :: "string option"
  killed :: "int list"
  private_data :: "string list"
  told_addresses :: "string list"

section \<open>The DHCP server\<close>

text \<open>\<open>strncat\<close> into an array: the bound is that of the appended text, not of the array.\<close>

definition strncat :: "nat \<Rightarrow> string \<Rightarrow> string \<Rightarrow> nat \<Rightarrow> fault + string" where
  "strncat room dst src n =
     (if length dst + length (take n src) + 1 \<le> room then Inr (dst @ take n src) else Inl Out_of_bounds)"

definition snprintf :: "nat \<Rightarrow> string \<Rightarrow> string" where
  "snprintf n s = take (n - 1) s"

definition LINEBUF_SIZE :: nat where "LINEBUF_SIZE = 128"
definition SCRIPT_SIZE :: nat where "SCRIPT_SIZE = 512"

definition dhcpd_lines :: "string \<Rightarrow> string list" where
  "dhcpd_lines p2p_name =
     [''start 192.168.49.20'' @ [nl],
      ''end 192.168.49.40'' @ [nl],
      ''interface '' @ p2p_name @ [nl],
      ''max_leases 20'' @ [nl],
      ''option subnet 255.255.255.0'' @ [nl],
      ''option router 192.168.49.1'' @ [nl],
      ''option lease 864000'' @ [nl],
      ''option broadcast 192.168.49.255'' @ [nl]]"

text \<open>The first line is copied by \<open>strncpy\<close> with the size of the array, which holds it.\<close>

definition dhcpd_script :: "string \<Rightarrow> fault + string" where
  "dhcpd_script p2p_name =
     fold_ok (\<lambda>l script. strncat SCRIPT_SIZE script l SCRIPT_SIZE)
       (tl (map (snprintf LINEBUF_SIZE) (dhcpd_lines p2p_name))) (hd (map (snprintf LINEBUF_SIZE) (dhcpd_lines p2p_name)))"

text \<open>The file is opened and written without errors; it ends with the NUL of the script.\<close>

definition launch_dhcpd :: "'a wfd_server_scheme \<Rightarrow> fault + int \<times> 'a wfd_server_scheme" where
  "launch_dhcpd w =
     (let w1 = w\<lparr>sDhcpdEnabled := True\<rparr>;
          w2 = (if \<not> sDhcpdMonitoring w1 then w1\<lparr>handler_installed := True, sDhcpdMonitoring := True\<rparr> else w1)
      in and_then (require (mP2PName w2 \<noteq> []) Assertion_failure) (\<lambda>_.
         and_then (dhcpd_script (mP2PName w2)) (\<lambda>script.
         run_silent [''udhcpd'', ''dhcpd.conf'', ''-f''] False (w2\<lparr>config_file := Some (script @ [NUL])\<rparr>))))"

text \<open>The handler of \<open>SIGCHLD\<close> for the process \<open>si_pid\<close>.\<close>

definition sighandler_monitor_udhcpd :: "int \<Rightarrow> 'a wfd_server_scheme \<Rightarrow> fault + 'a wfd_server_scheme" where
  "sighandler_monitor_udhcpd si_pid w =
     (if sDhcpdPid w = 0 then Inr w
      else if si_pid = sDhcpdPid w then
       (let w1 = w\<lparr>sDhcpdPid := 0\<rparr>
        in if sDhcpdCaller w1 \<and> sDhcpdEnabled w1
           then and_then (launch_dhcpd w1) (\<lambda>(pid, w2). Inr (w2\<lparr>sDhcpdPid := pid\<rparr>))
           else Inr w1)
      else Inr w)"

definition kill_dhcpd :: "'a wfd_server_scheme \<Rightarrow> 'a wfd_server_scheme" where
  "kill_dhcpd w =
     (let w1 = w\<lparr>sDhcpdEnabled := False, sDhcpdMonitoring := False, config_file := None\<rparr>
      in if sDhcpdPid w1 = 0 then w1 else w1\<lparr>killed := killed w1 @ [sDhcpdPid w1]\<rparr>)"

text \<open>A process ends, by itself or killed; the signal is delivered when a handler is installed.\<close>

definition process_ends :: "int \<Rightarrow> 'a wfd_server_scheme \<Rightarrow> fault + 'a wfd_server_scheme" where
  "process_ends pid w =
     (let w1 = w\<lparr>alive := alive w - {pid}\<rparr>
      in if handler_installed w1 then sighandler_monitor_udhcpd pid w1 else Inr w1)"

section \<open>The server\<close>

definition set_wfd_ip_addr :: "string \<Rightarrow> 'a wfd_server_scheme \<Rightarrow> fault + int \<times> 'a wfd_server_scheme" where
  "set_wfd_ip_addr ip_addr w =
     and_then (require (mP2PName w \<noteq> []) Assertion_failure) (\<lambda>_.
     and_then (run_captured 256 [''ifconfig'', mP2PName w, ip_addr] w) (\<lambda>((ret, buf), w1). Inr (ret, w1)))"

fun wait_ip_address :: "nat \<Rightarrow> string \<Rightarrow> 'a wfd_server_scheme \<Rightarrow> fault + string \<times> 'a wfd_server_scheme" where
  "wait_ip_address 0 p2p_name w = Inr ([], w)"
| "wait_ip_address (Suc n) p2p_name w =
     and_then (get_ip_address p2p_name w) (\<lambda>(ip_addr, w1).
     if ip_addr \<noteq> [] then Inr (ip_addr, w1) else wait_ip_address n p2p_name w1)"

text \<open>The announcement: lines appended in an array of 1024 bytes.\<close>

definition append_line :: "string \<Rightarrow> string \<Rightarrow> fault + string" where
  "append_line wfdInfo s = and_then (strncat 1024 wfdInfo [nl] 1024) (\<lambda>i. strncat 1024 i s 1024)"

definition wfd_default_pin :: string where "wfd_default_pin = ''12345670''"

text \<open>The second half: the information about the group is collected, sent and told. \<open>ended\<close> are the processes whose end is signalled before the check.\<close>

definition announce :: "int list \<Rightarrow> string \<Rightarrow> 'a wfd_server_scheme \<Rightarrow> fault + bool \<times> 'a wfd_server_scheme" where
  "announce ended p2p_name w =
     and_then (get_p2p_info p2p_name [] [] w) (\<lambda>((ret, p2p_dev_addr, ssid), w1).
     if \<not> ret then Inr (False, w1)
     else
       and_then (append_line (snprintf 1024 p2p_dev_addr) ssid) (\<lambda>i1.
       and_then (p2p_get_passphrase p2p_name w1) (\<lambda>(passphrase, w2).
       and_then (append_line i1 passphrase) (\<lambda>i2.
       and_then (set_wps_pin p2p_name wfd_default_pin w2) (\<lambda>(pin_ok, w3).
       if \<not> pin_ok then Inr (False, w3)
       else
         and_then (append_line i2 wfd_default_pin) (\<lambda>i3.
         and_then (fold_ok process_ends ended w3) (\<lambda>w4.
         and_then (if sDhcpdPid w4 = 0 then and_then (launch_dhcpd w4) (\<lambda>(pid, w5). Inr (w5\<lparr>sDhcpdPid := pid\<rparr>))
                   else Inr w4) (\<lambda>w6.
         and_then (wait_ip_address 30 p2p_name w6) (\<lambda>(ip_addr, w7).
         if ip_addr = [] then Inr (False, w7)
         else
           and_then (append_line i3 ip_addr) (\<lambda>wfdInfo.
           Inr (True, w7\<lparr>private_data := private_data w7 @ [wfdInfo], told_addresses := told_addresses w7 @ [ip_addr]\<rparr>)))))))))))"

definition wfd_allow_discover_impl :: "int list \<Rightarrow> 'a wfd_server_scheme \<Rightarrow> fault + bool \<times> 'a wfd_server_scheme" where
  "wfd_allow_discover_impl ended w =
     and_then (set_device_name ''wlan0'' (mDeviceName w) w) (\<lambda>(name_ok, w1).
     if \<not> name_ok then Inr (False, w1)
     else
       and_then (p2p_group_add ''wlan0'' w1) (\<lambda>(added, w2).
       if \<not> added then Inr (False, w2)
       else
         and_then (get_p2p_name ''wlan0'' w2) (\<lambda>(name, w3).
         case name of
           None \<Rightarrow> Inr (False, w3)
         | Some p2p_name \<Rightarrow>
             and_then (set_wfd_ip_addr ''192.168.49.1'' (w3\<lparr>mP2PName := p2p_name\<rparr>)) (\<lambda>(_, w4).
             and_then (launch_dhcpd (w4\<lparr>sDhcpdCaller := True\<rparr>)) (\<lambda>(pid, w5).
             announce ended p2p_name (w5\<lparr>sDhcpdPid := pid\<rparr>))))))"

definition wfd_disallow_discover_impl :: "'a wfd_server_scheme \<Rightarrow> fault + bool \<times> 'a wfd_server_scheme" where
  "wfd_disallow_discover_impl w =
     and_then (require (mP2PName w \<noteq> []) Assertion_failure) (\<lambda>_. p2p_group_remove ''wlan0'' (mP2PName w) (kill_dhcpd w))"

section \<open>Devices and the Bluetooth server\<close>

definition bt_turn_on_impl :: "'a shell_scheme \<Rightarrow> fault + bool \<times> 'a shell_scheme" where
  "bt_turn_on_impl w =
     and_then (run_captured 512 [''hciconfig'', ''hci0'', ''up'', ''piscan''] w) (\<lambda>((res, buf), w1). Inr (0 \<le> res, w1))"

definition bt_turn_off_impl :: "'a shell_scheme \<Rightarrow> fault + bool \<times> 'a shell_scheme" where
  "bt_turn_off_impl w = Inr (True, w)"

definition wfd_turn_on_impl :: "'a shell_scheme \<Rightarrow> fault + bool \<times> 'a shell_scheme" where
  "wfd_turn_on_impl w = Inr (True, w)"

definition wfd_turn_off_impl :: "'a shell_scheme \<Rightarrow> fault + bool \<times> 'a shell_scheme" where
  "wfd_turn_off_impl w = Inr (True, w)"

definition bt_allow_discover_impl :: "'a shell_scheme \<Rightarrow> fault + bool \<times> 'a shell_scheme" where
  "bt_allow_discover_impl w = Inr (True, w)"

definition bt_disallow_discover_impl :: "'a shell_scheme \<Rightarrow> fault + bool \<times> 'a shell_scheme" where
  "bt_disallow_discover_impl w = Inr (True, w)"

text \<open>The four helpers of the Wi-Fi device return the process identifier as a \<open>bool\<close>.\<close>

definition ifup :: "'a shell_scheme \<Rightarrow> fault + bool \<times> 'a shell_scheme" where
  "ifup w = and_then (run_silent [''ifup'', ''wlan0''] True w) (\<lambda>(res, w1). Inr (res \<noteq> 0, w1))"

definition ifdown :: "'a shell_scheme \<Rightarrow> fault + bool \<times> 'a shell_scheme" where
  "ifdown w = and_then (run_silent [''ifdown'', ''wlan0''] True w) (\<lambda>(res, w1). Inr (res \<noteq> 0, w1))"

definition ifconfig_up :: "'a shell_scheme \<Rightarrow> fault + bool \<times> 'a shell_scheme" where
  "ifconfig_up w = and_then (run_silent [''ifconfig'', ''wlan0'', ''up''] True w) (\<lambda>(res, w1). Inr (res \<noteq> 0, w1))"

definition ifconfig_down :: "'a shell_scheme \<Rightarrow> fault + bool \<times> 'a shell_scheme" where
  "ifconfig_down w = and_then (run_silent [''ifconfig'', ''wlan0'', ''down''] True w) (\<lambda>(res, w1). Inr (res \<noteq> 0, w1))"

text \<open>A shell started by \<open>system\<close> is one more process; its result is ignored.\<close>

definition system_call :: "string \<Rightarrow> 'a shell_scheme \<Rightarrow> 'a shell_scheme" where
  "system_call cmd w = w\<lparr>ran := ran w @ [[''sh'', ''-c'', cmd]]\<rparr>"

definition initialize :: "'a shell_scheme \<Rightarrow> fault + 'a shell_scheme" where
  "initialize w =
     and_then (block_device ''hci0'' w) (\<lambda>(_, w1).
     and_then (unblock_device ''hci0'' (system_call ''/bin/hciconfig hci0 down'' w1)) (\<lambda>(_, w2).
     Inr (system_call ''killall udhcpd -q'' (system_call ''/bin/hciconfig hci0 up piscan'' w2))))"

definition ping_wpa_cli :: "nat \<Rightarrow> 'a shell_scheme \<Rightarrow> fault + (int \<times> string) \<times> 'a shell_scheme" where
  "ping_wpa_cli len w = run_captured len [''wpa_cli'', ''-i'', ''wlan0'', ''ping''] w"

text \<open>The last token with \<open>p2p-wlan\<close> counts; \<open>None\<close> leaves the caller's string as it is.\<close>

fun interface_name_of :: "string \<Rightarrow> string list \<Rightarrow> string option" where
  "interface_name_of name [] = Some name"
| "interface_name_of name (ptr # ptrs) =
     (if strstr ptr ''p2p-wlan'' then interface_name_of (snprintf 100 ptr) ptrs
      else if strstr ptr ''FAIL'' then None
      else interface_name_of name ptrs)"

definition retrieve_wpa_interface_name :: "'a shell_scheme \<Rightarrow> fault + string option \<times> 'a shell_scheme" where
  "retrieve_wpa_interface_name w =
     and_then (ping_wpa_cli 1024 w) (\<lambda>((ret, buf), w1).
     if ret < 0 then Inr (None, w1)
     else and_then (cstring buf) (\<lambda>s. Inr (interface_name_of ''wlan0'' (strtok blanks s), w1)))"

section \<open>The watched DHCP server\<close>

lemma fold_strncat:
  assumes "length dst + length (concat ls) + 1 \<le> room" "\<forall>l\<in>set ls. length l \<le> n"
  shows "fold_ok (\<lambda>l s. strncat room s l n) ls dst = Inr (dst @ concat ls)"
  using assms by (induction ls arbitrary: dst) (simp_all add: strncat_def)

text \<open>The configuration fits its array whatever the name of the interface, because each line is cut.\<close>

lemma dhcpd_script_fits: "dhcpd_script name = Inr (concat (map (snprintf 128) (dhcpd_lines name)))"
proof -
  define ls where "ls = map (snprintf 128) (dhcpd_lines name)"
  have "length (snprintf 128 (''interface '' @ name @ [nl])) \<le> 127" by (simp add: snprintf_def)
  then have "length (concat ls) + 1 \<le> 512" by (simp add: ls_def dhcpd_lines_def) (simp add: snprintf_def)
  moreover have "ls = hd ls # tl ls" by (simp add: ls_def dhcpd_lines_def)
  moreover have "\<forall>l\<in>set ls. length l \<le> 512" by (auto simp: ls_def snprintf_def)
  ultimately have "fold_ok (\<lambda>l s. strncat 512 s l 512) (tl ls) (hd ls) = Inr (hd ls @ concat (tl ls))"
    by (intro fold_strncat) (metis append.assoc concat.simps(2) length_append, metis list.set_sel(2) tl_Nil)
  moreover have "hd ls @ concat (tl ls) = concat ls" using \<open>ls = hd ls # tl ls\<close> by (metis concat.simps(2))
  ultimately show ?thesis by (simp add: dhcpd_script_def SCRIPT_SIZE_def LINEBUF_SIZE_def ls_def)
qed

definition forks :: "child \<Rightarrow> bool" where
  "forks c \<longleftrightarrow> fork_errno c = 0 \<and> 0 < child_pid c"

lemma launch_dhcpd_forks:
  assumes "mP2PName w \<noteq> []" "children w = c # cs" "forks c"
  shows "launch_dhcpd w = Inr (child_pid c, w\<lparr>sDhcpdEnabled := True, sDhcpdMonitoring := True,
      handler_installed := handler_installed w \<or> \<not> sDhcpdMonitoring w,
      config_file := Some (concat (map (snprintf 128) (dhcpd_lines (mP2PName w))) @ [NUL]),
      children := cs, ran := ran w @ [[''udhcpd'', ''dhcpd.conf'', ''-f'']], alive := insert (child_pid c) (alive w)\<rparr>)"
  using assms by (simp add: launch_dhcpd_def Let_def dhcpd_script_fits run_silent_def next_child_def forks_def)

text \<open>The group is up: exactly the remembered DHCP server runs, and its end would be noticed.\<close>

definition supervised :: "'a wfd_server_scheme \<Rightarrow> bool" where
  "supervised w \<longleftrightarrow> sDhcpdEnabled w \<and> sDhcpdCaller w \<and> handler_installed w \<and> mP2PName w \<noteq> []
     \<and> sDhcpdPid w \<noteq> 0 \<and> alive w = {sDhcpdPid w}"

lemma end_keeps_supervised:
  assumes "supervised w" "children w = c # cs" "forks c"
  shows "\<exists>w'. process_ends pid w = Inr w' \<and> supervised w' \<and> children w' \<in> {c # cs, cs}"
proof (cases "pid = sDhcpdPid w")
  case True
  define w1 where "w1 = w\<lparr>alive := {}, sDhcpdPid := 0\<rparr>"
  have "mP2PName w1 \<noteq> []" "children w1 = c # cs" using assms(1,2) by (simp_all add: w1_def supervised_def)
  from launch_dhcpd_forks [OF this assms(3)] show ?thesis
    using assms(1,3) True by (simp add: process_ends_def sighandler_monitor_udhcpd_def Let_def supervised_def forks_def w1_def)
next
  case False
  then have "process_ends pid w = Inr w"
    using assms(1) by (simp add: process_ends_def sighandler_monitor_udhcpd_def Let_def supervised_def)
  with assms(1,2) show ?thesis by simp
qed

lemma ends_keep_supervised:
  assumes "supervised w" "\<forall>c\<in>set (children w). forks c" "length pids \<le> length (children w)"
  shows "\<exists>w'. fold_ok process_ends pids w = Inr w' \<and> supervised w'"
  using assms
proof (induction pids arbitrary: w)
  case (Cons pid pids)
  then obtain c cs where cs: "children w = c # cs" by (cases "children w") auto
  with Cons.prems obtain w1 where w1: "process_ends pid w = Inr w1" "supervised w1" "children w1 \<in> {c # cs, cs}"
    using end_keeps_supervised [OF Cons.prems(1) cs] by auto
  have "\<exists>w'. fold_ok process_ends pids w1 = Inr w' \<and> supervised w'"
    using w1(2,3) Cons.prems(2,3) cs by (intro Cons.IH) auto
  with w1(1) show ?case by simp
qed simp

lemma killed_stays_dead:
  assumes "supervised w"
  shows "\<exists>w'. process_ends (sDhcpdPid w) (kill_dhcpd w) = Inr w' \<and> alive w' = {} \<and> sDhcpdPid w' = 0
    \<and> config_file w' = None \<and> children w' = children w \<and> ran w' = ran w \<and> killed w' = killed w @ [sDhcpdPid w]"
  using assms by (simp add: kill_dhcpd_def process_ends_def sighandler_monitor_udhcpd_def Let_def supervised_def)

text \<open>
  C24: the DHCP server is watched. While the group is up and processes can be started, however often the server or other
  processes end, one DHCP server runs and the program knows it; after it was killed it stays down.
\<close>

theorem dhcpd_supervised:
  assumes "supervised w" "\<forall>c\<in>set (children w). forks c" "length pids \<le> length (children w)"
  shows "\<exists>w1 w2. fold_ok process_ends pids w = Inr w1 \<and> supervised w1
    \<and> process_ends (sDhcpdPid w1) (kill_dhcpd w1) = Inr w2 \<and> alive w2 = {} \<and> sDhcpdPid w2 = 0 \<and> ran w2 = ran w1"
  using ends_keep_supervised [OF assms] killed_stays_dead by blast

definition example_child :: "int \<Rightarrow> string \<Rightarrow> child" where
  "example_child pid out = \<lparr>pipe_errno = 0, fork_errno = 0, child_pid = pid, reads = [Inr out], stale = []\<rparr>"

definition example_server :: "child list \<Rightarrow> wfd_server" where
  "example_server cs = \<lparr>children = cs, ran = [], alive = {}, mDeviceName = ''SelCon'', mP2PName = [],
     sDhcpdMonitoring = False, sDhcpdPid = 0, sDhcpdCaller = False, sDhcpdEnabled = False, handler_installed = False,
     config_file = None, killed = [], private_data = [], told_addresses = []\<rparr>"

definition example_up :: wfd_server where
  "example_up = (example_server [example_child 102 [], example_child 103 []])\<lparr>alive := {101}, mP2PName := ''wlan0'',
     sDhcpdMonitoring := True, sDhcpdPid := 101, sDhcpdCaller := True, sDhcpdEnabled := True, handler_installed := True\<rparr>"

theorem dhcpd_supervised_witness:
  "\<exists>w1 w2. fold_ok process_ends [101, 102] example_up = Inr w1 \<and> supervised w1
    \<and> process_ends (sDhcpdPid w1) (kill_dhcpd w1) = Inr w2 \<and> alive w2 = {} \<and> sDhcpdPid w2 = 0 \<and> ran w2 = ran w1"
  by (rule dhcpd_supervised)
     (simp_all add: example_up_def example_server_def example_child_def supervised_def forks_def)

text \<open>When \<open>fork\<close> fails, the error number is taken for the process, and killing the server kills whoever has that number.\<close>

lemma fork_failure_kills_stranger:
  assumes "mP2PName w \<noteq> []" "children w = c # cs" "fork_errno c \<noteq> 0"
  shows "\<exists>w1. launch_dhcpd w = Inr (fork_errno c, w1)
    \<and> killed (kill_dhcpd (w1\<lparr>sDhcpdPid := fork_errno c\<rparr>)) = killed w @ [fork_errno c]"
  using assms by (simp add: launch_dhcpd_def kill_dhcpd_def Let_def dhcpd_script_fits run_silent_def next_child_def)

text \<open>
  Opening the group a second time after an attempt that failed behind the start of the DHCP server leaves the first server running:
  only the second is known.
\<close>

lemma relaunch_forgets_first:
  assumes "mP2PName w \<noteq> []" "children w = c # cs" "forks c" "sDhcpdPid w \<in> alive w" "child_pid c \<noteq> sDhcpdPid w"
  shows "\<exists>w1. launch_dhcpd w = Inr (child_pid c, w1)
    \<and> sDhcpdPid w \<in> alive w1 \<and> sDhcpdPid w \<noteq> sDhcpdPid (w1\<lparr>sDhcpdPid := child_pid c\<rparr>)"
  using assms launch_dhcpd_forks [OF assms(1-3)] by simp

section \<open>The announcement\<close>

definition address_field :: "(string \<times> string) list \<Rightarrow> string" where
  "address_field fs =
     (case find (\<lambda>f. strstr (line_of f) ''ip_address'' \<or> strstr (line_of f) ''p2p_device_address'') fs of
        None \<Rightarrow> [] | Some f \<Rightarrow> snd f)"

definition wfd_info :: "string list \<Rightarrow> string" where
  "wfd_info parts = hd parts @ concat (map (\<lambda>s. nl # s) (tl parts))"

lemma run_captured_returns:
  assumes "children w = c # cs" "pipe_errno c = 0" "fork_errno c = 0" "reads c = Inr out # rs"
  shows "\<exists>buf. run_captured n params w = Inr ((child_pid c, buf), w\<lparr>children := cs, ran := ran w @ [params]\<rparr>)"
  using assms by (simp add: run_captured_def next_child_def Let_def eval_nat_numeral)

lemma says_ok_prints:
  assumes "prints out c" "children w = c # cs" "strstr out ''OK''"
  shows "says_ok params w = Inr (True, w\<lparr>children := cs, ran := ran w @ [params]\<rparr>)"
  using run_captured_prints [OF assms(1,2), of params] assms(1,3) by (auto simp: says_ok_def prints_def cstring_prefix)

lemma passphrase_prints:
  assumes "prints out c" "children w = c # cs" "8 \<le> length out" "p2p_name \<noteq> []"
  shows "p2p_get_passphrase p2p_name w
    = Inr (take 8 out, w\<lparr>children := cs, ran := ran w @ [[''wpa_cli'', ''-i'', p2p_name, ''p2p_get_passphrase'']]\<rparr>)"
proof -
  have r: "(out @ NUL # t)[8 := NUL] = take 8 out @ NUL # drop 9 (out @ NUL # t)" for t
    using assms(3) by (subst upd_conv_take_nth_drop) (simp_all del: drop_append)
  have n: "NUL \<notin> set (take 8 out)" using assms(1) by (auto simp: prints_def dest: in_set_takeD)
  obtain t where "run_captured 512 [''wpa_cli'', ''-i'', p2p_name, ''p2p_get_passphrase''] w
    = Inr ((child_pid c, out @ NUL # t), w\<lparr>children := cs, ran := ran w @ [[''wpa_cli'', ''-i'', p2p_name, ''p2p_get_passphrase'']]\<rparr>)"
    using run_captured_prints [OF assms(1,2)] by blast
  then show ?thesis
    using assms(1,4) cstring_prefix [OF n]
    by (simp add: p2p_get_passphrase_def PASSPHRASE_LENGTH_def prints_def r del: list_update_append)
qed

lemma append_lines:
  assumes "length i + length s + 2 \<le> 1024"
  shows "append_line i s = Inr (i @ nl # s)"
  using assms by (simp add: append_line_def strncat_def)

text \<open>One run of the announcement, with the processes it starts: status, passphrase, PIN and status again.\<close>

lemma announce_sends:
  assumes cs: "children w = c1 # c2 # c3 # c4 # cs" and name: "p2p_name \<noteq> []" and up: "supervised w"
    and c1: "prints (lines_text (map line_of fs)) c1" "\<forall>f\<in>set fs. nl \<notin> set (line_of f)"
      "fs = a @ (''p2p_device_address'', mac) # b" "\<forall>f\<in>set a. find_str ''p2p_device_address='' (line_of f) = None"
      "fs = f0 # s1 @ (''ssid'', sid) # s2" "\<forall>f\<in>set s1. fst f \<noteq> ''ssid'' \<and> CHR ''='' \<notin> set (fst f)"
    and c2: "prints pass c2" "8 \<le> length pass" and c3: "forks c3"
    and c4: "prints (lines_text (map line_of fs')) c4" "\<forall>f\<in>set fs'. field_ok f" "address_field fs' \<noteq> []"
    and len: "length mac + length sid + length (address_field fs') \<le> 1000"
  shows "\<exists>w'. announce [] p2p_name w = Inr (True, w') \<and> supervised w' \<and> children w' = cs
    \<and> private_data w' = private_data w @ [wfd_info [mac, sid, take 8 pass, wfd_default_pin, address_field fs']]
    \<and> told_addresses w' = told_addresses w @ [address_field fs']"
proof -
  define st where "st = [''wpa_cli'', ''-i'', p2p_name, ''status'']"
  define w1 where "w1 = w\<lparr>children := c2 # c3 # c4 # cs, ran := ran w @ [st]\<rparr>"
  have i: "get_p2p_info p2p_name [] [] w = Inr ((True, mac, sid), w1)"
    using get_p2p_info_fields [OF c1(1) cs name c1(2-6)] by (simp add: w1_def st_def)
  define w2 where "w2 = w1\<lparr>children := c3 # c4 # cs, ran := ran w1 @ [[''wpa_cli'', ''-i'', p2p_name, ''p2p_get_passphrase'']]\<rparr>"
  have p: "p2p_get_passphrase p2p_name w1 = Inr (take 8 pass, w2)"
    using passphrase_prints [OF c2(1) _ c2(2) name, of w1] by (simp add: w1_def w2_def)
  define w3 where "w3 = w2\<lparr>children := c4 # cs, ran := ran w2 @ [[''wpa_cli'', ''-i'', p2p_name, ''wps_pin'', ''any'', wfd_default_pin]]\<rparr>"
  have s: "set_wps_pin p2p_name wfd_default_pin w2 = Inr (True, w3)"
    using c3 by (simp add: set_wps_pin_def run_silent_def next_child_def w2_def w3_def forks_def Let_def)
  have "fs' \<noteq> []" using c4(3) by (auto simp: address_field_def)
  then have g: "get_ip_address p2p_name w3 = Inr (address_field fs', w3\<lparr>children := cs, ran := ran w3 @ [st]\<rparr>)"
    using get_ip_address_fields [OF c4(1) _ name c4(2), of w3] by (simp add: w3_def st_def address_field_def)
  have pid: "sDhcpdPid w3 \<noteq> 0" using up by (simp add: w3_def w2_def w1_def supervised_def)
  have wait: "wait_ip_address 30 p2p_name w3 = Inr (address_field fs', w3\<lparr>children := cs, ran := ran w3 @ [st]\<rparr>)"
    using c4(3) g by (simp add: eval_nat_numeral)
  define i1 where "i1 = mac @ nl # sid"
  define i2 where "i2 = i1 @ nl # take 8 pass"
  define i3 where "i3 = i2 @ nl # wfd_default_pin"
  have m: "snprintf 1024 mac = mac" using len by (simp add: snprintf_def)
  have n: "length i1 = length mac + length sid + 1" "length i2 \<le> length mac + length sid + 10"
    "length i3 \<le> length mac + length sid + 19"
    by (simp_all add: i1_def i2_def i3_def wfd_default_pin_def)
  have l: "append_line mac sid = Inr i1" "append_line i1 (take 8 pass) = Inr i2" "append_line i2 wfd_default_pin = Inr i3"
    "append_line i3 (address_field fs') = Inr (i3 @ nl # address_field fs')"
    using n len append_lines [of mac sid] append_lines [of i1 "take 8 pass"] append_lines [of i2 wfd_default_pin]
      append_lines [of i3 "address_field fs'"]
    by (simp_all add: wfd_default_pin_def i1_def [symmetric] i2_def [symmetric] i3_def [symmetric])
       (simp add: i3_def wfd_default_pin_def)
  define info where "info = wfd_info [mac, sid, take 8 pass, wfd_default_pin, address_field fs']"
  have "append_line i3 (address_field fs') = Inr info"
    unfolding l(4) by (simp add: info_def i1_def i2_def i3_def wfd_info_def)
  with l(1-3) have "announce [] p2p_name w = Inr (True, w3\<lparr>children := cs, ran := ran w3 @ [st],
      private_data := private_data w3 @ [info], told_addresses := told_addresses w3 @ [address_field fs']\<rparr>)"
    using pid c4(3) by (simp add: announce_def i p s wait m)
  then show ?thesis using up by (simp add: info_def w3_def w2_def w1_def supervised_def)
qed

text \<open>The first half, up to the start of the DHCP server.\<close>

lemma allow_reaches_announce:
  assumes cs: "children w = d1 # d2 # d3 # d4 # d5 # cs" "mDeviceName w \<noteq> []"
    and d: "prints out1 d1" "prints out2 d2" "strstr out2 ''OK''" "prints pong d3" "pong \<noteq> []"
      "p2p_name_of ''wlan0'' (strtok blanks pong) = Some p2p_name" "p2p_name \<noteq> []" "prints out4 d4" "forks d5"
    and start: "alive w = {}" "sDhcpdMonitoring w \<longrightarrow> handler_installed w"
  shows "\<exists>w1. wfd_allow_discover_impl ended w = announce ended p2p_name w1 \<and> children w1 = cs \<and> supervised w1
    \<and> mP2PName w1 = p2p_name \<and> private_data w1 = private_data w \<and> told_addresses w1 = told_addresses w"
proof -
  define cmd where "cmd k = [[''wpa_cli'', ''-i'', ''wlan0'', ''set'', ''device_name'', mDeviceName w],
    [''wpa_cli'', ''-i'', ''wlan0'', ''p2p_group_add''], [''wpa_cli'', ''ping''], [''ifconfig'', p2p_name, ''192.168.49.1'']] ! k" for k :: nat
  define w1 where "w1 = w\<lparr>children := d2 # d3 # d4 # d5 # cs, ran := ran w @ [cmd 0]\<rparr>"
  have 1: "set_device_name ''wlan0'' (mDeviceName w) w = Inr (True, w1)"
    using run_captured_prints [OF d(1) cs(1), of "cmd 0"] cs(2) d(1)
    by (auto simp: set_device_name_def w1_def cmd_def prints_def)
  define w2 where "w2 = w1\<lparr>children := d3 # d4 # d5 # cs, ran := ran w1 @ [cmd 1]\<rparr>"
  have 2: "p2p_group_add ''wlan0'' w1 = Inr (True, w2)"
    using says_ok_prints [OF d(2) _ d(3), of w1] by (simp add: p2p_group_add_def w1_def w2_def cmd_def)
  define w3 where "w3 = w2\<lparr>children := d4 # d5 # cs, ran := ran w2 @ [cmd 2]\<rparr>"
  have 3: "get_p2p_name ''wlan0'' w2 = Inr (Some p2p_name, w3)"
    using captured_text_prints [OF d(4), of w2] d(5,6) by (simp add: get_p2p_name_def ping_def w2_def w3_def cmd_def)
  define w4 where "w4 = w3\<lparr>children := d5 # cs, ran := ran w3 @ [cmd 3], mP2PName := p2p_name\<rparr>"
  obtain rs where "reads d4 = Inr out4 # rs" using d(8) by (cases "reads d4") (auto simp: prints_def)
  then have 4: "set_wfd_ip_addr ''192.168.49.1'' (w3\<lparr>mP2PName := p2p_name\<rparr>) = Inr (child_pid d4, w4)"
    using run_captured_returns [of "w3\<lparr>mP2PName := p2p_name\<rparr>" d4 "d5 # cs" out4 rs 256 "cmd 3"] d(7,8)
    by (auto simp: set_wfd_ip_addr_def prints_def w3_def w4_def cmd_def)
  define w5 where "w5 = w4\<lparr>sDhcpdCaller := True\<rparr>"
  have "mP2PName w5 \<noteq> []" "children w5 = d5 # cs" using d(7) by (simp_all add: w5_def w4_def)
  from launch_dhcpd_forks [OF this d(9)] obtain w6 where w6: "launch_dhcpd w5 = Inr (child_pid d5, w6)"
      "children w6 = cs" "supervised (w6\<lparr>sDhcpdPid := child_pid d5\<rparr>)" "mP2PName w6 = p2p_name"
      "private_data w6 = private_data w" "told_addresses w6 = told_addresses w"
    using start d(7,9) by (auto simp: w5_def w4_def w3_def w2_def w1_def supervised_def forks_def)
  have "wfd_allow_discover_impl ended w = announce ended p2p_name (w6\<lparr>sDhcpdPid := child_pid d5\<rparr>)"
    using w6(1) by (simp add: wfd_allow_discover_impl_def 1 2 3 4 w5_def)
  with w6 show ?thesis by auto
qed

text \<open>
  C25: the group is announced. When the commands print what they are meant to, opening the Wi-Fi Direct server sends the peer the device address, the SSID,
  the passphrase, the PIN and an address, each on its line, tells that address to the listeners, and leaves a watched DHCP server.
  The address is the value of the first status field that is an \<open>ip_address\<close> or a \<open>p2p_device_address\<close>.
\<close>

theorem allow_discover_announces:
  assumes "children w = d1 # d2 # d3 # d4 # d5 # c1 # c2 # c3 # c4 # cs" "mDeviceName w \<noteq> []"
    and "prints out1 d1" "prints out2 d2" "strstr out2 ''OK''" "prints pong d3" "pong \<noteq> []"
      "p2p_name_of ''wlan0'' (strtok blanks pong) = Some p2p_name" "p2p_name \<noteq> []" "prints out4 d4" "forks d5"
    and "alive w = {}" "sDhcpdMonitoring w \<longrightarrow> handler_installed w"
    and "prints (lines_text (map line_of fs)) c1" "\<forall>f\<in>set fs. nl \<notin> set (line_of f)"
      "fs = a @ (''p2p_device_address'', mac) # b" "\<forall>f\<in>set a. find_str ''p2p_device_address='' (line_of f) = None"
      "fs = f0 # s1 @ (''ssid'', sid) # s2" "\<forall>f\<in>set s1. fst f \<noteq> ''ssid'' \<and> CHR ''='' \<notin> set (fst f)"
    and "prints pass c2" "8 \<le> length pass" "forks c3"
    and "prints (lines_text (map line_of fs')) c4" "\<forall>f\<in>set fs'. field_ok f" "address_field fs' \<noteq> []"
    and "length mac + length sid + length (address_field fs') \<le> 1000"
  shows "\<exists>w'. wfd_allow_discover_impl [] w = Inr (True, w') \<and> supervised w' \<and> children w' = cs
    \<and> private_data w' = private_data w @ [wfd_info [mac, sid, take 8 pass, wfd_default_pin, address_field fs']]
    \<and> told_addresses w' = told_addresses w @ [address_field fs']"
proof -
  obtain w1 where w1: "wfd_allow_discover_impl [] w = announce [] p2p_name w1" "children w1 = c1 # c2 # c3 # c4 # cs"
      "supervised w1" "private_data w1 = private_data w" "told_addresses w1 = told_addresses w"
    using allow_reaches_announce [OF assms(1-13)] by blast
  show ?thesis
    unfolding w1(1) using announce_sends [OF w1(2) assms(9) w1(3) assms(14-26)] w1(4,5) by simp
qed

definition example_status :: "(string \<times> string) list" where
  "example_status = [(''bssid'', ''02:1a''), (''freq'', ''2412''), (''ssid'', ''DIRECT''), (''p2p_device_address'', ''02:1b'')]"

definition example_commands :: "child list" where
  "example_commands = [example_child 11 ''OK'', example_child 12 ''OK'', example_child 13 ''PONG'', example_child 14 [], example_child 15 [],
     example_child 16 (lines_text (map line_of example_status)), example_child 17 ''abcdefgh'', example_child 18 [],
     example_child 19 (lines_text (map line_of example_status))]"

lemma prints_example:
  "0 < pid \<Longrightarrow> length out < 512 \<Longrightarrow> NUL \<notin> set out \<Longrightarrow> prints out (example_child pid out)"
  by (simp add: prints_def example_child_def stack_buffer_def)

lemma example_status_facts:
  "\<forall>f\<in>set example_status. field_ok f" "\<forall>f\<in>set example_status. nl \<notin> set (line_of f)"
  "address_field example_status = ''02:1b''"
  "length (lines_text (map line_of example_status)) < 512" "NUL \<notin> set (lines_text (map line_of example_status))"
  "\<forall>f\<in>set (take 3 example_status). find_str ''p2p_device_address='' (line_of f) = None"
  "p2p_name_of ''wlan0'' (strtok blanks ''PONG'') = Some ''wlan0''" "strstr ''OK'' ''OK''"
  by code_simp+

text \<open>The status of the example has no \<open>ip_address\<close> yet: the hardware address is announced as the address.\<close>

theorem allow_discover_announces_witness:
  "\<exists>w'. wfd_allow_discover_impl [] (example_server example_commands) = Inr (True, w') \<and> supervised w' \<and> children w' = []
    \<and> private_data w' = [''02:1b'' @ nl # ''DIRECT'' @ nl # ''abcdefgh'' @ nl # ''12345670'' @ nl # ''02:1b'']
    \<and> told_addresses w' = [''02:1b'']"
proof -
  note st = prints_example [OF _ example_status_facts(4,5)]
  have s: "example_status = take 3 example_status @ (''p2p_device_address'', ''02:1b'') # []"
    "example_status = (''bssid'', ''02:1a'') # [(''freq'', ''2412'')] @ (''ssid'', ''DIRECT'') # [(''p2p_device_address'', ''02:1b'')]"
    by (simp_all add: example_status_def)
  have "\<exists>w'. wfd_allow_discover_impl [] (example_server example_commands) = Inr (True, w') \<and> supervised w' \<and> children w' = []
    \<and> private_data w' = private_data (example_server example_commands)
        @ [wfd_info [''02:1b'', ''DIRECT'', take 8 ''abcdefgh'', wfd_default_pin, address_field example_status]]
    \<and> told_addresses w' = told_addresses (example_server example_commands) @ [address_field example_status]"
  proof (rule allow_discover_announces)
    show "children (example_server example_commands) = [example_child 11 ''OK'', example_child 12 ''OK'', example_child 13 ''PONG'',
      example_child 14 [], example_child 15 [], example_child 16 (lines_text (map line_of example_status)),
      example_child 17 ''abcdefgh'', example_child 18 [], example_child 19 (lines_text (map line_of example_status))]"
      by (simp add: example_server_def example_commands_def)
    show "prints (lines_text (map line_of example_status)) (example_child 16 (lines_text (map line_of example_status)))"
      "prints (lines_text (map line_of example_status)) (example_child 19 (lines_text (map line_of example_status)))"
      by (rule st, simp)+
  qed (rule prints_example example_status_facts s | simp add: example_server_def forks_def example_child_def example_status_facts(3))+
  then show ?thesis by (simp add: example_server_def wfd_info_def wfd_default_pin_def example_status_facts(3))
qed

end
