(* ===== verification/Workload.thy ===== *)
theory Workload
  imports CsvReader
begin

text \<open>
  The experiments' driver (linux/exp/TraceRunner.cpp): it reads a packet trace and an event trace, merges them by
  time, and sends the packets and events. What it does is a list of effects. The contents of the
  files and whether the send queue drains while an event waits for it are arguments.
\<close>

section \<open>The traces\<close>

definition column_value :: "string option \<Rightarrow> string" where
  "column_value c = (case c of None \<Rightarrow> [] | Some s \<Rightarrow> s)"

text \<open>A row that is read replaces the values; at the end of the file they stay.\<close>

definition packet_of_row :: "string option list \<Rightarrow> fault + i32 \<times> i32" where
  "packet_of_row cols =
     and_then (stoi (column_value (cols ! 0))) (\<lambda>ts_us.
     and_then (stoi (column_value (cols ! 1))) (\<lambda>payload_length. Inr (ts_us, payload_length)))"

definition packet_read_a_row :: "nat \<Rightarrow> csv_reader \<Rightarrow> fault + (i32 \<times> i32) option \<times> csv_reader" where
  "packet_read_a_row bl r =
     and_then (read_row bl r) (\<lambda>(row, r1). case row of None \<Rightarrow> Inr (None, r1)
       | Some cols \<Rightarrow> and_then (packet_of_row cols) (\<lambda>p. Inr (Some p, r1)))"

definition event_of_row :: "string option list \<Rightarrow> fault + i32 \<times> string" where
  "event_of_row cols = and_then (stoi (column_value (cols ! 0))) (\<lambda>ts_us. Inr (ts_us, column_value (cols ! 1)))"

definition event_read_a_row :: "nat \<Rightarrow> csv_reader \<Rightarrow> fault + (i32 \<times> string) option \<times> csv_reader" where
  "event_read_a_row bl r =
     and_then (read_row bl r) (\<lambda>(row, r1). case row of None \<Rightarrow> Inr (None, r1)
       | Some cols \<Rightarrow> and_then (event_of_row cols) (\<lambda>e. Inr (Some e, r1)))"

definition open_packet_trace :: "nat \<Rightarrow> string \<Rightarrow> string option \<Rightarrow> fault + csv_reader" where
  "open_packet_trace bl fresh file =
     and_then (csv_ctor 2 bl fresh file) (read_header bl True False [''TimeUS'', ''Length''])"

definition open_event_trace :: "nat \<Rightarrow> string \<Rightarrow> string option \<Rightarrow> fault + csv_reader" where
  "open_event_trace bl fresh file =
     and_then (csv_ctor 2 bl fresh file) (read_header bl True False [''TimeUS'', ''Event''])"

section \<open>The loop\<close>

datatype effect =
    Slept i32
  | Sent "u8 list"
  | Alive_thread_started
  | Queue_awaited
  | Custom_event string
  | Sleep_error i32
  | Allocation_failed

datatype action = ACTION_EXIT | ACTION_SEND_PACKET | ACTION_CUSTOM_EVENT

record workload =
  packet_reader :: csv_reader
  event_reader :: csv_reader
  next_packet_ts_us :: i32
  next_packet_payload_length :: i32
  packet_ready :: bool
  next_event_ts_us :: i32
  next_event_description :: string
  event_ready :: bool
  mRecentTSUs :: i32
  mIsFirstPacketSent :: bool
  effects :: "effect list"

definition effect :: "effect \<Rightarrow> workload \<Rightarrow> workload" where
  "effect e w = w\<lparr>effects := effects w @ [e]\<rparr>"

definition next_packet :: "nat \<Rightarrow> workload \<Rightarrow> fault + workload" where
  "next_packet bl w =
     (if packet_ready w then Inr w
      else and_then (packet_read_a_row bl (packet_reader w)) (\<lambda>(row, r). let w1 = w\<lparr>packet_reader := r\<rparr> in
        case row of None \<Rightarrow> Inr w1
        | Some (ts_us, payload_length) \<Rightarrow>
            Inr (w1\<lparr>next_packet_ts_us := ts_us, next_packet_payload_length := payload_length, packet_ready := True\<rparr>)))"

definition next_event :: "nat \<Rightarrow> workload \<Rightarrow> fault + workload" where
  "next_event bl w =
     (if event_ready w then Inr w
      else and_then (event_read_a_row bl (event_reader w)) (\<lambda>(row, r). let w1 = w\<lparr>event_reader := r\<rparr> in
        case row of None \<Rightarrow> Inr w1
        | Some (ts_us, description) \<Rightarrow>
            Inr (w1\<lparr>next_event_ts_us := ts_us, next_event_description := description, event_ready := True\<rparr>)))"

definition decide_action :: "workload \<Rightarrow> action \<times> i32 \<times> workload" where
  "decide_action w =
     (if packet_ready w \<and> event_ready w then
        if sint (next_packet_ts_us w) < sint (next_event_ts_us w)
        then (ACTION_SEND_PACKET, next_packet_ts_us w, w\<lparr>packet_ready := False\<rparr>)
        else (ACTION_CUSTOM_EVENT, next_event_ts_us w, w\<lparr>event_ready := False\<rparr>)
      else if packet_ready w then (ACTION_SEND_PACKET, next_packet_ts_us w, w\<lparr>packet_ready := False\<rparr>)
      else if event_ready w then (ACTION_CUSTOM_EVENT, next_event_ts_us w, w\<lparr>event_ready := False\<rparr>)
      else (ACTION_EXIT, 0, w))"

definition sleep_workload :: "i32 \<Rightarrow> workload \<Rightarrow> i32 \<times> workload" where
  "sleep_workload next_ts_us w =
     (let sleep_us = next_ts_us - mRecentTSUs w
      in if sint sleep_us < 0 then (- 1, effect (Sleep_error sleep_us) w)
         else (0, (effect (Slept sleep_us) w)\<lparr>mRecentTSUs := next_ts_us\<rparr>))"

text \<open>\<open>memset\<close> with the length \<open>len - 1\<close>, which for 0 is the largest there is.\<close>

definition generate_simple_string :: "nat \<Rightarrow> fault + u8 list" where
  "generate_simple_string len = (if len = 0 then Inl Out_of_bounds else Inr (replicate (len - 1) 97 @ [0]))"

text \<open>The result tells whether the loop goes on. A negative length becomes a \<open>size_t\<close> that no allocation satisfies.\<close>

definition send_action :: "workload \<Rightarrow> fault + bool \<times> workload" where
  "send_action w =
     (let len = sint (next_packet_payload_length w)
      in if len < 0 then Inr (False, effect Allocation_failed w)
         else and_then (generate_simple_string (nat len)) (\<lambda>data_buffer.
           let w1 = effect (Sent data_buffer) w
           in Inr (True, if mIsFirstPacketSent w1 then w1
                else effect Alive_thread_started (w1\<lparr>mIsFirstPacketSent := True\<rparr>))))"

definition event_action :: "bool \<Rightarrow> bool \<Rightarrow> workload \<Rightarrow> fault + bool \<times> workload" where
  "event_action is_wait_packets_of_prev_event drains w =
     and_then (require (is_wait_packets_of_prev_event \<longrightarrow> drains) Would_block) (\<lambda>_.
     Inr (True, effect (Custom_event (next_event_description w))
       (if is_wait_packets_of_prev_event then effect Queue_awaited w else w)))"

definition workload_act :: "bool \<Rightarrow> bool \<Rightarrow> workload \<Rightarrow> fault + bool \<times> workload" where
  "workload_act is_wait drains w =
     (case decide_action w of (next_action, next_ts_us, w1) \<Rightarrow>
      case sleep_workload next_ts_us w1 of (res, w2) \<Rightarrow>
      if sint res < 0 then Inr (False, w2)
      else case next_action of
          ACTION_SEND_PACKET \<Rightarrow> send_action w2
        | ACTION_CUSTOM_EVENT \<Rightarrow> event_action is_wait drains w2
        | ACTION_EXIT \<Rightarrow> Inr (False, w2))"

definition workload_step :: "nat \<Rightarrow> bool \<Rightarrow> bool \<Rightarrow> workload \<Rightarrow> fault + bool \<times> workload" where
  "workload_step bl is_wait drains w =
     and_then (next_packet bl w) (\<lambda>w1. and_then (next_event bl w1) (workload_act is_wait drains))"

text \<open>\<open>None\<close> would be a loop that does not end.\<close>

partial_function (option) workload_loop :: "nat \<Rightarrow> bool \<Rightarrow> bool \<Rightarrow> workload \<Rightarrow> (fault + workload) option" where
  "workload_loop bl is_wait drains w =
     (case workload_step bl is_wait drains w of Inl e \<Rightarrow> Some (Inl e)
      | Inr (go_on, w1) \<Rightarrow> if go_on then workload_loop bl is_wait drains w1 else Some (Inr w1))"

text \<open>\<open>recent\<close> and \<open>first_sent\<close> are the members of the object; 0 and false when it is new.\<close>

definition send_workload ::
    "nat \<Rightarrow> string \<Rightarrow> string option \<Rightarrow> string option \<Rightarrow> bool \<Rightarrow> bool \<Rightarrow> (fault + workload) option" where
  "send_workload bl fresh packet_file event_file is_wait drains =
     (case and_then (open_packet_trace bl fresh packet_file) (\<lambda>p.
           and_then (open_event_trace bl fresh event_file) (\<lambda>e. Inr (p, e))) of
        Inl e \<Rightarrow> Some (Inl e)
      | Inr (p, e) \<Rightarrow> workload_loop bl is_wait drains
          \<lparr>packet_reader = p, event_reader = e, next_packet_ts_us = 0, next_packet_payload_length = 0,
            packet_ready = False, next_event_ts_us = 0, next_event_description = [], event_ready = False,
            mRecentTSUs = 0, mIsFirstPacketSent = False, effects = []\<rparr>)"

section \<open>The other threads\<close>

definition TEST_DATA_SIZE :: nat where "TEST_DATA_SIZE = 128"
definition ALIVE_PACKET_LENGTH :: nat where "ALIVE_PACKET_LENGTH = 10"

definition send_test_data :: "u8 list" where
  "send_test_data = replicate TEST_DATA_SIZE 0"

text \<open>What the keep-alive thread sends every two seconds, in its first \<open>n\<close> rounds.\<close>

definition im_alive_thread :: "nat \<Rightarrow> fault + effect list" where
  "im_alive_thread n =
     and_then (generate_simple_string ALIVE_PACKET_LENGTH) (\<lambda>data_buffer.
     Inr (concat (replicate n [Sent data_buffer, Slept 2000000])))"

text \<open>
  The receiving thread. A result of \<open>receive\<close> either stores a pointer (null for an empty packet) or, when the core is not
  ready, leaves the variable as it is. \<open>freed\<close> are the blocks that have been freed.
\<close>

fun receiving_thread :: "nat option option list \<Rightarrow> nat option \<Rightarrow> nat set \<Rightarrow> fault + nat option \<times> nat set" where
  "receiving_thread [] buf freed = Inr (buf, freed)"
| "receiving_thread (res # rs) buf freed =
     (let buf1 = (case res of None \<Rightarrow> buf | Some p \<Rightarrow> p)
      in case buf1 of None \<Rightarrow> receiving_thread rs buf1 freed
         | Some p \<Rightarrow> if p \<in> freed \<and> res = None then Inl Double_free
             else receiving_thread rs buf1 (insert p freed))"

section \<open>The merged trace\<close>

text \<open>The specification: packets and events merged by time, an event before a packet of the same time.\<close>

fun merge_traces :: "(i32 \<times> i32) list \<Rightarrow> (i32 \<times> string) list \<Rightarrow> ((i32 \<times> i32) + (i32 \<times> string)) list" where
  "merge_traces [] es = map Inr es"
| "merge_traces ps [] = map Inl ps"
| "merge_traces (p # ps) (e # es) =
     (if sint (fst p) < sint (fst e) then Inl p # merge_traces ps (e # es) else Inr e # merge_traces (p # ps) es)"

definition payload :: "i32 \<Rightarrow> u8 list" where
  "payload n = replicate (nat (sint n) - 1) 97 @ [0]"

text \<open>
  What is done for it: before each entry a sleep for the time since the one before. At the end the program sleeps until time
  0, which is an error unless all times were 0.
\<close>

fun play :: "bool \<Rightarrow> i32 \<Rightarrow> bool \<Rightarrow> ((i32 \<times> i32) + (i32 \<times> string)) list \<Rightarrow> effect list" where
  "play waits recent first_sent [] = [if recent = 0 then Slept 0 else Sleep_error (- recent)]"
| "play waits recent first_sent (Inl (t, n) # as) =
     Slept (t - recent) # Sent (payload n) # (if first_sent then [] else [Alive_thread_started]) @ play waits t True as"
| "play waits recent first_sent (Inr (t, d) # as) =
     Slept (t - recent) # (if waits then [Queue_awaited] else []) @ Custom_event d # play waits t first_sent as"

definition packets_ahead :: "nat \<Rightarrow> workload \<Rightarrow> (i32 \<times> i32) list \<Rightarrow> bool" where
  "packets_ahead bl w ps \<longleftrightarrow> (\<exists>hs ls qs. reads_records bl hs ls (packet_reader w)
     \<and> list_all2 (\<lambda>fs q. packet_of_row (wanted_columns hs (column_names (packet_reader w)) fs) = Inr q) ls qs
     \<and> ps = (if packet_ready w then (next_packet_ts_us w, next_packet_payload_length w) # qs else qs))"

definition events_ahead :: "nat \<Rightarrow> workload \<Rightarrow> (i32 \<times> string) list \<Rightarrow> bool" where
  "events_ahead bl w es \<longleftrightarrow> (\<exists>hs ls qs. reads_records bl hs ls (event_reader w)
     \<and> list_all2 (\<lambda>fs q. event_of_row (wanted_columns hs (column_names (event_reader w)) fs) = Inr q) ls qs
     \<and> es = (if event_ready w then (next_event_ts_us w, next_event_description w) # qs else qs))"

lemma ahead_cong:
  assumes "packet_reader w' = packet_reader w" "packet_ready w' = packet_ready w" "next_packet_ts_us w' = next_packet_ts_us w"
    "next_packet_payload_length w' = next_packet_payload_length w"
  shows "packets_ahead bl w' ps = packets_ahead bl w ps"
  using assms by (simp add: packets_ahead_def)

lemma ahead_cong_events:
  assumes "event_reader w' = event_reader w" "event_ready w' = event_ready w" "next_event_ts_us w' = next_event_ts_us w"
    "next_event_description w' = next_event_description w"
  shows "events_ahead bl w' es = events_ahead bl w es"
  using assms by (simp add: events_ahead_def)

text \<open>What the first two steps of a round read.\<close>

lemma next_packet_ahead:
  assumes "packets_ahead bl w ps"
  shows "\<exists>w'. next_packet bl w = Inr w' \<and> packets_ahead bl w' ps \<and> packet_ready w' = (ps \<noteq> [])
    \<and> (ps \<noteq> [] \<longrightarrow> hd ps = (next_packet_ts_us w', next_packet_payload_length w'))
    \<and> events_ahead bl w' = events_ahead bl w \<and> mRecentTSUs w' = mRecentTSUs w
    \<and> mIsFirstPacketSent w' = mIsFirstPacketSent w \<and> effects w' = effects w"
proof (cases "packet_ready w")
  case True
  then show ?thesis using assms by (auto simp: packets_ahead_def next_packet_def)
next
  case False
  obtain hs ls where r: "reads_records bl hs ls (packet_reader w)"
    "list_all2 (\<lambda>fs q. packet_of_row (wanted_columns hs (column_names (packet_reader w)) fs) = Inr q) ls ps"
    using assms False by (auto simp: packets_ahead_def)
  show ?thesis
  proof (cases ls)
    case Nil
    then have "next_packet bl w = Inr w" "ps = []"
      using r False read_row_at_end [of bl hs "packet_reader w"] by (simp_all add: next_packet_def packet_read_a_row_def)
    then show ?thesis using assms False by simp
  next
    case (Cons fs ls')
    then obtain p ps' where ps: "ps = p # ps'" "packet_of_row (wanted_columns hs (column_names (packet_reader w)) fs) = Inr p"
      "list_all2 (\<lambda>fs q. packet_of_row (wanted_columns hs (column_names (packet_reader w)) fs) = Inr q) ls' ps'"
      using r(2) by (auto simp: list_all2_Cons1)
    obtain r1 where r1: "read_row bl (packet_reader w) = Inr (Some (wanted_columns hs (column_names (packet_reader w)) fs), r1)"
      "reads_records bl hs ls' r1" "column_names r1 = column_names (packet_reader w)"
      using read_row_record [of bl hs fs ls' "packet_reader w"] r(1) Cons by auto
    define w' where "w' = w\<lparr>packet_reader := r1, next_packet_ts_us := fst p, next_packet_payload_length := snd p, packet_ready := True\<rparr>"
    have "next_packet bl w = Inr w'"
      using False r1(1) ps(2) by (simp add: next_packet_def packet_read_a_row_def w'_def split_def Let_def)
    moreover have "packets_ahead bl w' ps"
      using r1(2,3) ps(1,3) by (auto simp: packets_ahead_def w'_def)
    ultimately show ?thesis using ps(1) by (simp add: w'_def events_ahead_def fun_eq_iff)
  qed
qed

lemma next_event_ahead:
  assumes "events_ahead bl w es"
  shows "\<exists>w'. next_event bl w = Inr w' \<and> events_ahead bl w' es \<and> event_ready w' = (es \<noteq> [])
    \<and> (es \<noteq> [] \<longrightarrow> hd es = (next_event_ts_us w', next_event_description w'))
    \<and> packets_ahead bl w' = packets_ahead bl w \<and> packet_ready w' = packet_ready w \<and> next_packet_ts_us w' = next_packet_ts_us w
    \<and> next_packet_payload_length w' = next_packet_payload_length w \<and> mRecentTSUs w' = mRecentTSUs w
    \<and> mIsFirstPacketSent w' = mIsFirstPacketSent w \<and> effects w' = effects w"
proof (cases "event_ready w")
  case True
  then show ?thesis using assms by (auto simp: events_ahead_def next_event_def)
next
  case False
  obtain hs ls where r: "reads_records bl hs ls (event_reader w)"
    "list_all2 (\<lambda>fs q. event_of_row (wanted_columns hs (column_names (event_reader w)) fs) = Inr q) ls es"
    using assms False by (auto simp: events_ahead_def)
  show ?thesis
  proof (cases ls)
    case Nil
    then have "next_event bl w = Inr w" "es = []"
      using r False read_row_at_end [of bl hs "event_reader w"] by (simp_all add: next_event_def event_read_a_row_def)
    then show ?thesis using assms False by simp
  next
    case (Cons fs ls')
    then obtain e es' where es: "es = e # es'" "event_of_row (wanted_columns hs (column_names (event_reader w)) fs) = Inr e"
      "list_all2 (\<lambda>fs q. event_of_row (wanted_columns hs (column_names (event_reader w)) fs) = Inr q) ls' es'"
      using r(2) by (auto simp: list_all2_Cons1)
    obtain r1 where r1: "read_row bl (event_reader w) = Inr (Some (wanted_columns hs (column_names (event_reader w)) fs), r1)"
      "reads_records bl hs ls' r1" "column_names r1 = column_names (event_reader w)"
      using read_row_record [of bl hs fs ls' "event_reader w"] r(1) Cons by auto
    define w' where "w' = w\<lparr>event_reader := r1, next_event_ts_us := fst e, next_event_description := snd e, event_ready := True\<rparr>"
    have "next_event bl w = Inr w'"
      using False r1(1) es(2) by (simp add: next_event_def event_read_a_row_def w'_def split_def Let_def)
    moreover have "events_ahead bl w' es"
      using r1(2,3) es(1,3) by (auto simp: events_ahead_def w'_def)
    ultimately show ?thesis using es(1) by (simp add: w'_def packets_ahead_def fun_eq_iff)
  qed
qed

lemma reading:
  assumes "packets_ahead bl w ps" "events_ahead bl w es"
  obtains w' where "\<forall>iw dr. workload_step bl iw dr w = workload_act iw dr w'"
    "packets_ahead bl w' ps" "events_ahead bl w' es" "packet_ready w' = (ps \<noteq> [])" "event_ready w' = (es \<noteq> [])"
    "ps \<noteq> [] \<longrightarrow> hd ps = (next_packet_ts_us w', next_packet_payload_length w')"
    "es \<noteq> [] \<longrightarrow> hd es = (next_event_ts_us w', next_event_description w')"
    "mRecentTSUs w' = mRecentTSUs w" "mIsFirstPacketSent w' = mIsFirstPacketSent w" "effects w' = effects w"
proof -
  obtain w1 where w1: "next_packet bl w = Inr w1" "packets_ahead bl w1 ps" "packet_ready w1 = (ps \<noteq> [])"
    "ps \<noteq> [] \<longrightarrow> hd ps = (next_packet_ts_us w1, next_packet_payload_length w1)" "events_ahead bl w1 = events_ahead bl w"
    "mRecentTSUs w1 = mRecentTSUs w" "mIsFirstPacketSent w1 = mIsFirstPacketSent w" "effects w1 = effects w"
    using next_packet_ahead [OF assms(1)] by blast
  then have "events_ahead bl w1 es" using assms(2) by simp
  from next_event_ahead [OF this] obtain w2 where w2: "next_event bl w1 = Inr w2" "events_ahead bl w2 es" "event_ready w2 = (es \<noteq> [])"
    "es \<noteq> [] \<longrightarrow> hd es = (next_event_ts_us w2, next_event_description w2)" "packets_ahead bl w2 = packets_ahead bl w1"
    "packet_ready w2 = packet_ready w1" "next_packet_ts_us w2 = next_packet_ts_us w1"
    "next_packet_payload_length w2 = next_packet_payload_length w1" "mRecentTSUs w2 = mRecentTSUs w1"
    "mIsFirstPacketSent w2 = mIsFirstPacketSent w1" "effects w2 = effects w1" by blast
  show thesis
    by (rule that [of w2]) (use w1 w2 in \<open>simp_all add: workload_step_def\<close>)
qed

text \<open>Once the next entry is taken, the rest of its trace is ahead.\<close>

lemma packets_taken:
  assumes "packets_ahead bl w (p # ps)" "packet_ready w"
  shows "packets_ahead bl (w\<lparr>packet_ready := False\<rparr>) ps"
  using assms by (auto simp: packets_ahead_def)

lemma events_taken:
  assumes "events_ahead bl w (e # es)" "event_ready w"
  shows "events_ahead bl (w\<lparr>event_ready := False\<rparr>) es"
  using assms by (auto simp: events_ahead_def)

text \<open>Times from one entry to the next: not negative, and not before the last one.\<close>

fun in_order :: "i32 \<Rightarrow> ((i32 \<times> i32) + (i32 \<times> string)) list \<Rightarrow> bool" where
  "in_order recent [] \<longleftrightarrow> True"
| "in_order recent (Inl (t, n) # as) \<longleftrightarrow> sint recent \<le> sint t \<and> 0 < sint n \<and> in_order t as"
| "in_order recent (Inr (t, d) # as) \<longleftrightarrow> sint recent \<le> sint t \<and> in_order t as"

lemma sint_distance:
  assumes "0 \<le> sint (a::i32)" "sint a \<le> sint b"
  shows "sint (b - a) = sint b - sint a"
proof -
  have "sint b < 2 ^ 31" using sint_lt [of b] by simp
  then have "sint b - sint a < 2 ^ 31" "- (2 ^ 31) \<le> sint b - sint a" using assms by simp_all
  then show ?thesis by (simp add: sint_word_ariths signed_take_bit_int_eq_self)
qed

lemma sleep_in_order:
  assumes "0 \<le> sint (mRecentTSUs w)" "sint (mRecentTSUs w) \<le> sint t"
  shows "sleep_workload t w = (0, (effect (Slept (t - mRecentTSUs w)) w)\<lparr>mRecentTSUs := t\<rparr>)"
  using sint_distance [OF assms] assms by (simp add: sleep_workload_def Let_def)

lemma sleep_at_end:
  assumes "0 \<le> sint (mRecentTSUs w)"
  shows "sleep_workload 0 w = (if mRecentTSUs w = 0 then (0, (effect (Slept 0) w)\<lparr>mRecentTSUs := 0\<rparr>)
     else (- 1, effect (Sleep_error (- mRecentTSUs w)) w))"
proof (cases "mRecentTSUs w = 0")
  case True
  then show ?thesis by (simp add: sleep_workload_def)
next
  case False
  then have "sint (mRecentTSUs w) \<noteq> 0" by (metis signed_0 signed_word_eqI)
  moreover have "sint (- mRecentTSUs w) = - sint (mRecentTSUs w)"
    using assms sint_lt [of "mRecentTSUs w"] by (simp add: sint_word_ariths signed_take_bit_int_eq_self)
  ultimately show ?thesis using False assms by (simp add: sleep_workload_def Let_def)
qed

section \<open>One round\<close>

lemma packet_round:
  assumes "packets_ahead bl w ((t, n) # ps)" "events_ahead bl w es" "es = [] \<or> sint t < sint (fst (hd es))"
    and "0 \<le> sint (mRecentTSUs w)" "sint (mRecentTSUs w) \<le> sint t" "0 < sint n"
  shows "\<exists>w'. workload_step bl iw dr w = Inr (True, w') \<and> packets_ahead bl w' ps \<and> events_ahead bl w' es
    \<and> mRecentTSUs w' = t \<and> mIsFirstPacketSent w'
    \<and> effects w' = effects w @ Slept (t - mRecentTSUs w) # Sent (payload n) # (if mIsFirstPacketSent w then [] else [Alive_thread_started])"
proof -
  obtain w1 where w1: "\<forall>iw dr. workload_step bl iw dr w = workload_act iw dr w1"
    "packets_ahead bl w1 ((t, n) # ps)" "events_ahead bl w1 es" "packet_ready w1 = (((t, n) # ps) \<noteq> [])" "event_ready w1 = (es \<noteq> [])"
    "((t, n) # ps) \<noteq> [] \<longrightarrow> hd ((t, n) # ps) = (next_packet_ts_us w1, next_packet_payload_length w1)"
    "es \<noteq> [] \<longrightarrow> hd es = (next_event_ts_us w1, next_event_description w1)"
    "mRecentTSUs w1 = mRecentTSUs w" "mIsFirstPacketSent w1 = mIsFirstPacketSent w" "effects w1 = effects w"
    by (rule reading [OF assms(1,2)], blast)
  define w2 where "w2 = w1\<lparr>packet_ready := False\<rparr>"
  have d: "decide_action w1 = (ACTION_SEND_PACKET, t, w2)"
    using w1(4-7) assms(3) by (auto simp: decide_action_def w2_def)
  define w3 where "w3 = (effect (Slept (t - mRecentTSUs w)) w2)\<lparr>mRecentTSUs := t\<rparr>"
  have s: "sleep_workload t w2 = (0, w3)"
    using sleep_in_order [of w2 t] assms(4,5) w1(8) by (simp add: w2_def w3_def)
  have p: "packets_ahead bl w2 ps" unfolding w2_def using packets_taken [OF w1(2)] w1(4) by simp
  define w4 where "w4 = (let v = effect (Sent (payload n)) w3
    in if mIsFirstPacketSent v then v else effect Alive_thread_started (v\<lparr>mIsFirstPacketSent := True\<rparr>))"
  have "send_action w3 = Inr (True, w4)"
    using assms(6) w1(6) by (simp add: send_action_def w3_def w2_def w4_def effect_def generate_simple_string_def payload_def Let_def)
  then have "workload_step bl iw dr w = Inr (True, w4)" by (simp add: w1(1) workload_act_def d s)
  moreover have "packets_ahead bl w4 ps = packets_ahead bl w2 ps"
    by (rule ahead_cong) (simp_all add: w4_def w3_def effect_def Let_def)
  moreover have "events_ahead bl w4 es = events_ahead bl w1 es"
    by (rule ahead_cong_events) (simp_all add: w4_def w3_def w2_def effect_def Let_def)
  moreover have "mRecentTSUs w4 = t" "mIsFirstPacketSent w4" by (simp_all add: w4_def w3_def effect_def Let_def)
  moreover have "effects w4 = effects w @ Slept (t - mRecentTSUs w) # Sent (payload n)
      # (if mIsFirstPacketSent w then [] else [Alive_thread_started])"
    using w1(9,10) by (simp add: w4_def w3_def w2_def effect_def Let_def)
  ultimately show ?thesis using p w1(3) by blast
qed

lemma event_round:
  assumes "packets_ahead bl w ps" "events_ahead bl w ((t, d) # es)" "ps = [] \<or> sint t \<le> sint (fst (hd ps))"
    and "0 \<le> sint (mRecentTSUs w)" "sint (mRecentTSUs w) \<le> sint t" "iw \<longrightarrow> dr"
  shows "\<exists>w'. workload_step bl iw dr w = Inr (True, w') \<and> packets_ahead bl w' ps \<and> events_ahead bl w' es
    \<and> mRecentTSUs w' = t \<and> mIsFirstPacketSent w' = mIsFirstPacketSent w
    \<and> effects w' = effects w @ Slept (t - mRecentTSUs w) # (if iw then [Queue_awaited] else []) @ [Custom_event d]"
proof -
  obtain w1 where w1: "\<forall>iw dr. workload_step bl iw dr w = workload_act iw dr w1"
    "packets_ahead bl w1 ps" "events_ahead bl w1 ((t, d) # es)" "packet_ready w1 = (ps \<noteq> [])" "event_ready w1 = (((t, d) # es) \<noteq> [])"
    "ps \<noteq> [] \<longrightarrow> hd ps = (next_packet_ts_us w1, next_packet_payload_length w1)"
    "((t, d) # es) \<noteq> [] \<longrightarrow> hd ((t, d) # es) = (next_event_ts_us w1, next_event_description w1)"
    "mRecentTSUs w1 = mRecentTSUs w" "mIsFirstPacketSent w1 = mIsFirstPacketSent w" "effects w1 = effects w"
    by (rule reading [OF assms(1,2)], blast)
  define w2 where "w2 = w1\<lparr>event_ready := False\<rparr>"
  have a: "decide_action w1 = (ACTION_CUSTOM_EVENT, t, w2)"
    using w1(4-7) assms(3) by (auto simp: decide_action_def w2_def)
  define w3 where "w3 = (effect (Slept (t - mRecentTSUs w)) w2)\<lparr>mRecentTSUs := t\<rparr>"
  have s: "sleep_workload t w2 = (0, w3)"
    using sleep_in_order [of w2 t] assms(4,5) w1(8) by (simp add: w2_def w3_def)
  have e: "events_ahead bl w2 es" unfolding w2_def using events_taken [OF w1(3)] w1(5) by simp
  define w4 where "w4 = effect (Custom_event d) (if iw then effect Queue_awaited w3 else w3)"
  have "event_action iw dr w3 = Inr (True, w4)"
    using assms(6) w1(7) by (simp add: event_action_def w3_def w2_def w4_def effect_def)
  then have "workload_step bl iw dr w = Inr (True, w4)" by (simp add: w1(1) workload_act_def a s)
  moreover have "packets_ahead bl w4 ps = packets_ahead bl w1 ps"
    by (rule ahead_cong) (simp_all add: w4_def w3_def w2_def effect_def)
  moreover have "events_ahead bl w4 es = events_ahead bl w2 es"
    by (rule ahead_cong_events) (simp_all add: w4_def w3_def effect_def)
  moreover have "mRecentTSUs w4 = t" "mIsFirstPacketSent w4 = mIsFirstPacketSent w"
    using w1(9) by (simp_all add: w4_def w3_def w2_def effect_def)
  moreover have "effects w4 = effects w @ Slept (t - mRecentTSUs w) # (if iw then [Queue_awaited] else []) @ [Custom_event d]"
    using w1(10) by (simp add: w4_def w3_def w2_def effect_def)
  ultimately show ?thesis using e w1(2) by blast
qed

lemma last_round:
  assumes "packets_ahead bl w []" "events_ahead bl w []" "0 \<le> sint (mRecentTSUs w)"
  shows "\<exists>w'. workload_step bl iw dr w = Inr (False, w')
    \<and> effects w' = effects w @ [if mRecentTSUs w = 0 then Slept 0 else Sleep_error (- mRecentTSUs w)]"
proof -
  obtain w1 where w1: "\<forall>iw dr. workload_step bl iw dr w = workload_act iw dr w1"
    "packets_ahead bl w1 []" "events_ahead bl w1 []" "packet_ready w1 = ([] \<noteq> [])" "event_ready w1 = ([] \<noteq> [])"
    "[] \<noteq> [] \<longrightarrow> hd [] = (next_packet_ts_us w1, next_packet_payload_length w1)"
    "[] \<noteq> [] \<longrightarrow> hd [] = (next_event_ts_us w1, next_event_description w1)"
    "mRecentTSUs w1 = mRecentTSUs w" "mIsFirstPacketSent w1 = mIsFirstPacketSent w" "effects w1 = effects w"
    by (rule reading [OF assms(1,2)], blast)
  have "decide_action w1 = (ACTION_EXIT, 0, w1)" using w1(4,5) by (simp add: decide_action_def)
  then show ?thesis
    using sleep_at_end [of w1] assms(3) w1(8,10) by (auto simp: w1(1) workload_act_def effect_def)
qed

lemma merge_traces_Nil [simp]: "merge_traces ps [] = map Inl ps"
  by (cases ps) simp_all

lemma workload_loop_go:
  "workload_step bl iw dr w = Inr (True, w') \<Longrightarrow> workload_loop bl iw dr w = workload_loop bl iw dr w'"
  "workload_step bl iw dr w = Inr (False, w') \<Longrightarrow> workload_loop bl iw dr w = Some (Inr w')"
  by (subst workload_loop.simps, simp)+

lemma workload_plays:
  assumes "packets_ahead bl w ps" "events_ahead bl w es" "0 \<le> sint (mRecentTSUs w)"
    and "in_order (mRecentTSUs w) (merge_traces ps es)" "iw \<longrightarrow> dr"
  shows "\<exists>w'. workload_loop bl iw dr w = Some (Inr w')
    \<and> effects w' = effects w @ play iw (mRecentTSUs w) (mIsFirstPacketSent w) (merge_traces ps es)"
  using assms(1-4)
proof (induction "merge_traces ps es" arbitrary: ps es w)
  case Nil
  then have e: "ps = []" "es = []" by (cases ps; cases es; simp split: if_splits)+
  from last_round [of bl w iw dr] Nil.prems show ?case unfolding e by (auto dest!: workload_loop_go(2))
next
  case (Cons a as)
  show ?case
  proof (cases a)
    case (Inl p)
    obtain t n where p: "p = (t, n)" by (cases p)
    obtain ps' where ps: "ps = p # ps'" "merge_traces ps' es = as" "es = [] \<or> sint t < sint (fst (hd es))"
      using Cons.hyps(2) Inl p by (cases ps; cases es; auto split: if_splits)
    have o: "sint (mRecentTSUs w) \<le> sint t" "0 < sint n" "in_order t as"
      using Cons.prems(4) unfolding Cons.hyps(2) [symmetric] Inl p by simp_all
    obtain w1 where w1: "workload_step bl iw dr w = Inr (True, w1)" "packets_ahead bl w1 ps'" "events_ahead bl w1 es"
      "mRecentTSUs w1 = t" "mIsFirstPacketSent w1"
      "effects w1 = effects w @ Slept (t - mRecentTSUs w) # Sent (payload n) # (if mIsFirstPacketSent w then [] else [Alive_thread_started])"
      using packet_round [OF _ Cons.prems(2) ps(3) Cons.prems(3) o(1,2)] Cons.prems(1) ps(1) p by blast
    have "0 \<le> sint (mRecentTSUs w1)" using Cons.prems(3) o(1) w1(4) by simp
    from Cons.hyps(1) [OF ps(2) [symmetric] w1(2,3) this] o(3) w1(4) ps(2)
    show ?thesis unfolding workload_loop_go(1) [OF w1(1)] Cons.hyps(2) [symmetric] Inl p using w1(4-6) by auto
  next
    case (Inr e)
    obtain t d where e: "e = (t, d)" by (cases e)
    obtain es' where es: "es = e # es'" "merge_traces ps es' = as" "ps = [] \<or> sint t \<le> sint (fst (hd ps))"
      using Cons.hyps(2) Inr e by (cases ps; cases es; auto split: if_splits)
    have o: "sint (mRecentTSUs w) \<le> sint t" "in_order t as"
      using Cons.prems(4) unfolding Cons.hyps(2) [symmetric] Inr e by simp_all
    obtain w1 where w1: "workload_step bl iw dr w = Inr (True, w1)" "packets_ahead bl w1 ps" "events_ahead bl w1 es'"
      "mRecentTSUs w1 = t" "mIsFirstPacketSent w1 = mIsFirstPacketSent w"
      "effects w1 = effects w @ Slept (t - mRecentTSUs w) # (if iw then [Queue_awaited] else []) @ [Custom_event d]"
      using event_round [OF Cons.prems(1) _ es(3) Cons.prems(3) o(1) assms(5)] Cons.prems(2) es(1) e by blast
    have "0 \<le> sint (mRecentTSUs w1)" using Cons.prems(3) o(1) w1(4) by simp
    from Cons.hyps(1) [OF es(2) [symmetric] w1(2,3) this] o(2) w1(4) es(2)
    show ?thesis unfolding workload_loop_go(1) [OF w1(1)] Cons.hyps(2) [symmetric] Inr e using w1(4-6) by auto
  qed
qed

section \<open>Whole traces\<close>

text \<open>
  The driver plays the two traces merged by time. For a packet trace and an event trace that a CSV writer wrote, with the columns anywhere in
  them, whose times do not go back, the loop ends, and what it did is, entry by entry of the merged trace: the sleep
  since the entry before, then the packet of the given length or the event, an event before a packet of the same
  time. The last thing it does is to report a negative sleep, unless all times were 0: the time of the last round is 0.
\<close>

lemma workload_of_files:
  assumes "2 \<le> bl" "length fresh = 3 * bl" "iw \<longrightarrow> dr" "in_order 0 (merge_traces ps es)"
    and p: "distinct hs" "{''TimeUS'', ''Length''} \<subseteq> set hs" "\<forall>fs\<in>set (hs # ls). storable bl (length hs) fs"
      "list_all2 (\<lambda>fs q. packet_of_row (wanted_columns hs [''TimeUS'', ''Length''] fs) = Inr q) ls ps"
    and e: "distinct hs'" "{''TimeUS'', ''Event''} \<subseteq> set hs'" "\<forall>fs\<in>set (hs' # ls'). storable bl (length hs') fs"
      "list_all2 (\<lambda>fs q. event_of_row (wanted_columns hs' [''TimeUS'', ''Event''] fs) = Inr q) ls' es"
  shows "\<exists>w. send_workload bl fresh (Some (csv_text (hs # ls))) (Some (csv_text (hs' # ls'))) iw dr = Some (Inr w)
    \<and> effects w = play iw 0 False (merge_traces ps es)"
proof -
  have n: "distinct [''TimeUS'', ''Length'']" "distinct [''TimeUS'', ''Event'']"
    "set [''TimeUS'', ''Length''] \<subseteq> set hs" "set [''TimeUS'', ''Event''] \<subseteq> set hs'" using p(2) e(2) by simp_all
  from open_csv [OF assms(1,2) p(1) n(1,3) p(3), of 2] obtain r r1 where
    r: "csv_ctor 2 bl fresh (Some (csv_text (hs # ls))) = Inr r" "read_header bl True False [''TimeUS'', ''Length''] r = Inr r1"
    "reads_records bl hs ls r1" "column_names r1 = [''TimeUS'', ''Length'']" .
  from open_csv [OF assms(1,2) e(1) n(2,4) e(3), of 2] obtain q q1 where
    q: "csv_ctor 2 bl fresh (Some (csv_text (hs' # ls'))) = Inr q" "read_header bl True False [''TimeUS'', ''Event''] q = Inr q1"
    "reads_records bl hs' ls' q1" "column_names q1 = [''TimeUS'', ''Event'']" .
  define w where "w = \<lparr>packet_reader = r1, event_reader = q1, next_packet_ts_us = 0, next_packet_payload_length = 0,
            packet_ready = False, next_event_ts_us = 0, next_event_description = [], event_ready = False,
            mRecentTSUs = 0, mIsFirstPacketSent = False, effects = []\<rparr>"
  have "packets_ahead bl w ps" using r(3,4) p(4) by (auto simp: packets_ahead_def w_def)
  moreover have "events_ahead bl w es" using q(3,4) e(4) by (auto simp: events_ahead_def w_def)
  ultimately obtain w' where "workload_loop bl iw dr w = Some (Inr w')" "effects w' = effects w @ play iw 0 False (merge_traces ps es)"
    using workload_plays [of bl w ps es iw dr] assms(3,4) by (auto simp: w_def)
  then show ?thesis using r(1,2) q(1,2) by (simp add: send_workload_def open_packet_trace_def open_event_trace_def w_def)
qed

lemma example_numbers:
  "stoi ''5'' = Inr 5" "stoi ''7'' = Inr 7" "stoi ''3'' = Inr 3"
  by (simp_all add: stoi_def parse_number_def is_space_def is_digit_def digits_value_def)

definition example_packets :: "string list list" where
  "example_packets = [[''TimeUS'', ''Length''], [''5'', ''3''], [''7'', ''5'']]"

definition example_events :: "string list list" where
  "example_events = [[''Event'', ''TimeUS''], [''wfd'', ''5'']]"

lemma example_files:
  "\<forall>fs\<in>set example_packets. storable 64 2 fs" "\<forall>fs\<in>set example_events. storable 64 2 fs"
  "list_all2 (\<lambda>fs q. packet_of_row (wanted_columns [''TimeUS'', ''Length''] [''TimeUS'', ''Length''] fs) = Inr q) (tl example_packets) [(5, 3), (7, 5)]"
  "list_all2 (\<lambda>fs q. event_of_row (wanted_columns [''Event'', ''TimeUS''] [''TimeUS'', ''Event''] fs) = Inr q) (tl example_events) [(5, ''wfd'')]"
  by (simp_all add: example_packets_def example_events_def storable_def plain_def quote_field_def doubled_def quote_def
      packet_of_row_def event_of_row_def wanted_columns_def column_value_def example_numbers)

lemma example_payloads: "payload 3 = [97, 97, 0]" "payload 5 = [97, 97, 97, 97, 0]"
  by code_simp+

section \<open>What the workload sends\<close>

fun sent_buffers :: "effect list \<Rightarrow> u8 list list" where
  "sent_buffers [] = []"
| "sent_buffers (Sent b # es) = b # sent_buffers es"
| "sent_buffers (_ # es) = sent_buffers es"

lemma sent_buffers_append: "sent_buffers (xs @ ys) = sent_buffers xs @ sent_buffers ys"
  by (induction xs rule: sent_buffers.induct) simp_all

fun packets_of :: "((i32 \<times> i32) + (i32 \<times> string)) list \<Rightarrow> (i32 \<times> i32) list" where
  "packets_of [] = []"
| "packets_of (Inl p # as) = p # packets_of as"
| "packets_of (Inr e # as) = packets_of as"

lemma packets_of_maps [simp]: "packets_of (map Inl ps) = ps" "packets_of (map Inr es) = []"
  by (induction ps, simp_all) (induction es, simp_all)

lemma packets_of_merge: "packets_of (merge_traces ps es) = ps"
  by (induction ps es rule: merge_traces.induct) simp_all

lemma sent_play: "sent_buffers (play iw recent sent as) = map (payload \<circ> snd) (packets_of as)"
  by (induction iw recent sent as rule: play.induct) (simp_all add: sent_buffers_append)

text \<open>A receive that fails after a packet was received frees the packet's buffer a second time.\<close>

lemma failed_receive_frees_twice: "receiving_thread [Some (Some p), None] None {} = Inl Double_free"
  by simp

end
