(* ===== verification/MonitorLog.thy ===== *)
theory MonitorLog
  imports CoreControl
begin

text \<open>
  The logs: the rows that the logging thread writes about the statistics four times a second
  (linux/core/src/MonitorLoggingThread.cpp), the event log (EventLogging.cpp), and the latencies a switch reports
  (inc/NetworkSwitcher.h). A row is kept as its values: its text has no defined value but for the time. A log file is its contents,
  \<open>None\<close> when it cannot be opened.
\<close>

type_synonym i64 = "64 word"

section \<open>Rows of the monitor log\<close>

record logging_thread =
  mMonitorLoggingThreadOn :: bool
  mIsAppend :: bool
  mMeasuredSendRTT :: counter

definition logging_start :: "bool \<Rightarrow> logging_thread \<Rightarrow> logging_thread" where
  "logging_start is_append t = t\<lparr>mIsAppend := is_append, mMonitorLoggingThreadOn := True\<rparr>"

definition logging_stop :: "logging_thread \<Rightarrow> logging_thread" where
  "logging_stop t = t\<lparr>mMonitorLoggingThreadOn := False\<rparr>"

definition get_measured_send_rtt :: "logging_thread \<Rightarrow> f32 option" where
  "get_measured_send_rtt t = get_total_average (mMeasuredSendRTT t)"

definition state_code :: "adapter_state \<Rightarrow> i32" where
  "state_code s =
     (if s = kConnecting then 1 else if s = kActive then 2 else if s = kDisconnecting then 3 else 0)"

text \<open>
  The time since the thread started, in microseconds, is cut to an \<open>int\<close> before it is divided; quotient and remainder
  truncate toward zero.
\<close>

definition log_time :: "i64 \<Rightarrow> i64 \<Rightarrow> i32 \<times> i32" where
  "log_time first_tv_us now_tv_us =
     (let relative = sint (word_of_int (sint (now_tv_us - first_tv_us)) :: i32)
      in (word_of_int (relative sdiv 1000000), word_of_int (relative smod 1000000)))"

record log_row =
  row_sec :: i32
  row_usec :: i32
  row_arrival_ms :: f32
  row_request_size :: i32
  row_queue_arrival :: f32
  row_queue_length :: f32
  row_bandwidth :: f32
  row_send_rtt :: f32
  row_bt_state :: i32
  row_wfd_state :: i32

definition by_1000 :: "f32 \<Rightarrow> f32" where
  "by_1000 x = fl32 (x / 1000)"

text \<open>One round with the statistics \<open>st\<close>. Both adapters are looked up by index.\<close>

definition logging_round :: "i64 \<Rightarrow> i64 \<Rightarrow> stats \<Rightarrow> world \<Rightarrow> logging_thread \<Rightarrow> fault + log_row \<times> logging_thread" where
  "logging_round first_tv_us now_tv_us st W t =
     and_then (get_adapter 0 W) (\<lambda>bt.
     and_then (get_adapter 1 W) (\<lambda>wfd.
     and_then (float_to_int (ema_send_rtt st)) (\<lambda>rtt.
     and_then (float_to_int (ema_send_request_size st)) (\<lambda>request_size.
     Inr (\<lparr>row_sec = fst (log_time first_tv_us now_tv_us), row_usec = snd (log_time first_tv_us now_tv_us),
            row_arrival_ms = by_1000 (ema_arrival_time_us st), row_request_size = request_size,
            row_queue_arrival = by_1000 (ema_queue_arrival_speed st),
            row_queue_length = by_1000 (fl32 (of_int (sint (now_queue_data_size st)))),
            row_bandwidth = by_1000 (fl32 (of_int (sint (now_total_bandwidth st)))), row_send_rtt = ema_send_rtt st,
            row_bt_state = state_code (mState bt), row_wfd_state = state_code (mState wfd)\<rparr>,
          t\<lparr>mMeasuredSendRTT := set_value rtt (mMeasuredSendRTT t)\<rparr>)))))"

text \<open>The rounds until the thread is told to stop; an input is the time, the statistics and the world of a round.\<close>

fun logging_rounds ::
    "i64 \<Rightarrow> (i64 \<times> stats \<times> world) list \<Rightarrow> logging_thread \<Rightarrow> fault + log_row list \<times> logging_thread" where
  "logging_rounds first_tv_us [] t = Inr ([], t)"
| "logging_rounds first_tv_us ((now_tv_us, st, W) # rounds) t =
     (if \<not> mMonitorLoggingThreadOn t then Inr ([], t)
      else and_then (logging_round first_tv_us now_tv_us st W t) (\<lambda>(row, t1).
           and_then (logging_rounds first_tv_us rounds t1) (\<lambda>(rows, t2). Inr (row # rows, t2))))"

text \<open>The file when the thread starts, opened for appending or anew; its first line.\<close>

definition monitor_log_header :: string where
  "monitor_log_header = ''# Timestamp(sec), Inter-arrival Time (ms), Request Size (B), Queue Arrival Speed(KB/s), Send Queue Length(KB), Bandwidth(KB/s), Latency(ms), BT State, WFD State'' @ [nl]"

definition open_monitor_log :: "logging_thread \<Rightarrow> string option \<Rightarrow> string option" where
  "open_monitor_log t file = map_option (\<lambda>l. (if mIsAppend t then l else []) @ monitor_log_header) file"

text \<open>What the conversions of a format of \<open>printf\<close> take.\<close>

datatype printf_kind = Int_arg | Long_arg | Double_arg | Text_arg

fun conversions :: "bool \<Rightarrow> bool \<Rightarrow> string \<Rightarrow> printf_kind list" where
  "conversions inside long [] = []"
| "conversions inside long (c # cs) =
     (if \<not> inside then conversions (c = CHR ''%'') False cs
      else if c = CHR ''l'' then conversions True True cs
      else if is_digit c \<or> c = CHR ''.'' then conversions True long cs
      else if c = CHR ''d'' then (if long then Long_arg else Int_arg) # conversions False False cs
      else if c = CHR ''f'' then Double_arg # conversions False False cs
      else if c = CHR ''s'' then Text_arg # conversions False False cs
      else conversions False False cs)"

text \<open>The format of a row, and what is passed for it: the two times, the columns, the two states.\<close>

definition monitor_row_format :: string where
  "monitor_row_format = ''%ld.%ld, %8.3f, %4d, %8.3f, %8.3f, %8.3f, %8.3f, %8.3f, %d, %d'' @ [nl]"

definition monitor_row_arguments :: "printf_kind list" where
  "monitor_row_arguments =
     [Int_arg, Int_arg, Double_arg, Int_arg, Double_arg, Double_arg, Double_arg, Double_arg, Int_arg, Int_arg]"

text \<open>
  The text of a row has no defined value: there are eleven conversions for ten arguments, and the ninth reads the state of
  the Bluetooth adapter, an \<open>int\<close>, as a \<open>double\<close>.
\<close>

lemma row_format_mismatch:
  "length (conversions False False monitor_row_format) = 11" "length monitor_row_arguments = 10"
  "conversions False False monitor_row_format ! 8 = Double_arg" "monitor_row_arguments ! 8 = Int_arg"
  by code_simp+

text \<open>The time as it is printed, \<open>%ld.%ld\<close>.\<close>

definition log_time_text :: "i32 \<times> i32 \<Rightarrow> string" where
  "log_time_text p = int_to_string (fst p) @ ''.'' @ int_to_string (snd p)"

section \<open>The event log\<close>

definition event_log_initialize :: "string option \<Rightarrow> string option" where
  "event_log_initialize file = map_option (\<lambda>_. []) file"

definition print_event :: "string \<Rightarrow> string option \<Rightarrow> string option" where
  "print_event eventstr file = map_option (\<lambda>l. l @ eventstr @ [nl]) file"

text \<open>\<open>%.3f\<close>, rounded to nearest from the exact value, and padding on the left.\<close>

definition pad_left :: "char \<Rightarrow> nat \<Rightarrow> string \<Rightarrow> string" where
  "pad_left c n s = replicate (n - length s) c @ s"

definition printf_fixed3 :: "rat \<Rightarrow> string" where
  "printf_fixed3 x =
     (let n = nat (round_half_even (\<bar>x\<bar> * 1000))
      in (if x < 0 then ''-'' else []) @ digits (n div 1000) @ ''.'' @ pad_left CHR ''0'' 3 (digits (n mod 1000)))"

text \<open>The average latency as an event; before the first sample it is no number, and its text is not modelled (\<open>None\<close>).\<close>

definition print_measured_send_rtt :: "logging_thread \<Rightarrow> string option \<Rightarrow> string option option" where
  "print_measured_send_rtt t file =
     map_option (\<lambda>rtt. print_event (take 255 (''Total measured average latency: '' @ printf_fixed3 rtt @ ''ms'' @ [nl])) file)
       (get_measured_send_rtt t)"

section \<open>The latencies of a switch\<close>

text \<open>The four time stamps, in seconds and microseconds.\<close>

record switch_times =
  mConnectStartTS :: "u64 \<times> u64"
  mSleepStartTS :: "u64 \<times> u64"
  mDisconnectStartTS :: "u64 \<times> u64"
  mDisconnectEndTS :: "u64 \<times> u64"

definition setConnectStartTS :: "u64 \<times> u64 \<Rightarrow> switch_times \<Rightarrow> switch_times" where
  "setConnectStartTS now t = t\<lparr>mConnectStartTS := now\<rparr>"

definition setSleepStartTS :: "u64 \<times> u64 \<Rightarrow> switch_times \<Rightarrow> switch_times" where
  "setSleepStartTS now t = t\<lparr>mSleepStartTS := now\<rparr>"

definition setDisconnectStartTS :: "u64 \<times> u64 \<Rightarrow> switch_times \<Rightarrow> switch_times" where
  "setDisconnectStartTS now t = t\<lparr>mDisconnectStartTS := now\<rparr>"

definition setDisconnectEndTS :: "u64 \<times> u64 \<Rightarrow> switch_times \<Rightarrow> switch_times" where
  "setDisconnectEndTS now t = t\<lparr>mDisconnectEndTS := now\<rparr>"

definition stamp_us :: "u64 \<times> u64 \<Rightarrow> u64" where
  "stamp_us ts = fst ts * 1000 * 1000 + snd ts"

definition getTotalSwitchLatency :: "switch_times \<Rightarrow> u64" where
  "getTotalSwitchLatency t = stamp_us (mDisconnectEndTS t) - stamp_us (mConnectStartTS t)"

definition getConnectLatency :: "switch_times \<Rightarrow> u64" where
  "getConnectLatency t = stamp_us (mSleepStartTS t) - stamp_us (mConnectStartTS t)"

definition getSleepLatency :: "switch_times \<Rightarrow> u64" where
  "getSleepLatency t = stamp_us (mDisconnectStartTS t) - stamp_us (mSleepStartTS t)"

definition getDisconnectLatency :: "switch_times \<Rightarrow> u64" where
  "getDisconnectLatency t = stamp_us (mDisconnectEndTS t) - stamp_us (mDisconnectStartTS t)"

lemma total_is_sum: "getTotalSwitchLatency t = getConnectLatency t + getSleepLatency t + getDisconnectLatency t"
  by (simp add: getTotalSwitchLatency_def getConnectLatency_def getSleepLatency_def getDisconnectLatency_def)

section \<open>What the log says\<close>

lemma relative_small:
  assumes "0 \<le> r" "r < 2 ^ 32"
  shows "sint (word_of_int (sint (word_of_int r :: i64)) :: i32) = (if r < 2 ^ 31 then r else r - 2 ^ 32)"
proof -
  have "sint (word_of_int r :: i64) = r"
    using assms by (simp add: signed_of_int signed_take_bit_int_eq_self)
  moreover have "sint (word_of_int r :: i32) = (if r < 2 ^ 31 then r else r - 2 ^ 32)"
  proof (cases "r < 2 ^ 31")
    case True
    then show ?thesis using assms by (simp add: signed_of_int signed_take_bit_int_eq_self)
  next
    case False
    have "sint (word_of_int r :: i32) = sint (word_of_int (r - 2 ^ 32) :: i32)"
      by (rule arg_cong [where f = sint]) (simp add: word_of_int_eq_iff take_bit_eq_mod mod_diff_eq [symmetric])
    also have "\<dots> = signed_take_bit 31 (r - 2 ^ 32)" by (subst signed_of_int) simp
    also have "\<dots> = r - 2 ^ 32" using False assms(2) by (intro signed_take_bit_int_eq_self) simp_all
    finally show ?thesis using False by simp
  qed
  ultimately show ?thesis by (simp only:)
qed

text \<open>
  The time of a row is right for the first \<open>2 ^ 31\<close> microseconds, nearly 36 minutes; in the next \<open>2 ^ 31\<close> it is negative.
\<close>

lemma log_time_wraps:
  assumes "now - first = word_of_int r" "0 \<le> r" "r < 2 ^ 32"
  shows "if r < 2 ^ 31 then sint (fst (log_time first now)) = r div 1000000 \<and> sint (snd (log_time first now)) = r mod 1000000
    else sint (fst (log_time first now)) \<le> 0 \<and> sint (snd (log_time first now)) \<le> 0"
proof -
  define q where "q = (if r < 2 ^ 31 then r else r - 2 ^ 32)"
  have q: "log_time first now = (word_of_int (q sdiv 1000000), word_of_int (q smod 1000000))"
    unfolding log_time_def assms(1) relative_small [OF assms(2,3)] q_def Let_def ..
  have range: "- (2 ^ 31) \<le> q" "q < 2 ^ 31" using assms(2,3) by (auto simp: q_def)
  have s: "q sdiv 1000000 = (if 0 \<le> q then q div 1000000 else - ((- q) div 1000000))"
    "q smod 1000000 = (if 0 \<le> q then q mod 1000000 else - ((- q) mod 1000000))"
    by (auto simp: signed_divide_int_def signed_modulo_int_def sgn_if)
  have w: "sint (word_of_int x :: i32) = x" if "- (2 ^ 31) \<le> x" "x < 2 ^ 31" for x
    using that by (simp add: signed_of_int signed_take_bit_int_eq_self)
  have "- (2 ^ 31) \<le> q sdiv 1000000" "q sdiv 1000000 < 2 ^ 31" "- (2 ^ 31) \<le> q smod 1000000" "q smod 1000000 < 2 ^ 31"
    unfolding s using range by auto
  then have "sint (fst (log_time first now)) = q sdiv 1000000" "sint (snd (log_time first now)) = q smod 1000000"
    using w by (simp_all add: q)
  then show ?thesis unfolding s using assms(2,3) by (auto simp: q_def)
qed

end
