(* ===== verification/Reconnect.thy ===== *)
theory Reconnect
  imports CoreControl
begin

text \<open>
  The reconnection of an adapter that failed (\<open>ReconnectAdapterTransaction\<close> and \<open>NetworkSwitcher::reconnect_adapter\<close> in
  linux/core/src/NetworkSwitcher.cpp), which the loops of an adapter start where the configuration has it. The transaction under way is kept
  beside the world: the index of its target.
\<close>

section \<open>The transaction\<close>

text \<open>
  \<open>ws\<close> are the plugins at the successive operations on the adapter. Both operations report to \<open>disconnect_callback\<close>, so
  there is one callback: after a success it connects the target, after a failure it clears \<open>sOngoing\<close> and starts again. A callback that
  a nested operation makes comes before the rest.
\<close>

fun reconnect_callbacks :: "impl list \<Rightarrow> (callback \<times> bool) list \<Rightarrow> int option \<times> world \<Rightarrow> fault + int option \<times> world" where
  "reconnect_callbacks ws [] S = Inr S"
| "reconnect_callbacks ws ((cb, is_success) # cbs) (None, W) = Inl Null_dereference"
| "reconnect_callbacks [] ((cb, is_success) # cbs) (Some target, W) = Inl Would_block"
| "reconnect_callbacks (w # ws) ((cb, is_success) # cbs) (Some target, W) =
     (if \<not> is_success
      then and_then (on_adapter target (disconnect_on_failure (Some Reconnect) (world_impl w W)) W) (\<lambda>(cbs1, W1).
           reconnect_callbacks ws (cbs1 @ cbs) (None, W1))
      else and_then (on_adapter target (connect (Some Reconnect) (world_impl w W)) W) (\<lambda>(cbs1, W1).
           reconnect_callbacks ws (cbs1 @ cbs) (Some target, W1)))"

definition reconnect_start :: "impl list \<Rightarrow> int \<Rightarrow> int option \<times> world \<Rightarrow> fault + int option \<times> world" where
  "reconnect_start ws target S =
     (case ws of [] \<Rightarrow> Inl Would_block
      | w # ws1 \<Rightarrow>
        and_then (on_adapter target (disconnect_on_failure (Some Reconnect) (world_impl w (snd S))) (snd S)) (\<lambda>(cbs, W1).
        reconnect_callbacks ws1 cbs (fst S, W1)))"

definition reconnect_run :: "impl list \<Rightarrow> int \<Rightarrow> int option \<times> world \<Rightarrow> fault + bool \<times> int option \<times> world" where
  "reconnect_run ws target S =
     (if fst S = None
      then and_then (reconnect_start ws target (Some target, snd S)) (\<lambda>S1. Inr (True, S1))
      else Inr (False, fst S, done_switch (snd S)))"

text \<open>\<open>done(false)\<close>, which no path calls.\<close>

definition reconnect_done :: "int option \<times> world \<Rightarrow> int option \<times> world" where
  "reconnect_done S = (None, done_switch (snd S))"

text \<open>\<open>connect_callback\<close>, which no operation is given.\<close>

definition reconnect_connect_callback :: "impl list \<Rightarrow> int \<Rightarrow> bool \<Rightarrow> int option \<times> world \<Rightarrow> fault + int option \<times> world" where
  "reconnect_connect_callback ws target is_success S =
     (if \<not> is_success
      then (if fst S = None then Inl Null_dereference else reconnect_start ws target (None, snd S))
      else Inr (fst S, done_switch (snd S)))"

text \<open>\<open>becomes_ready\<close> says whether a switch under way ends while the call polls for it.\<close>

definition reconnect_adapter ::
    "impl list \<Rightarrow> int \<Rightarrow> bool \<Rightarrow> bool \<Rightarrow> int option \<times> world \<Rightarrow> fault + bool \<times> int option \<times> world" where
  "reconnect_adapter ws target retry_if_already_switching becomes_ready S =
     (if retry_if_already_switching \<and> mNSState (snd S) = kNSStateSwitching \<and> \<not> becomes_ready then Inl Would_block
      else reconnect_run ws target (fst S, (snd S)\<lparr>mNSState := kNSStateSwitching\<rparr>))"

section \<open>It never reconnects\<close>

lemma disconnect_on_failure_refused:
  "mState a = kDisconnected \<or> mState a = kDisconnecting \<Longrightarrow>
    disconnect_on_failure (Some cb) w a = Inr (emit (Callback cb False) a)"
  by (auto simp: disconnect_on_failure_def)

lemma disconnect_needs_switch:
  "\<not> switch_ongoing w \<Longrightarrow> mState a \<noteq> kDisconnected \<Longrightarrow> mState a \<noteq> kDisconnecting \<Longrightarrow>
    disconnect_on_failure cb w a = Inl Null_dereference"
  by (simp add: disconnect_on_failure_def disconnect_internal_def Let_def)

text \<open>
  Outside a switch a reconnection stops the program: an adapter that is still up is disconnected through the switch
  transaction, which is null; one that is down refuses, and the retry, which has cleared the transaction, is refused
  again and looks for it.
\<close>

lemma reconnect_crashes:
  assumes "switch_tx W = None" "k < length (mAdapters W)" "2 \<le> length ws"
  shows "reconnect_run ws (int k) (None, W) = Inl Null_dereference"
proof -
  obtain w w' ws' where ws: "ws = w # w' # ws'" using assms(3) by (cases ws; cases "tl ws") auto
  have n: "\<not> switch_ongoing (world_impl v V)" if "switch_tx V = None" for v V using that by (simp add: world_impl_def)
  let ?a = "mAdapters W ! k"
  show ?thesis
  proof (cases "mState ?a = kDisconnected \<or> mState ?a = kDisconnecting")
    case False
    then show ?thesis
      using assms(1,2) disconnect_needs_switch [OF n [OF assms(1)], of ?a "Some Reconnect"]
      by (simp add: reconnect_run_def reconnect_start_def ws on_adapter_def)
  next
    case True
    let ?b = "emit (Callback Reconnect False) ?a"
    define W1 where "W1 = W\<lparr>mAdapters := (mAdapters W)[k := ?b]\<rparr>"
    have 1: "on_adapter (int k) (disconnect_on_failure (Some Reconnect) v) W = Inr ([(Reconnect, False)], W1)" for v
      using on_adapter_nat [where f = "disconnect_on_failure (Some Reconnect) v", OF assms(2) disconnect_on_failure_refused [OF True]]
      by (simp add: W1_def)
    have a1: "mAdapters W1 ! k = ?b" "k < length (mAdapters W1)" using assms(2) by (simp_all add: W1_def)
    have "mState ?b = kDisconnected \<or> mState ?b = kDisconnecting" using True by simp
    note b = disconnect_on_failure_refused [OF this]
    have 2: "on_adapter (int k) (disconnect_on_failure (Some Reconnect) v) W1
        = Inr ([(Reconnect, False)], W1\<lparr>mAdapters := (mAdapters W1)[k := emit (Callback Reconnect False) ?b]\<rparr>)" for v
      using on_adapter_nat [where f = "disconnect_on_failure (Some Reconnect) v", OF a1(2)] b a1(1) by simp
    show ?thesis by (simp add: reconnect_run_def reconnect_start_def ws 1 2)
  qed
qed

end
