(* ===== verification/ControlTyping.thy ===== *)
theory ControlTyping
  imports NetworkMonitor Reconnect
begin

text \<open>
  The control side as one system: every operation that the API, the monitor and the peer start on the
  shared state is a step, and the indices that pass between the core, the monitor and the switcher are typed by the
  adapters they may name. \<open>Core::get_adapter\<close> asserts that its index names an adapter; the typing shows where
  that assertion cannot fail.
\<close>

section \<open>Outcomes\<close>

text \<open>An outcome is sound for \<open>P\<close> when no assertion failed and what was returned satisfies \<open>P\<close>.\<close>

definition sound :: "('a \<Rightarrow> bool) \<Rightarrow> fault + 'a \<Rightarrow> bool" where
  "sound P r = (case r of Inl e \<Rightarrow> e \<noteq> Assertion_failure | Inr x \<Rightarrow> P x)"

lemma sound_simps [simp]: "sound P (Inr x) = P x" "sound P (Inl e) = (e \<noteq> Assertion_failure)"
  by (simp_all add: sound_def)

lemma sound_and_then: "sound P r \<Longrightarrow> (\<And>x. P x \<Longrightarrow> sound Q (f x)) \<Longrightarrow> sound Q (and_then r f)"
  by (cases r) auto

lemma sound_weaken: "sound P r \<Longrightarrow> (\<And>x. P x \<Longrightarrow> Q x) \<Longrightarrow> sound Q r"
  by (cases r) auto

lemma sound_fold:
  "(\<And>x s. x \<in> set xs \<Longrightarrow> P s \<Longrightarrow> sound P (f x s)) \<Longrightarrow> P s \<Longrightarrow> sound P (fold_ok f xs s)"
  by (induction xs arbitrary: s) (auto intro!: sound_and_then)

lemma soundD: "sound P r \<Longrightarrow> r = Inr x \<Longrightarrow> P x"
  by simp

section \<open>Typed adapters\<close>

text \<open>
  An adapter of the core keeps its id and, once it was registered, its two threads. An operation is typed when it
  keeps that and fails no assertion.
\<close>

definition registered :: "i32 \<Rightarrow> callback adapter \<Rightarrow> bool" where
  "registered i a \<longleftrightarrow> mId a = i \<and> mSenderThread a \<noteq> None \<and> mReceiverThread a \<noteq> None"

definition typed_op :: "(callback adapter \<Rightarrow> fault + callback adapter) \<Rightarrow> bool" where
  "typed_op f \<longleftrightarrow> (\<forall>i a. registered i a \<longrightarrow> sound (registered i) (f a))"

lemma registered_updates [simp]:
  "registered i (emit e a) = registered i a"
  "registered i (set_state s a) = registered i a"
  "registered i (call_if_set cb b a) = registered i a"
  "registered i (a\<lparr>mConnectCallback := c\<rparr>) = registered i a"
  "registered i (a\<lparr>mDisconnectCallback := c\<rparr>) = registered i a"
  "registered i (a\<lparr>mDevice := d\<rparr>) = registered i a"
  "registered i (a\<lparr>mP2PServer := p\<rparr>) = registered i a"
  "registered i (a\<lparr>mServerSocket := so\<rparr>) = registered i a"
  "registered i (a\<lparr>mIsDisconnectingOnPurpose := b\<rparr>) = registered i a"
  "registered i (a\<lparr>mIsDisconnectingOnPurposePeer := b\<rparr>) = registered i a"
  "registered i (disable_loops st a) = registered i a"
  "registered i (peer_knows_disconnecting_on_purpose a) = registered i a"
  by (auto simp: registered_def emit_def set_state_def call_if_set_def disable_loops_def
      peer_knows_disconnecting_on_purpose_def split: option.splits)

lemma registered_threads [simp]:
  "registered i a \<Longrightarrow> registered i (a\<lparr>mSenderThread := Some s\<rparr>)"
  "registered i a \<Longrightarrow> registered i (a\<lparr>mReceiverThread := Some r\<rparr>)"
  "registered i a \<Longrightarrow> registered i (a\<lparr>mSenderThread := Some s, mReceiverThread := Some r\<rparr>)"
  by (simp_all add: registered_def)

lemma call_typed: "typed_op (call cb b)"
  by (auto simp: typed_op_def call_def split: option.splits)

lemma sleep_typed: "typed_op (sleep cb req)"
  by (auto simp: typed_op_def sleep_def Let_def split: option.splits)

lemma wake_up_typed: "typed_op (wake_up cb req)"
  by (auto simp: typed_op_def wake_up_def split: option.splits)

lemma finish_thread_typed: "typed_op finish_thread"
  by (auto simp: typed_op_def finish_thread_def split: option.splits)

lemma connect_stages_typed: "registered i a \<Longrightarrow> sound (\<lambda>(res, a'). registered i a') (connect_stages w a)"
  by (auto simp: connect_stages_def Let_def update_sender_def update_receiver_def split: option.splits prod.splits)

lemma connect_typed: "typed_op (connect cb w)"
proof -
  have "sound (registered i) (connect_internal cb w a)" if "registered i a" for i a
    unfolding connect_internal_def
    by (rule sound_and_then [OF connect_stages_typed [of i]]) (use that in \<open>auto simp: Let_def\<close>)
  then show ?thesis using call_typed by (auto simp: typed_op_def connect_def)
qed

lemma take_down_typed [simp]:
  "registered i a \<Longrightarrow> registered i (snd (take_down_socket w a))"
  "registered i a \<Longrightarrow> registered i (snd (take_down_p2p w a))"
  "registered i a \<Longrightarrow> registered i (snd (take_down_device w a))"
  by (auto simp: take_down_socket_def take_down_p2p_def take_down_device_def split: option.splits prod.splits)

lemma wait_loops_typed: "typed_op (wait_sender_loop_ends w)" "typed_op (wait_receiver_loop_ends w)"
  by (auto simp: typed_op_def wait_sender_loop_ends_def wait_receiver_loop_ends_def split: option.splits)

lemma disconnect_stages_typed:
  assumes "registered i a" shows "sound (\<lambda>(res, a'). registered i a') (disconnect_stages st w a)"
proof -
  obtain ok1 a1 where 1: "take_down_socket w (disable_loops st a) = (ok1, a1)" by fastforce
  obtain ok2 a2 where 2: "take_down_p2p w a1 = (ok2, a2)" by fastforce
  obtain ok3 a3 where 3: "take_down_device w a2 = (ok3, a3)" by fastforce
  have r: "registered i a1" "registered i a2" "registered i a3"
    using take_down_typed(1) [of i "disable_loops st a" w] take_down_typed(2) [of i a1 w]
      take_down_typed(3) [of i a2 w] assms by (simp_all add: 1 2 3)
  show ?thesis
    using r wait_loops_typed
    by (auto simp: disconnect_stages_def 1 2 3 typed_op_def intro!: sound_and_then [where P = "registered i"])
qed

lemma disconnect_internal_typed: "registered i a \<Longrightarrow> sound (registered i) (disconnect_internal cb w a)"
  unfolding disconnect_internal_def Let_def
  by (rule sound_and_then [where P = "\<lambda>_. True"], simp add: require_def)
    (rule sound_and_then [OF disconnect_stages_typed [of i]], auto)

lemma wait_for_sleeping_typed: "registered i a \<Longrightarrow> sound (\<lambda>(b, a'). registered i a') (wait_for_sleeping w a)"
  by (auto simp: wait_for_sleeping_def)

lemma disconnect_typed:
  "typed_op (disconnect_on_command cb w)"
  "typed_op (disconnect_on_peer_command cb c d w)"
  "typed_op (disconnect_on_failure cb w)"
  unfolding typed_op_def disconnect_on_command_def disconnect_on_peer_command_def
  by (auto intro!: sound_and_then [OF wait_for_sleeping_typed] disconnect_internal_typed
      simp: call_typed [unfolded typed_op_def] disconnect_on_failure_def split: option.splits)

lemma connect_or_wake_up_typed: "typed_op (connect_or_wake_up cb req w)"
  using connect_typed wake_up_typed by (auto simp: typed_op_def connect_or_wake_up_def)

lemmas typed_ops = sleep_typed wake_up_typed finish_thread_typed connect_typed disconnect_typed connect_or_wake_up_typed

section \<open>Typed worlds\<close>

text \<open>
  \<open>ids\<close> are the adapters of the core, by position. An index is typed when it names one of them; the
  selected adapter and both ends of a switch under way have to be.
\<close>

definition names :: "i32 list \<Rightarrow> int \<Rightarrow> bool" where
  "names ids k \<longleftrightarrow> 0 \<le> k \<and> k < int (length ids)"

definition typed :: "i32 list \<Rightarrow> world \<Rightarrow> bool" where
  "typed ids W \<longleftrightarrow>
     list_all2 registered ids (mAdapters W)
     \<and> (if ids = [] then mActiveAdapterIndex W = 0 else names ids (mActiveAdapterIndex W))
     \<and> (case switch_tx W of None \<Rightarrow> True | Some (p, n) \<Rightarrow> names ids p \<and> names ids n)"

definition typed_step :: "(world \<Rightarrow> fault + world) \<Rightarrow> bool" where
  "typed_step f \<longleftrightarrow> (\<forall>ids W. typed ids W \<longrightarrow> sound (typed ids) (f W))"

lemma typed_stepD: "typed_step f \<Longrightarrow> typed ids W \<Longrightarrow> sound (typed ids) (f W)"
  by (simp add: typed_step_def)

lemma typed_length: "typed ids W \<Longrightarrow> length (mAdapters W) = length ids"
  by (auto simp: typed_def list_all2_lengthD)

lemma typed_updates [simp]:
  "typed ids (W\<lparr>mCoreState := cs\<rparr>) = typed ids W"
  "typed ids (W\<lparr>mNSState := ns\<rparr>) = typed ids W"
  "typed ids (W\<lparr>connect_tx := ct\<rparr>) = typed ids W"
  "typed ids (W\<lparr>start_tx := b\<rparr>) = typed ids W"
  "typed ids (W\<lparr>stop_tx := st\<rparr>) = typed ids W"
  "typed ids (W\<lparr>receiving_thread := b\<rparr>) = typed ids W"
  "typed ids (W\<lparr>monitoring := b\<rparr>) = typed ids W"
  "typed ids (W\<lparr>logging := b\<rparr>) = typed ids W"
  "typed ids (W\<lparr>start_sc_done := bs\<rparr>) = typed ids W"
  "typed ids (W\<lparr>stop_sc_done := bs\<rparr>) = typed ids W"
  "typed ids W \<Longrightarrow> typed ids (W\<lparr>switch_tx := None\<rparr>)"
  "typed ids W \<Longrightarrow> typed ids (done_switch W)"
  by (auto simp: typed_def done_switch_def split: ns_state.splits)

lemma typed_select: "typed ids W \<Longrightarrow> names ids k \<Longrightarrow> typed ids (W\<lparr>mActiveAdapterIndex := k\<rparr>)"
  by (auto simp: typed_def names_def)

lemma typed_switch:
  "typed ids W \<Longrightarrow> names ids p \<Longrightarrow> names ids n \<Longrightarrow> typed ids (W\<lparr>switch_tx := Some (p, n)\<rparr>)"
  by (auto simp: typed_def)

lemma typed_set_adapter:
  "typed ids W \<Longrightarrow> names ids k \<Longrightarrow> registered (ids ! nat k) a \<Longrightarrow>
    typed ids (W\<lparr>mAdapters := (mAdapters W)[nat k := a]\<rparr>)"
  by (auto simp: typed_def names_def list_all2_conv_all_nth nth_list_update)

lemma get_adapter_typed: "typed ids W \<Longrightarrow> names ids k \<Longrightarrow> sound (registered (ids ! nat k)) (get_adapter k W)"
  by (auto simp: typed_def names_def get_adapter_def list_all2_conv_all_nth)

lemma on_adapter_typed:
  "typed_op f \<Longrightarrow> typed ids W \<Longrightarrow> names ids k \<Longrightarrow> sound (\<lambda>(cbs, W'). typed ids W') (on_adapter k f W)"
  unfolding on_adapter_def
  by (rule sound_and_then [OF get_adapter_typed], assumption+, rule sound_and_then [where P = "registered (ids ! nat k)"])
    (auto simp: typed_op_def intro: typed_set_adapter)

lemma on_adapter_then:
  assumes "typed_op f" "typed ids W" "names ids k" and "\<And>cbs W'. typed ids W' \<Longrightarrow> sound Q (g (cbs, W'))"
  shows "sound Q (and_then (on_adapter k f W) g)"
  by (rule sound_and_then [OF on_adapter_typed [OF assms(1-3)]]) (use assms(4) in auto)

lemma find_index_lt: "find_index i as = Some k \<Longrightarrow> k < length as"
  by (induction as arbitrary: k) (auto split: if_splits)

lemma find_adapter_named: "typed ids W \<Longrightarrow> find_adapter_by_id i W = Some k \<Longrightarrow> names ids (int k)"
  using find_index_lt [of i "mAdapters W" k] typed_length [of ids W] by (simp add: find_adapter_by_id_def names_def)

section \<open>Switching\<close>

lemma switch_done_typed: "typed_step (switch_done b)"
  by (auto simp: typed_step_def switch_done_def typed_def done_switch_def names_def split: option.splits ns_state.splits if_splits)

lemma run_disconnect_typed: "typed_step (run_disconnect_callbacks cbs)"
  unfolding typed_step_def run_disconnect_callbacks_def disconnect_prev_adapter_callback_def
  by (auto intro!: sound_fold typed_stepD [OF switch_done_typed])

lemma typed_ends: "typed ids W \<Longrightarrow> switch_tx W = Some (p, n) \<Longrightarrow> names ids p \<and> names ids n"
  by (simp add: typed_def)

lemma sleep_prev_callback_typed: "typed_step (sleep_prev_adapter_callback w b)"
  unfolding typed_step_def
proof (intro allI impI)
  fix ids W assume t: "typed ids W"
  note d = typed_stepD [OF switch_done_typed t]
  show "sound (typed ids) (sleep_prev_adapter_callback w b W)"
  proof (cases "b \<and> switch_tx W \<noteq> None")
    case True
    then obtain p n where tx: "switch_tx W = Some (p, n)" by auto
    have p: "names ids p" using typed_ends [OF t tx] by simp
    have k: "typed ids (W\<lparr>mAdapters := (mAdapters W)[nat p := set_state kSleeping prev]\<rparr>)"
      if "registered (ids ! nat p) prev" for prev
      using typed_set_adapter [OF t p] that by simp
    show ?thesis
      using True d k t p
      by (auto simp: sleep_prev_adapter_callback_def tx Let_def
          intro!: sound_and_then [OF get_adapter_typed [OF t p]] on_adapter_then [OF disconnect_typed(1)]
            typed_stepD [OF run_disconnect_typed])
  qed (auto simp: sleep_prev_adapter_callback_def d split: option.splits)
qed

lemma run_sleep_typed: "typed_step (run_sleep_callbacks w cbs)"
  unfolding typed_step_def run_sleep_callbacks_def
  by (auto intro!: sound_fold typed_stepD [OF sleep_prev_callback_typed])

lemma sleep_prev_typed: "typed ids W \<Longrightarrow> names ids k \<Longrightarrow> sound (typed ids) (sleep_prev w k W)"
  unfolding sleep_prev_def
  by (auto intro!: on_adapter_then [OF sleep_typed] typed_stepD [OF run_sleep_typed])

lemma connect_next_callback_typed: "typed_step (connect_next_adapter_callback w b)"
  unfolding typed_step_def
proof (intro allI impI)
  fix ids W assume t: "typed ids W"
  note d = typed_stepD [OF switch_done_typed t]
  show "sound (typed ids) (connect_next_adapter_callback w b W)"
  proof (cases "switch_tx W")
    case (Some pn)
    then obtain p n where tx: "switch_tx W = Some (p, n)" by (cases pn) auto
    have p: "names ids p" using typed_ends [OF t tx] by simp
    show ?thesis
      using d sleep_prev_typed [OF _ p] t
      by (auto simp: connect_next_adapter_callback_def tx
          intro!: sound_and_then [OF get_adapter_typed [OF t p]] sound_and_then [OF typed_stepD [OF sleep_prev_callback_typed t]])
  qed (simp add: connect_next_adapter_callback_def)
qed

lemma run_connect_typed: "typed_step (run_connect_callbacks w cbs)"
  unfolding typed_step_def run_connect_callbacks_def
  by (auto intro!: sound_fold typed_stepD [OF connect_next_callback_typed])

lemma switch_start_typed: "typed_step (switch_start wn wp)"
  unfolding typed_step_def
proof (intro allI impI)
  fix ids W assume t: "typed ids W"
  show "sound (typed ids) (switch_start wn wp W)"
  proof (cases "switch_tx W")
    case (Some pn)
    then obtain p n where tx: "switch_tx W = Some (p, n)" by (cases pn) auto
    have n: "names ids n" using typed_ends [OF t tx] by simp
    show ?thesis
      using typed_stepD [OF switch_done_typed t] typed_stepD [OF connect_next_callback_typed t] t n
      by (auto simp: switch_start_def tx intro!: sound_and_then [OF get_adapter_typed [OF t n]]
          on_adapter_then [OF connect_or_wake_up_typed] typed_stepD [OF run_connect_typed])
  qed (simp add: switch_start_def)
qed

lemma switch_adapters_typed:
  assumes "typed ids W" "names ids p" "names ids n"
  shows "sound (\<lambda>(res, W'). typed ids W') (switch_adapters p n wn wp W)"
  unfolding switch_adapters_def switch_run_def
  using assms typed_switch [of ids "W\<lparr>mNSState := kNSStateSwitching\<rparr>" p n]
  by (auto intro!: sound_and_then [OF typed_stepD [OF switch_start_typed]])

section \<open>The operations of the core, the monitor and the peer\<close>

text \<open>An operation on an adapter that returned has named one, whatever index it was given.\<close>

lemma on_adapter_keeps:
  assumes "on_adapter k f W = Inr (cbs, W')" "typed_op f" "typed ids W"
  shows "typed ids W'"
proof -
  have "names ids k"
    using assms(1) typed_length [OF assms(3)]
    by (auto simp: on_adapter_def and_then_eq_Inr get_adapter_def names_def split: if_splits)
  from on_adapter_typed [OF assms(2,3) this] show ?thesis using assms(1) by simp
qed

lemma done_typed [simp]:
  "typed ids W \<Longrightarrow> typed ids (connect_request_done W)"
  "typed ids (done_start b W) = typed ids W"
  "typed ids (start_transaction_done b W) = typed ids W"
  "typed ids (done_stop b W) = typed ids W"
  "typed ids (stop_transaction_done b W) = typed ids W"
  by (simp_all add: connect_request_done_def done_start_def start_transaction_done_def done_stop_def stop_transaction_done_def)

lemma core_start_typed: "typed_step (core_start r w)"
  unfolding typed_step_def
proof (intro allI impI)
  fix ids W assume t: "typed ids W"
  have "names ids 0" if "mAdapters W \<noteq> []" using typed_length [OF t] that by (cases ids) (auto simp: names_def)
  then show "sound (typed ids) (core_start r w W)"
    using t by (auto simp: core_start_def start_transaction_run_def start_transaction_start_def
        connect_first_adapter_callback_def intro!: on_adapter_then [OF connect_typed] sound_fold)
qed

lemma stop_one_typed:
  assumes "typed ids W" "k < length ids" shows "sound (typed ids) (stop_one ws k W)"
proof -
  have n: "names ids (int k)" using assms(2) by (simp add: names_def)
  have "sound (typed ids) (disconnect_adapter_callback k b V)" if "typed ids V" for b V
    using that unfolding disconnect_adapter_callback_def
    by (auto simp: Let_def intro!: on_adapter_then [OF finish_thread_typed _ n] split: option.splits)
  then show ?thesis
    using assms(1) by (auto simp: stop_one_def intro!: on_adapter_then [OF disconnect_typed(1) _ n] sound_fold)
qed

lemma core_stop_typed: "typed_step (core_stop ws)"
  unfolding typed_step_def
proof (intro allI impI)
  fix ids W assume t: "typed ids W"
  then show "sound (typed ids) (core_stop ws W)"
    using typed_length [OF t]
    by (auto simp: core_stop_def stop_transaction_run_def stop_transaction_start_def intro!: sound_fold stop_one_typed)
qed

lemma typed_selected: "typed ids W \<Longrightarrow> mAdapters W \<noteq> [] \<Longrightarrow> names ids (mActiveAdapterIndex W)"
  by (auto simp: typed_def split: if_splits)

lemma neighbours_typed:
  assumes t: "typed ids W"
  shows "sound (\<lambda>(res, W'). typed ids W') (increase_adapter wn wp W)"
    "sound (\<lambda>(res, W'). typed ids W') (decrease_adapter wn wp W)"
proof -
  have *: "get_adapter_count W = int (length ids)" "mAdapters W = [] \<longleftrightarrow> ids = []"
    using typed_length [OF t] by (auto simp: get_adapter_count_def)
  show "sound (\<lambda>(res, W'). typed ids W') (increase_adapter wn wp W)"
    using t typed_selected [OF t] *
    by (auto simp: increase_adapter_def is_increaseable_def names_def intro!: switch_adapters_typed)
  show "sound (\<lambda>(res, W'). typed ids W') (decrease_adapter wn wp W)"
    using t typed_selected [OF t] *
    by (auto simp: decrease_adapter_def is_decreaseable_def names_def intro!: switch_adapters_typed)
qed

lemma find_adapter_updates [simp]:
  "find_adapter_by_id i (W\<lparr>mNSState := ns\<rparr>) = find_adapter_by_id i W"
  "find_adapter_by_id i (W\<lparr>connect_tx := ct\<rparr>) = find_adapter_by_id i W"
  by (simp_all add: find_adapter_by_id_def)

lemma connect_by_peer_typed: "typed_step (connect_adapter_by_peer i w)"
  unfolding typed_step_def connect_adapter_by_peer_def connect_request_run_def Let_def
  by (auto intro!: on_adapter_then [OF connect_typed] sound_fold simp: connect_callback_def
      dest: find_adapter_named split: option.splits)

lemma disconnect_by_peer_typed: "typed_step (disconnect_adapter_by_peer i c d w)"
  unfolding typed_step_def disconnect_adapter_by_peer_def
  by (auto intro!: on_adapter_then [OF disconnect_typed(2)] dest: find_adapter_named split: option.splits)

lemma sleep_by_peer_keeps: "sleep_adapter_by_peer i W = Inr W' \<Longrightarrow> typed ids W \<Longrightarrow> typed ids W'"
  by (auto simp: sleep_adapter_by_peer_def and_then_eq_Inr dest: on_adapter_keeps [OF _ sleep_typed] split: if_splits)

lemma wake_up_by_peer_keeps: "wake_up_adapter_by_peer i W = Inr W' \<Longrightarrow> typed ids W \<Longrightarrow> typed ids W'"
  by (auto simp: wake_up_adapter_by_peer_def and_then_eq_Inr dest: on_adapter_keeps [OF _ wake_up_typed] split: if_splits)

text \<open>The reconnection of an adapter: it may be given any index, and keeps the typing as far as it gets.\<close>

lemma reconnect_callbacks_keep:
  "reconnect_callbacks ws cbs (tx, W) = Inr (tx', W') \<Longrightarrow> typed ids W \<Longrightarrow> typed ids W'"
proof (induction ws cbs "(tx, W)" arbitrary: tx W rule: reconnect_callbacks.induct)
  case (4 w ws cb is_success cbs target W)
  then show ?case
    by (auto simp: and_then_eq_Inr split: if_splits
        dest: on_adapter_keeps [OF _ connect_typed] on_adapter_keeps [OF _ disconnect_typed(3)])
qed auto

lemma reconnect_keeps:
  assumes "reconnect_adapter ws k retry ready (tx, W) = Inr (res, tx', W')" "typed ids W"
  shows "typed ids W'"
proof -
  have "typed ids W2" if "reconnect_start ws k (t, V) = Inr (tx2, W2)" "typed ids V" for t V tx2 W2
    using that by (auto simp: reconnect_start_def and_then_eq_Inr split: list.splits
        dest!: on_adapter_keeps [OF _ disconnect_typed(3)] reconnect_callbacks_keep)
  then show ?thesis
    using assms by (auto simp: reconnect_adapter_def reconnect_run_def and_then_eq_Inr split: if_splits)
qed

section \<open>Every history of the control side is typed\<close>

text \<open>\<open>Core\<close>'s and \<open>NetworkSwitcher\<close>'s constructors, and the transactions' null pointers.\<close>

definition core_ctor :: world where
  "core_ctor = \<lparr>mAdapters = [], mActiveAdapterIndex = 0, mCoreState = kCoreStateIdle,
     mNSState = kNSStateReady, switch_tx = None, connect_tx = None, start_tx = False, stop_tx = None,
     receiving_thread = False, monitoring = False, logging = False, start_sc_done = [], stop_sc_done = []\<rparr>"

text \<open>
  One step of the control side: a registration, a start or a stop, a switch that the monitor asks for, a command
  of the peer, a reconnection. Whatever a policy answered is its argument \<open>b\<close>; the hooks
  of the adapter plugins set a threshold of their socket and nothing that is modelled here.
\<close>

inductive control_step :: "world \<Rightarrow> world \<Rightarrow> bool" where
  Register: "control_step W (register_adapter u v a W)"
| Start: "core_start r w W = Inr W' \<Longrightarrow> control_step W W'"
| Stop: "core_stop ws W = Inr W' \<Longrightarrow> control_step W W'"
| Increase: "increase_adapter wn wp W = Inr (res, W') \<Longrightarrow> control_step W W'"
| Decrease: "decrease_adapter wn wp W = Inr (res, W') \<Longrightarrow> control_step W W'"
| Check: "check_and_decide_switching (\<lambda>now st i d s. Inr (b, s)) (\<lambda>prev_id next_id a. a) now st wn wp (Some ()) W
      = Inr (policy, W') \<Longrightarrow> control_step W W'"
| Peer: "dispatch m w (W, sm) = Inr (W', sm') \<Longrightarrow> control_step W W'"
| Reconnect: "reconnect_adapter ws k retry ready (tx, W) = Inr (res, tx', W') \<Longrightarrow> control_step W W'"

inductive control_reachable :: "world \<Rightarrow> bool" where
  Begin: "control_reachable core_ctor"
| Step: "control_reachable W \<Longrightarrow> control_step W W' \<Longrightarrow> control_reachable W'"

lemma register_typed:
  assumes "typed ids W"
  shows "typed (if mCoreState W \<noteq> kCoreStateIdle then ids else ids @ [mId a]) (register_adapter u v a W)"
proof -
  have r: "registered (mId a) (launch_threads u v a)"
    by (simp add: registered_def launch_threads_def Let_def)
  have n: "names ids k \<Longrightarrow> names (ids @ [mId a]) k" for k by (simp add: names_def)
  show ?thesis
    using assms r n by (auto simp: register_adapter_def typed_def names_def intro!: list_all2_appendI split: option.splits if_splits)
qed

lemma dispatch_keeps:
  assumes "dispatch m w (W, sm) = Inr (W', sm')" "typed ids W" shows "typed ids W'"
proof -
  have p: "typed_op (\<lambda>a. Inr (peer_knows_disconnecting_on_purpose a))" by (simp add: typed_op_def)
  note keep = soundD [OF typed_stepD [OF connect_by_peer_typed]] soundD [OF typed_stepD [OF disconnect_by_peer_typed]]
    sleep_by_peer_keeps wake_up_by_peer_keeps on_adapter_keeps [OF _ p]
  show ?thesis
    using assms by (auto simp: dispatch_def and_then_eq_Inr split: control_message.splits cm_code.splits option.splits
        intro: keep)
qed

lemma check_keeps:
  assumes "check_and_decide_switching (\<lambda>now st i d s. Inr (b, s)) (\<lambda>prev_id next_id a. a) now st wn wp (Some ()) W
      = Inr (policy, W')" "typed ids W"
  shows "typed ids W'"
  using assms soundD [OF neighbours_typed(1) [OF assms(2)]] soundD [OF neighbours_typed(2) [OF assms(2)]]
  by (auto simp: check_and_decide_switching_def Let_def cancel_preparing_switch_def and_then_eq_Inr
      split: switch_behavior.splits)

lemma control_step_typed: "control_step W W' \<Longrightarrow> typed ids W \<Longrightarrow> \<exists>ids'. typed ids' W'"
proof (induction rule: control_step.induct)
  case (Register W u v a)
  show ?case using register_typed [OF Register, of a u v] by blast
next
  case (Start r w W W') show ?case using soundD [OF typed_stepD [OF core_start_typed Start(2)] Start(1)] by blast
next
  case (Stop ws W W') show ?case using soundD [OF typed_stepD [OF core_stop_typed Stop(2)] Stop(1)] by blast
next
  case (Increase wn wp W res W') show ?case using soundD [OF neighbours_typed(1) [OF Increase(2)] Increase(1)] by auto
next
  case (Decrease wn wp W res W') show ?case using soundD [OF neighbours_typed(2) [OF Decrease(2)] Decrease(1)] by auto
qed (blast intro: check_keeps dispatch_keeps reconnect_keeps)+

lemma control_typed: "control_reachable W \<Longrightarrow> \<exists>ids. typed ids W"
proof (induction rule: control_reachable.induct)
  case Begin
  have "typed [] core_ctor" by (simp add: typed_def core_ctor_def)
  then show ?case by blast
qed (blast dest: control_step_typed)

lemma on_adapter_asserts:
  assumes "typed_op f" "typed ids W"
  shows "on_adapter k f W = Inl Assertion_failure \<longleftrightarrow> \<not> names ids k"
proof (cases "names ids k")
  case True
  then show ?thesis using on_adapter_typed [OF assms True] by (cases "on_adapter k f W") auto
next
  case False
  then show ?thesis using typed_length [OF assms(2)] by (auto simp: on_adapter_def get_adapter_def names_def)
qed

lemma by_index_asserts:
  assumes "typed ids W"
  shows "sleep_adapter_by_peer i W = Inl Assertion_failure \<longleftrightarrow> mNSState W = kNSStateReady \<and> \<not> names ids (sint i)"
    "wake_up_adapter_by_peer i W = Inl Assertion_failure \<longleftrightarrow> mNSState W = kNSStateReady \<and> \<not> names ids (sint i)"
  using assms ns_state.exhaust [of "mNSState W"]
  by (auto simp: sleep_adapter_by_peer_def wake_up_adapter_by_peer_def and_then_eq_Inl
      on_adapter_asserts [OF sleep_typed] on_adapter_asserts [OF wake_up_typed])

lemma sound_no_assertion: "sound P r \<Longrightarrow> r \<noteq> Inl Assertion_failure"
  by auto

text \<open>
  C7: the indices of the control side are typed. In every state that registrations, starts, stops, switches of the
  monitor, commands of the peer and reconnections can reach, the selected adapter exists as soon as one is registered, and
  with it both ends of a switch under way; no start, stop, switch, connection or disconnection
  fails the assertion of \<open>get_adapter\<close>. The commands to sleep and to wake up, which take the peer's id for an
  index, fail it exactly when that is no index.
\<close>

theorem control_indices_typed:
  assumes "control_reachable W"
  shows "(mAdapters W \<noteq> [] \<longrightarrow> get_active_adapter W = Inr (mAdapters W ! nat (mActiveAdapterIndex W)))
    \<and> (\<forall>p n. switch_tx W = Some (p, n) \<longrightarrow> is_ok (get_adapter p W) \<and> is_ok (get_adapter n W))
    \<and> core_start r w W \<noteq> Inl Assertion_failure \<and> core_stop ws W \<noteq> Inl Assertion_failure
    \<and> increase_adapter wn wp W \<noteq> Inl Assertion_failure \<and> decrease_adapter wn wp W \<noteq> Inl Assertion_failure
    \<and> connect_adapter_by_peer i w W \<noteq> Inl Assertion_failure
    \<and> disconnect_adapter_by_peer i c d w W \<noteq> Inl Assertion_failure
    \<and> (sleep_adapter_by_peer i W = Inl Assertion_failure
        \<longleftrightarrow> mNSState W = kNSStateReady \<and> \<not> (0 \<le> sint i \<and> sint i < int (length (mAdapters W))))
    \<and> (wake_up_adapter_by_peer i W = Inl Assertion_failure
        \<longleftrightarrow> mNSState W = kNSStateReady \<and> \<not> (0 \<le> sint i \<and> sint i < int (length (mAdapters W))))"
proof -
  obtain ids where t: "typed ids W" using control_typed [OF assms] by blast
  note l = typed_length [OF t]
  have g: "names ids k \<Longrightarrow> get_adapter k W = Inr (mAdapters W ! nat k)" for k
    using l by (auto simp: names_def get_adapter_def)
  show ?thesis
    using g typed_selected [OF t] typed_ends [OF t] by_index_asserts [OF t, of i] l
      sound_no_assertion [OF typed_stepD [OF core_start_typed t]] sound_no_assertion [OF typed_stepD [OF core_stop_typed t]]
      sound_no_assertion [OF neighbours_typed(1) [OF t]] sound_no_assertion [OF neighbours_typed(2) [OF t]]
      sound_no_assertion [OF typed_stepD [OF connect_by_peer_typed t]]
      sound_no_assertion [OF typed_stepD [OF disconnect_by_peer_typed t]]
    by (intro conjI) (auto simp: get_active_adapter_def names_def [of ids])
qed

text \<open>One adapter registered; the peer asks for the adapter with the id 7, which is no index, to sleep.\<close>

theorem control_indices_typed_witness:
  "sleep_adapter_by_peer 7 (register_adapter example_sender (loop_thread.truncate example_sender)
     (adapter_ctor 7 (counter_ctor 0 True 0 0)) core_ctor) = Inl Assertion_failure"
proof -
  let ?W = "register_adapter example_sender (loop_thread.truncate example_sender)
     (adapter_ctor 7 (counter_ctor 0 True 0 0)) core_ctor"
  have "control_reachable ?W" by (rule control_reachable.Step [OF Begin Register])
  from control_indices_typed [OF this, of _ _ _ _ _ 7] show ?thesis
    by (simp add: register_adapter_def core_ctor_def)
qed

end
