(* ===== verification/SwitchRuns.thy ===== *)
theory SwitchRuns
  imports NetworkMonitor
begin

text \<open>
  The control side over a whole run: the checks of the monitor, with the user's events between them. A world
  is \<open>fit\<close> when one adapter carries the traffic and all others stand by; the checks keep it so and refine a
  machine that knows only the policy and the index of the active adapter.
\<close>

section \<open>Fit worlds\<close>

definition unpaused :: "callback adapter \<Rightarrow> bool" where
  "unpaused a \<longleftrightarrow> (\<forall>s. mSenderThread a = Some s \<longrightarrow> \<not> is_loop_paused s)"

definition stands_by :: "callback adapter \<Rightarrow> bool" where
  "stands_by a \<longleftrightarrow> idle_adapter a \<and> unpaused a"

definition fit :: "world \<Rightarrow> bool" where
  "fit W \<longleftrightarrow> switch_tx W = None \<and> mNSState W = kNSStateReady
     \<and> 0 \<le> mActiveAdapterIndex W \<and> mActiveAdapterIndex W < int (length (mAdapters W))
     \<and> (\<forall>k<length (mAdapters W). if int k = mActiveAdapterIndex W then active_adapter (mAdapters W ! k)
          else stands_by (mAdapters W ! k))"

text \<open>Plugins that come up, that go down again after a failure, and under which the previous adapter is taken down.\<close>

definition comes_up :: "impl \<Rightarrow> bool" where
  "comes_up w \<longleftrightarrow> turn_on_ok w \<and> allow_ok w \<and> open_ok w"

definition backs_out :: "impl \<Rightarrow> bool" where
  "backs_out w \<longleftrightarrow> turn_off_ok w \<and> disallow_ok w"

definition goes_down :: "impl \<Rightarrow> bool" where
  "goes_down w \<longleftrightarrow> falls_asleep w \<and> sender_loop_ends w \<and> receiver_loop_ends w
     \<and> close_ok w \<and> disallow_ok w \<and> turn_off_ok w"

lemma loops_disabled_standby:
  assumes "mState a = kDisconnected" "all_down a" "loops_disabled a"
  shows "stands_by a"
  using assms by (auto simp: stands_by_def idle_adapter_def unpaused_def loops_disabled_def has_threads_def)

lemma connected_is_active:
  assumes "mState a' = kActive" "all_up a'" "loops_enabled a'" "unpaused a"
    and "mSenderThread a' = map_option (\<lambda>s. s\<lparr>is_loop_enabled := True\<rparr>) (mSenderThread a)"
  shows "active_adapter a'"
  using assms by (auto simp: active_adapter_def loops_enabled_def has_threads_def unpaused_def)

lemma failed_stands_by:
  assumes "mState a' = kDisconnected" "all_down a'" "stands_by a"
    and "mSenderThread a' = mSenderThread a" "mReceiverThread a' = mReceiverThread a"
  shows "stands_by a'"
  using assms by (simp add: stands_by_def idle_adapter_def unpaused_def has_threads_def)

text \<open>One switch from the active adapter to another.\<close>

lemma fit_switch:
  assumes W: "fit W" and n: "0 \<le> n" "n < int (length (mAdapters W))" "n \<noteq> mActiveAdapterIndex W"
    and w: "backs_out wn" "goes_down wp"
  shows "\<exists>W'. switch_adapters (mActiveAdapterIndex W) n wn wp W = Inr (True, W') \<and> fit W'
    \<and> length (mAdapters W') = length (mAdapters W)
    \<and> mActiveAdapterIndex W' = (if comes_up wn then n else mActiveAdapterIndex W)"
proof -
  define p q where "p = nat (mActiveAdapterIndex W)" and "q = nat n"
  have ix: "mActiveAdapterIndex W = int p" "n = int q" and pq: "p < length (mAdapters W)" "q < length (mAdapters W)" "q \<noteq> p"
    using W n by (auto simp: fit_def p_def q_def)
  have all: "\<forall>k<length (mAdapters W). if k = p then active_adapter (mAdapters W ! k) else stands_by (mAdapters W ! k)"
    using W ix(1) by (auto simp: fit_def)
  then have act: "active_adapter (mAdapters W ! p)" and sb: "stands_by (mAdapters W ! q)"
    using pq by auto
  have tx: "switch_tx W = None" using W by (simp add: fit_def)
  have idle: "idle_adapter (mAdapters W ! q)" using sb by (simp add: stands_by_def)
  have dn: "close_ok wp" "disallow_ok wp" "turn_off_ok wp" "falls_asleep wp" "sender_loop_ends wp" "receiver_loop_ends wp"
    using w(2) by (simp_all add: goes_down_def)
  note out = switch_outcome [OF tx pq(2) idle pq(1) act dn(4-6), of wn]
  show ?thesis
  proof (cases "comes_up wn")
    case True
    then have up: "turn_on_ok wn \<and> allow_ok wn \<and> open_ok wn" by (simp add: comes_up_def)
    from out up dn(1-3) obtain W' an ap where
      s: "switch_adapters (int p) (int q) wn wp W = Inr (True, W')" "switch_tx W' = None" "mNSState W' = kNSStateReady"
      "mAdapters W' = (mAdapters W)[q := an, p := ap]" "mActiveAdapterIndex W' = int q"
      and an: "mState an = kActive" "all_up an" "loops_enabled an"
        "mSenderThread an = map_option (\<lambda>s. s\<lparr>is_loop_enabled := True\<rparr>) (mSenderThread (mAdapters W ! q))"
      and ap: "loops_disabled ap" "mState ap = kDisconnected" "all_down ap" by auto
    have "active_adapter an" using sb connected_is_active [OF an(1-3) _ an(4)] by (simp add: stands_by_def)
    moreover have "stands_by ap" using ap by (simp add: loops_disabled_standby)
    ultimately have "fit W'" using all s pq by (auto simp: fit_def nth_list_update)
    then show ?thesis using s True ix by simp
  next
    case False
    then have up: "(turn_on_ok wn \<and> allow_ok wn \<and> open_ok wn) = False" by (simp add: comes_up_def)
    from out w(1) obtain W' an where
      s: "switch_adapters (int p) (int q) wn wp W = Inr (True, W')" "switch_tx W' = None" "mNSState W' = kNSStateReady"
      "mAdapters W' = (mAdapters W)[q := an]" "mActiveAdapterIndex W' = mActiveAdapterIndex W"
      and an: "mState an = kDisconnected" "all_down an" "mSenderThread an = mSenderThread (mAdapters W ! q)"
        "mReceiverThread an = mReceiverThread (mAdapters W ! q)" unfolding up by (auto simp: backs_out_def)
    have "stands_by an" by (rule failed_stands_by [OF an(1,2) sb an(3,4)])
    then have "fit W'" using all s pq ix by (auto simp: fit_def nth_list_update)
    then show ?thesis using s False ix by simp
  qed
qed

section \<open>The abstract machine\<close>

text \<open>
  What the monitor is given over time: a check with its time, its statistics and the plugins of the adapter that
  it may switch to, or an event of the user.
\<close>

datatype monitor_input = Check timeval stats impl | User_event string

text \<open>One input on the detailed side, \<open>event\<close> being the policy's \<open>on_custom_event\<close>. Cancelling a preparation touches no adapter state.\<close>

fun monitor_input_step ::
    "'s decision \<Rightarrow> (string \<Rightarrow> 's \<Rightarrow> 's) \<Rightarrow> impl \<Rightarrow> monitor_input \<Rightarrow> 's option \<times> world \<Rightarrow> fault + 's option \<times> world" where
  "monitor_input_step decide event wp (Check now st wn) (policy, W) =
     check_and_decide_switching decide (\<lambda>prev_id next_id a. a) now st wn wp policy W"
| "monitor_input_step decide event wp (User_event e) (policy, W) = Inr (map_option (event e) policy, W)"

text \<open>The abstract machine with \<open>n\<close> adapters: the state of the policy and the index of the active adapter.\<close>

fun abstract_step ::
    "'s decision \<Rightarrow> (string \<Rightarrow> 's \<Rightarrow> 's) \<Rightarrow> nat \<Rightarrow> monitor_input \<Rightarrow> 's \<times> int \<Rightarrow> fault + 's \<times> int" where
  "abstract_step decide event n (Check now st wn) (s, m) =
     and_then (decide now st (m + 1 < int n) (0 < m) s) (\<lambda>(b, s1).
       Inr (s1, case target b m n of Some k \<Rightarrow> if comes_up wn then k else m | None \<Rightarrow> m))"
| "abstract_step decide event n (User_event e) (s, m) = Inr (event e s, m)"

fun plugins_back_out :: "monitor_input \<Rightarrow> bool" where
  "plugins_back_out (Check now st wn) = backs_out wn"
| "plugins_back_out (User_event e) = True"

text \<open>What a detailed outcome must be, given the abstract one.\<close>

definition implements :: "nat \<Rightarrow> fault + 's option \<times> world \<Rightarrow> fault + 's \<times> int \<Rightarrow> bool" where
  "implements n r q = (case q of
     Inl e \<Rightarrow> r = Inl e
   | Inr (s, m) \<Rightarrow> (case r of Inl e \<Rightarrow> False
       | Inr (policy, W) \<Rightarrow> policy = Some s \<and> fit W \<and> length (mAdapters W) = n \<and> mActiveAdapterIndex W = m))"

lemma implements_Inl [simp]: "implements n r (Inl e) \<longleftrightarrow> r = Inl e"
  by (simp add: implements_def)

lemma implements_Inr:
  "implements n r (Inr (s, m)) \<longleftrightarrow>
     (\<exists>W. r = Inr (Some s, W) \<and> fit W \<and> length (mAdapters W) = n \<and> mActiveAdapterIndex W = m)"
  by (auto simp: implements_def split: sum.splits)

lemma fit_range:
  assumes "fit W"
  shows "0 \<le> mActiveAdapterIndex W" "mActiveAdapterIndex W < int (length (mAdapters W))"
  using assms by (simp_all add: fit_def)

text \<open>One input is simulated.\<close>

lemma step_implements:
  assumes W: "fit W" and i: "plugins_back_out i" and wp: "goes_down wp"
  shows "implements (length (mAdapters W)) (monitor_input_step decide event wp i (Some s, W))
     (abstract_step decide event (length (mAdapters W)) i (s, mActiveAdapterIndex W))"
proof (cases i)
  case (User_event e)
  then show ?thesis using W by (simp add: implements_Inr)
next
  case (Check now st wn)
  let ?m = "mActiveAdapterIndex W" and ?n = "length (mAdapters W)"
  note r = fit_range [OF W]
  note moves = monitor_moves_to_neighbour [OF r, of decide "\<lambda>prev_id next_id a. a" now st wn wp s]
  show ?thesis
  proof (cases "decide now st (is_increaseable W) (is_decreaseable W) s")
    case (Inl e)
    then show ?thesis using moves Check by (simp add: directions [OF r])
  next
    case (Inr bs)
    obtain b s1 where d: "decide now st (?m + 1 < int ?n) (0 < ?m) s = Inr (b, s1)"
      using Inr by (cases bs) (simp add: directions [OF r])
    show ?thesis
    proof (cases "target b ?m ?n")
      case None
      then show ?thesis using moves d W Check
        by (simp add: directions [OF r] implements_Inr cancel_preparing_switch_def)
    next
      case (Some k)
      have k: "0 \<le> k" "k < int ?n" "k \<noteq> ?m" using target_in_range [OF Some r] by auto
      have "backs_out wn" using i Check by simp
      from fit_switch [OF W k this wp] show ?thesis
        using moves d Some Check by (auto simp: directions [OF r] implements_Inr)
    qed
  qed
qed

lemma runs_implement:
  assumes "fit W" "\<forall>i\<in>set is. plugins_back_out i" "goes_down wp"
  shows "implements (length (mAdapters W)) (fold_ok (monitor_input_step decide event wp) is (Some s, W))
     (fold_ok (abstract_step decide event (length (mAdapters W))) is (s, mActiveAdapterIndex W))"
  using assms(1,2)
proof (induction "is" arbitrary: s W)
  case Nil
  then show ?case by (simp add: implements_Inr)
next
  case (Cons i "is")
  let ?n = "length (mAdapters W)"
  have st: "implements ?n (monitor_input_step decide event wp i (Some s, W))
     (abstract_step decide event ?n i (s, mActiveAdapterIndex W))"
    using step_implements Cons.prems assms(3) by fastforce
  show ?case
  proof (cases "abstract_step decide event ?n i (s, mActiveAdapterIndex W)")
    case (Inl e)
    then show ?thesis using st by simp
  next
    case (Inr sm)
    then obtain W1 where "monitor_input_step decide event wp i (Some s, W) = Inr (Some (fst sm), W1)"
      "fit W1" "length (mAdapters W1) = ?n" "mActiveAdapterIndex W1 = snd sm"
      using st by (cases sm) (auto simp: implements_Inr)
    then show ?thesis using Inr Cons.IH [of W1 "fst sm"] Cons.prems(2) by simp
  qed
qed

section \<open>Properties\<close>

text \<open>
  C6: over a whole run the monitor and the switcher refine the abstract machine. From a world where one adapter
  is active and all others stand by, every sequence of checks and events of the user, under any policy, has the outcome of
  the machine that knows only the policy's state and the active index: the same fault of the policy, or the same state of the
  policy and the same index, in a world where again that adapter is active and all others stand by. A next adapter that does not come
  up is tried in vain; it stands by again and the index stays. The plugins of the previous adapter take it down,
  and those of an adapter that does not come up turn it off again.
\<close>

theorem checks_refine_index_machine:
  assumes "fit W" "\<forall>i\<in>set is. plugins_back_out i" "goes_down wp"
  shows "case fold_ok (abstract_step decide event (length (mAdapters W))) is (s, mActiveAdapterIndex W) of
      Inl e \<Rightarrow> fold_ok (monitor_input_step decide event wp) is (Some s, W) = Inl e
    | Inr (s', m) \<Rightarrow> \<exists>W'. fold_ok (monitor_input_step decide event wp) is (Some s, W) = Inr (Some s', W')
        \<and> fit W' \<and> length (mAdapters W') = length (mAdapters W) \<and> mActiveAdapterIndex W' = m"
  using runs_implement [OF assms, of decide event s]
  by (auto simp: implements_Inr split: sum.splits)

text \<open>The fifth check with a full queue tries a next adapter that does not come up; five checks later it is tried again.\<close>

definition quiet_stats :: stats where
  "quiet_stats = \<lparr>ema_queue_arrival_speed = 0, now_total_bandwidth = 0, ema_send_request_size = 0, ema_arrival_time_us = 0,
     now_queue_data_size = 0, ema_send_rtt = 0, ema_media_rtt = 0\<rparr>"

definition full_queue :: stats where
  "full_queue = quiet_stats\<lparr>now_queue_data_size := 20000\<rparr>"

lemma example_world_fit: "fit (example_world [active_example 1, idle_example 2])"
  using example_adapters
  by (auto simp: fit_def example_world_def nth_Cons stands_by_def unpaused_def idle_example_def example_sender_def split: nat.splits)

lemma all_fine_plugins: "comes_up all_fine" "backs_out all_fine" "goes_down all_fine"
  by (simp_all add: comes_up_def backs_out_def goes_down_def all_fine_def)

theorem checks_refine_index_machine_witness:
  "\<exists>s W'. fold_ok (monitor_input_step throughput_decide (\<lambda>e s. s) all_fine)
      (replicate 4 (Check (0, 0) full_queue all_fine) @ [User_event ''bt'', Check (0, 0) full_queue (all_fine\<lparr>open_ok := False\<rparr>)]
        @ replicate 5 (Check (0, 0) full_queue all_fine))
      (Some throughput_ctor, example_world [active_example 1, idle_example 2]) = Inr (Some s, W')
    \<and> fit W' \<and> mActiveAdapterIndex W' = 1"
proof -
  let ?W = "example_world [active_example 1, idle_example 2]"
  let ?is = "replicate 4 (Check (0, 0) full_queue all_fine) @ [User_event ''bt'', Check (0, 0) full_queue (all_fine\<lparr>open_ok := False\<rparr>)]
        @ replicate 5 (Check (0, 0) full_queue all_fine)"
  have b: "\<forall>i\<in>set ?is. plugins_back_out i" by (simp add: all_fine_def backs_out_def)
  have "fold_ok (abstract_step throughput_decide (\<lambda>e s. s) (length (mAdapters ?W))) ?is (throughput_ctor, mActiveAdapterIndex ?W)
      = Inr (throughput_ctor\<lparr>mWFDMode := True\<rparr>, 1)"
    by (simp add: numeral_eq_Suc example_world_def throughput_decide_def throughput_step_def throughput_thresholds throughput_ctor_def
        full_queue_def quiet_stats_def target_def comes_up_def all_fine_def Let_def)
  with checks_refine_index_machine [OF example_world_fit b all_fine_plugins(3), of throughput_decide "\<lambda>e s. s" throughput_ctor]
  show ?thesis by auto
qed

end
