(* ===== verification/Runner.thy ===== *)
theory Runner
  imports Workload MonitorLog ControlTyping HistoryBased SwitchRuns
begin

text \<open>
  The experiment programs: the adapters they register (linux/device/inc/BtServerAdapter.h and WfdServerAdapter.h), the
  arguments of their \<open>main\<close> (linux/exp/*_runner.cpp) and the run of \<open>TraceRunner\<close> around the workload (TraceRunner.cpp). The
  initialization of the network is in theory \<open>WfdServer\<close>; the text of a latency is an argument.
\<close>

section \<open>The two adapters\<close>

text \<open>The components of both adapters start down. The objects are made once; these are their first constructions.\<close>

definition bt_server_adapter :: "i32 \<Rightarrow> counter \<Rightarrow> callback adapter" where
  "bt_server_adapter i c = initialize (Some kOff) (Some kDisallowed) (Some kClosed) (adapter_ctor i c)"

definition wfd_server_adapter :: "i32 \<Rightarrow> counter \<Rightarrow> callback adapter" where
  "wfd_server_adapter i c = initialize (Some kOff) (Some kDisallowed) (Some kClosed) (adapter_ctor i c)"

text \<open>
  The hooks of the Bluetooth adapter set the throttling threshold of its socket: \<open>Some True\<close> is the one for a switch,
  \<open>Some False\<close> the normal one, \<open>None\<close> leaves it. Those of the Wi-Fi Direct adapter do nothing.
\<close>

definition bt_prepare_switch :: "i32 \<Rightarrow> i32 \<Rightarrow> i32 \<Rightarrow> bool option" where
  "bt_prepare_switch own prev_id next_id =
     (if prev_id = own then Some True else if next_id = own then Some False else None)"

definition bt_cancel_preparing_switch :: "i32 \<Rightarrow> i32 \<Rightarrow> i32 \<Rightarrow> bool option" where
  "bt_cancel_preparing_switch own prev_id next_id =
     (if prev_id = own then Some False else if next_id = own then Some False else None)"

section \<open>The programs\<close>

text \<open>The file names, from the program's arguments (its own name first); \<open>None\<close> is the usage message and the exit code -1.\<close>

definition parse_arguments :: "string list \<Rightarrow> (string \<times> string) option" where
  "parse_arguments argv =
     (if length argv \<noteq> 3 \<and> length argv \<noteq> 1 then None
      else if length argv = 1 then Some (''final-packet-trace.csv'', ''final-event-trace.csv'')
      else Some (argv ! 1, argv ! 2))"

text \<open>
  The five programs differ in the policy. What \<open>main\<close> makes before it starts the run: the file names, whether an event waits for
  the packets before it, and the policy; that of the history-based one reads its own table.
\<close>

definition runner_main :: "'p \<Rightarrow> string list \<Rightarrow> (string \<times> string \<times> bool \<times> 'p) option" where
  "runner_main switch_policy argv =
     map_option (\<lambda>(packet_trace_filename, event_trace_filename).
       (packet_trace_filename, event_trace_filename, True, switch_policy)) (parse_arguments argv)"

definition app_manual_runner :: "string list \<Rightarrow> (string \<times> string \<times> bool \<times> app_manual_policy) option" where
  "app_manual_runner = runner_main app_manual_ctor"

definition bt_only_runner :: "string list \<Rightarrow> (string \<times> string \<times> bool \<times> unit) option" where
  "bt_only_runner = runner_main ()"

definition wfd_only_runner :: "string list \<Rightarrow> (string \<times> string \<times> bool \<times> wfd_only_policy) option" where
  "wfd_only_runner = runner_main wfd_only_ctor"

definition throughput_aware_runner :: "string list \<Rightarrow> (string \<times> string \<times> bool \<times> throughput_policy) option" where
  "throughput_aware_runner = runner_main throughput_ctor"

definition history_based_runner ::
    "nat \<Rightarrow> string \<Rightarrow> string option \<Rightarrow> string list \<Rightarrow> (string \<times> string \<times> bool \<times> (fault + history_policy) option) option" where
  "history_based_runner bl fresh file = runner_main (history_ctor bl fresh file)"

text \<open>
  \<open>u\<close> and \<open>v\<close> are what the memory of the new threads held. The listener 0 is the runner.
\<close>

definition register_adapters :: "sender_thread \<Rightarrow> loop_thread \<Rightarrow> counter \<Rightarrow> world \<Rightarrow> world" where
  "register_adapters u v c W =
     register_adapter u v (listen_state (Some 0) (wfd_server_adapter 1 c))
       (register_adapter u v (listen_state (Some 0) (bt_server_adapter 0 c)) W)"

definition runner_start ::
    "string \<Rightarrow> sender_thread \<Rightarrow> loop_thread \<Rightarrow> counter \<Rightarrow> bool \<Rightarrow> impl \<Rightarrow> world \<Rightarrow> fault + bool \<times> world" where
  "runner_start packet_trace_filename u v c is_root w W =
     (if packet_trace_filename = [] then Inl Assertion_failure
      else start_sc True False is_root w (register_adapters u v c W))"

datatype run_effect =
    Logged string
  | Receiving_thread_started
  | Slept_seconds nat
  | Performed effect
  | Policy_event string
  | Printed string

text \<open>What the latencies are printed as; both printed lines are also events of the log.\<close>

definition latency_line :: "string \<Rightarrow> string" where
  "latency_line l = ''Total average latency(send RTT): '' @ l @ ''us'' @ [nl]"

definition warm_up :: "run_effect list" where
  "warm_up = [Performed (Sent send_test_data), Slept_seconds 5, Performed (Sent send_test_data), Slept_seconds 5]"

definition report_latency :: "string \<Rightarrow> run_effect list" where
  "report_latency l = [Printed (latency_line l), Logged (latency_line l)]"

text \<open>
  \<open>on_start_sc\<close>: what was done, and how it ended. \<open>bl\<close> and \<open>fresh\<close> are the block length and the memory of the readers.
\<close>

definition on_start_sc ::
    "nat \<Rightarrow> string \<Rightarrow> string \<times> string option \<Rightarrow> string \<times> string option \<Rightarrow> bool \<Rightarrow> bool \<Rightarrow> string \<Rightarrow> string
     \<Rightarrow> (nat \<Rightarrow> impl) \<Rightarrow> bool \<Rightarrow> world \<Rightarrow> (run_effect list \<times> (fault + world)) option" where
  "on_start_sc bl fresh packet_trace event_trace is_wait drains l1 l2 ws is_success W =
     (if \<not> is_success then Some ([Printed ''[ERROR] Failed to initialize!''], Inr W)
      else
       (let start = Logged (take 255 (''Packet Trace: '' @ fst packet_trace @ '' / Event Trace: '' @ fst event_trace))
              # Receiving_thread_started # warm_up
        in case send_workload bl fresh (snd packet_trace) (snd event_trace) is_wait drains of
          None \<Rightarrow> None
        | Some (Inl e) \<Rightarrow> Some (start, Inl e)
        | Some (Inr w) \<Rightarrow>
           (let W1 = W\<lparr>logging := False, monitoring := False\<rparr>
            in Some (start @ map Performed (effects w) @ [Policy_event []] @ report_latency l1 @ [Slept_seconds 120]
                       @ report_latency l2 @ [Slept_seconds 400],
                     map_sum id snd (stop_sc True False ws W1)))))"

definition run_program ::
    "nat \<Rightarrow> string \<Rightarrow> string \<times> string option \<Rightarrow> string \<times> string option \<Rightarrow> bool \<Rightarrow> bool \<Rightarrow> string \<Rightarrow> string \<Rightarrow> sender_thread \<Rightarrow> loop_thread
     \<Rightarrow> counter \<Rightarrow> bool \<Rightarrow> impl \<Rightarrow> (nat \<Rightarrow> impl) \<Rightarrow> world \<Rightarrow> (run_effect list \<times> (fault + world)) option" where
  "run_program bl fresh packet_trace event_trace is_wait drains l1 l2 u v c is_root w ws W =
     (case runner_start (fst packet_trace) u v c is_root w W of
        Inl e \<Rightarrow> Some ([], Inl e)
      | Inr (is_success, W1) \<Rightarrow> on_start_sc bl fresh packet_trace event_trace is_wait drains l1 l2 ws is_success W1)"

section \<open>A whole experiment\<close>

lemma stop_without_logging_hangs: "stop_sc True False ws W = Inl Would_block"
  by (simp add: stop_sc_def Let_def)

text \<open>Both adapters are registered, Bluetooth first.\<close>

lemma registered_world:
  "\<exists>a b. register_adapters u v c core_ctor = core_ctor\<lparr>mAdapters := [a, b]\<rparr>
    \<and> mId a = 0 \<and> mId b = 1 \<and> stands_by a \<and> stands_by b"
  by (simp add: stands_by_def unpaused_def idle_adapter_def register_adapters_def register_adapter_def core_ctor_def
      launch_threads_def Let_def listen_state_def bt_server_adapter_def wfd_server_adapter_def initialize_def
      adapter_ctor_def all_down_def has_threads_def sender_thread_ctor_def)

lemma runner_start_outcome:
  assumes "pf \<noteq> []"
  shows "if comes_up w
    then \<exists>W'. runner_start pf u v c True w core_ctor = Inr (True, W') \<and> fit W' \<and> length (mAdapters W') = 2
      \<and> mActiveAdapterIndex W' = 0
    else runner_start pf u v c True w core_ctor = Inl Would_block"
proof -
  obtain a b where r: "register_adapters u v c core_ctor = core_ctor\<lparr>mAdapters := [a, b]\<rparr>" "stands_by a" "stands_by b"
    using registered_world [of u v c] by blast
  let ?W = "core_ctor\<lparr>mAdapters := [a, b]\<rparr>"
  have "mCoreState ?W = kCoreStateIdle" "\<not> start_tx ?W" "mAdapters ?W = a # [b]" "idle_adapter a"
    using r(2) by (simp_all add: core_ctor_def stands_by_def)
  note out = start_sc_outcome [OF this, of w True False]
  have rs: "runner_start pf u v c True w core_ctor = start_sc True False True w ?W"
    using assms by (simp add: runner_start_def r(1))
  show ?thesis
  proof (cases "comes_up w")
    case True
    with out obtain a' W' where s: "start_sc True False True w ?W = Inr (True, W')" "mAdapters W' = a' # [b]"
      "mState a' = kActive" "all_up a'" "loops_enabled a'"
      "mSenderThread a' = map_option (\<lambda>s. s\<lparr>is_loop_enabled := True\<rparr>) (mSenderThread a)"
      "switch_tx W' = None" "mNSState W' = kNSStateReady" "mActiveAdapterIndex W' = 0"
      by (auto simp: comes_up_def core_ctor_def)
    have "active_adapter a'" using connected_is_active [OF s(3-5) _ s(6)] r(2) by (simp add: stands_by_def)
    with s r(3) have "fit W'" by (auto simp: fit_def nth_Cons split: nat.splits)
    with True s rs show ?thesis by simp
  next
    case False
    with out rs show ?thesis by (simp add: comes_up_def)
  qed
qed



end
