(* ===== verification/AsyncReader.thy ===== *)
theory AsyncReader
  imports LineReader
begin

text \<open>
  The thread that reads ahead (\<open>io::detail::AsynchronousReader\<close>, linux/common/inc/csv.h). The two threads share the buffer, a request and
  an answer under one mutex: what a thread does between two waits is one step. The line reader of theory \<open>LineReader\<close>
  asks for its blocks without a thread; the simulation says that the threaded one
  returns the same lines under every schedule, and never waits for ever.
\<close>

section \<open>The shared state\<close>

text \<open>Where the worker is: able to go on, asleep in the wait for a request, or returned.\<close>

datatype worker_thread = Worker_runs | Worker_waits | Worker_ended

text \<open>The buffer and the byte source are in the line reader; no request and no answer yet are \<open>-1\<close>.\<close>

record threaded_reader =
  tr_reader :: line_reader
  desired_byte_count :: int
  read_byte_count :: int
  termination_requested :: bool
  worker :: worker_thread

definition notify_worker :: "threaded_reader \<Rightarrow> threaded_reader" where
  "notify_worker t = t\<lparr>worker := (if worker t = Worker_waits then Worker_runs else worker t)\<rparr>"

definition async_init :: "threaded_reader \<Rightarrow> threaded_reader" where
  "async_init t = t\<lparr>desired_byte_count := - 1, termination_requested := False, worker := Worker_runs\<rparr>"

definition start_read :: "nat \<Rightarrow> threaded_reader \<Rightarrow> threaded_reader" where
  "start_read n t = notify_worker (t\<lparr>desired_byte_count := int n, read_byte_count := - 1\<rparr>)"

text \<open>One turn of the worker. After an answer it waits for the next request, and after an empty one it returns.\<close>

definition worker_round :: "nat \<Rightarrow> threaded_reader \<Rightarrow> threaded_reader option" where
  "worker_round bl t =
     (if worker t \<noteq> Worker_runs then None
      else if desired_byte_count t = - 1 \<and> \<not> termination_requested t then Some (t\<lparr>worker := Worker_waits\<rparr>)
      else if termination_requested t then Some (t\<lparr>worker := Worker_ended\<rparr>)
      else case lr_source (tr_reader t) of None \<Rightarrow> None
      | Some src \<Rightarrow>
         (case read_source (nat (desired_byte_count t)) src of (got, rest) \<Rightarrow>
            Some (t\<lparr>tr_reader := (tr_reader t)\<lparr>lr_buffer := put_bytes (2 * bl) got (lr_buffer (tr_reader t)), lr_source := Some rest\<rparr>,
              read_byte_count := int (length got), desired_byte_count := - 1,
              worker := (if got = [] then Worker_ended else Worker_waits)\<rparr>)))"

text \<open>What may happen while the line reader is elsewhere: turns of the worker, and wake-ups for no reason.\<close>

inductive meanwhile :: "nat \<Rightarrow> threaded_reader \<Rightarrow> threaded_reader \<Rightarrow> bool" for bl where
  Nothing: "meanwhile bl t t"
| Round: "meanwhile bl t t1 \<Longrightarrow> worker_round bl t1 = Some t2 \<Longrightarrow> meanwhile bl t t2"
| Spurious: "meanwhile bl t t1 \<Longrightarrow> worker t1 = Worker_waits \<Longrightarrow> meanwhile bl t (t1\<lparr>worker := Worker_runs\<rparr>)"

text \<open>\<open>None\<close> is a call that has to wait for the answer.\<close>

definition finish_read :: "threaded_reader \<Rightarrow> int option" where
  "finish_read t = (if read_byte_count t \<noteq> - 1 then Some (read_byte_count t) else None)"

text \<open>The destructor asks the worker to return and joins it.\<close>

definition request_termination :: "threaded_reader \<Rightarrow> threaded_reader" where
  "request_termination t =
     (if lr_source (tr_reader t) = None then t else notify_worker (t\<lparr>termination_requested := True\<rparr>))"

section \<open>The line reader on it\<close>

text \<open>\<open>u\<close> is what the members hold that the constructor of the reader leaves; without a source there is no worker.\<close>

definition threaded_init :: "nat \<Rightarrow> string \<Rightarrow> string \<Rightarrow> threaded_reader \<Rightarrow> threaded_reader" where
  "threaded_init bl fresh contents u =
     (let t = u\<lparr>tr_reader := line_reader_init bl fresh contents\<rparr>
      in if lr_source (tr_reader t) = None then t\<lparr>worker := Worker_ended\<rparr> else start_read bl (async_init t))"

text \<open>The first half of \<open>next_line\<close>, up to the call of \<open>finish_read\<close>; the result says whether there is one.\<close>

definition half_shift :: "nat \<Rightarrow> line_reader \<Rightarrow> line_reader" where
  "half_shift bl r = r\<lparr>lr_buffer := put_bytes 0 (bytes_at bl bl (lr_buffer r)) (lr_buffer r),
                       data_begin := data_begin r - bl, data_end := data_end r - bl\<rparr>"

definition threaded_begin :: "nat \<Rightarrow> threaded_reader \<Rightarrow> fault + bool \<times> threaded_reader" where
  "threaded_begin bl t =
     (let r1 = (tr_reader t)\<lparr>file_line := file_line (tr_reader t) + 1\<rparr> in
      and_then (require (data_begin r1 < data_end r1) Assertion_failure) (\<lambda>_.
      and_then (require (data_end r1 \<le> bl * 2) Assertion_failure) (\<lambda>_.
      if bl \<le> data_begin r1 then Inr (lr_source r1 \<noteq> None, t\<lparr>tr_reader := half_shift bl r1\<rparr>)
      else Inr (False, t\<lparr>tr_reader := r1\<rparr>))))"

text \<open>The rest of the shift, once the answer is there.\<close>

definition append_block :: "nat \<Rightarrow> nat \<Rightarrow> line_reader \<Rightarrow> line_reader" where
  "append_block bl n r = r\<lparr>data_end := data_end r + n,
     lr_buffer := put_bytes bl (bytes_at (2 * bl) bl (lr_buffer r)) (lr_buffer r)\<rparr>"

definition threaded_shift :: "nat \<Rightarrow> threaded_reader \<Rightarrow> threaded_reader option" where
  "threaded_shift bl t =
     map_option (\<lambda>n. start_read bl (t\<lparr>tr_reader := append_block bl (nat n) (tr_reader t)\<rparr>)) (finish_read t)"

definition threaded_cut :: "nat \<Rightarrow> threaded_reader \<Rightarrow> fault + string option \<times> threaded_reader" where
  "threaded_cut bl t = and_then (cut_line bl (tr_reader t)) (\<lambda>(l, r). Inr (l, t\<lparr>tr_reader := r\<rparr>))"

text \<open>A call of \<open>next_line\<close>, under any schedule: the worker may go on before it, while it waits, and while it cuts.\<close>

inductive threaded_line :: "nat \<Rightarrow> threaded_reader \<Rightarrow> fault + string option \<times> threaded_reader \<Rightarrow> bool" for bl where
  At_end: "meanwhile bl t t1 \<Longrightarrow> data_begin (tr_reader t1) = data_end (tr_reader t1) \<Longrightarrow> threaded_line bl t (Inr (None, t1))"
| Failed: "meanwhile bl t t1 \<Longrightarrow> data_begin (tr_reader t1) \<noteq> data_end (tr_reader t1) \<Longrightarrow> threaded_begin bl t1 = Inl e
    \<Longrightarrow> threaded_line bl t (Inl e)"
| In_data: "meanwhile bl t t1 \<Longrightarrow> data_begin (tr_reader t1) \<noteq> data_end (tr_reader t1) \<Longrightarrow> threaded_begin bl t1 = Inr (False, t2)
    \<Longrightarrow> meanwhile bl t2 t3 \<Longrightarrow> threaded_line bl t (threaded_cut bl t3)"
| Next_block: "meanwhile bl t t1 \<Longrightarrow> data_begin (tr_reader t1) \<noteq> data_end (tr_reader t1) \<Longrightarrow> threaded_begin bl t1 = Inr (True, t2)
    \<Longrightarrow> meanwhile bl t2 t3 \<Longrightarrow> threaded_shift bl t3 = Some t4 \<Longrightarrow> meanwhile bl t4 t5
    \<Longrightarrow> threaded_line bl t (threaded_cut bl t5)"

text \<open>At most \<open>n\<close> calls, as long as there are lines.\<close>

inductive threaded_lines :: "nat \<Rightarrow> nat \<Rightarrow> threaded_reader \<Rightarrow> fault + string list \<times> threaded_reader \<Rightarrow> bool" for bl where
  Enough: "threaded_lines bl 0 t (Inr ([], t))"
| Fault: "threaded_line bl t (Inl e) \<Longrightarrow> threaded_lines bl (Suc n) t (Inl e)"
| No_more: "threaded_line bl t (Inr (None, t1)) \<Longrightarrow> threaded_lines bl (Suc n) t (Inr ([], t1))"
| Line: "threaded_line bl t (Inr (Some l, t1)) \<Longrightarrow> threaded_lines bl n t1 (Inr (ls, t2))
    \<Longrightarrow> threaded_lines bl (Suc n) t (Inr (l # ls, t2))"
| Later_fault: "threaded_line bl t (Inr (Some l, t1)) \<Longrightarrow> threaded_lines bl n t1 (Inl e)
    \<Longrightarrow> threaded_lines bl (Suc n) t (Inl e)"

section \<open>The simulation relation\<close>

text \<open>
  \<open>r\<close> is the reader without a thread. A block that the worker has read is in the third part of the buffer
  and no longer in the source; a worker that has returned leaves a request that nobody will finish.
\<close>

definition ahead :: "nat \<Rightarrow> string \<Rightarrow> line_reader \<Rightarrow> line_reader" where
  "ahead bl src r = r\<lparr>lr_buffer := put_bytes (2 * bl) (take bl src) (lr_buffer r), lr_source := Some (drop bl src)\<rparr>"

definition requested :: "nat \<Rightarrow> line_reader \<Rightarrow> threaded_reader \<Rightarrow> bool" where
  "requested bl r t \<longleftrightarrow> tr_reader t = r \<and> desired_byte_count t = int bl \<and> read_byte_count t = - 1 \<and> worker t = Worker_runs"

definition answered :: "nat \<Rightarrow> string \<Rightarrow> line_reader \<Rightarrow> threaded_reader \<Rightarrow> bool" where
  "answered bl src r t \<longleftrightarrow> tr_reader t = ahead bl src r \<and> desired_byte_count t = - 1
     \<and> read_byte_count t = int (length (take bl src)) \<and> (worker t = Worker_ended \<longleftrightarrow> src = [])"

definition deserted :: "nat \<Rightarrow> string \<Rightarrow> line_reader \<Rightarrow> threaded_reader \<Rightarrow> bool" where
  "deserted bl src r t \<longleftrightarrow> tr_reader t = r \<and> src = [] \<and> read_byte_count t = - 1 \<and> worker t = Worker_ended
     \<and> (data_end r \<le> bl \<or> data_begin r = data_end r)"

definition tracks :: "nat \<Rightarrow> line_reader \<Rightarrow> threaded_reader \<Rightarrow> bool" where
  "tracks bl r t \<longleftrightarrow> 0 < bl \<and> length (lr_buffer r) = 3 * bl \<and>
     (case lr_source r of None \<Rightarrow> tr_reader t = r \<and> worker t = Worker_ended
      | Some src \<Rightarrow> \<not> termination_requested t \<and> (requested bl r t \<or> answered bl src r t \<or> deserted bl src r t))"

lemma tracks_init:
  assumes "2 \<le> bl" "length fresh = 3 * bl"
  shows "tracks bl (line_reader_init bl fresh contents) (threaded_init bl fresh contents u)"
proof -
  have "length (lr_buffer (line_reader_init bl fresh contents)) = 3 * bl"
    using init_ok(1) [OF assms(2,1), of contents] by (simp add: reader_ok_def)
  then show ?thesis
    using assms(1) by (auto simp: tracks_def threaded_init_def Let_def start_read_def async_init_def notify_worker_def
        requested_def split: option.splits)
qed

lemma tracks_round:
  assumes "tracks bl r t" "worker_round bl t = Some t'" shows "tracks bl r t'"
proof (cases "lr_source r")
  case None
  then show ?thesis using assms by (simp add: tracks_def worker_round_def)
next
  case (Some src)
  then consider "requested bl r t" | "answered bl src r t" | "deserted bl src r t"
    using assms(1) by (auto simp: tracks_def)
  then show ?thesis
  proof cases
    case 1
    then have "answered bl src r t'" "termination_requested t' = termination_requested t"
      using assms Some by (auto simp: tracks_def requested_def worker_round_def read_source_def answered_def ahead_def split: if_splits)
    then show ?thesis using assms(1) Some by (simp add: tracks_def)
  next
    case 2
    then show ?thesis using assms Some
      by (auto simp: tracks_def worker_round_def answered_def split: if_splits)
  next
    case 3
    then show ?thesis using assms(2) by (simp add: worker_round_def deserted_def)
  qed
qed

lemma tracks_meanwhile: "meanwhile bl t t' \<Longrightarrow> tracks bl r t \<Longrightarrow> tracks bl r t'"
proof (induction rule: meanwhile.induct)
  case (Spurious t t1)
  then show ?case
    by (auto simp: tracks_def requested_def answered_def deserted_def split: option.splits)
qed (auto intro: tracks_round)

section \<open>Each part of a call\<close>

text \<open>The line reader's own shift, cut into the parts of the threaded one.\<close>

definition fetch_block :: "nat \<Rightarrow> string \<Rightarrow> line_reader \<Rightarrow> line_reader" where
  "fetch_block bl src r = append_block bl (length (take bl src)) (ahead bl src r)"

lemma shift_blocks_parts:
  "shift_blocks bl r = (if bl \<le> data_begin r then case lr_source r of None \<Rightarrow> half_shift bl r
      | Some src \<Rightarrow> fetch_block bl src (half_shift bl r) else r)"
  by (auto simp: shift_blocks_def half_shift_def fetch_block_def append_block_def ahead_def read_source_def Let_def
      split: option.splits)

lemma put_bytes_disjoint:
  assumes "o1 + length x \<le> o2" "o2 + length y \<le> length b"
  shows "put_bytes o1 x (put_bytes o2 y b) = put_bytes o2 y (put_bytes o1 x b)"
proof -
  have l: "length (put_bytes o1 x b) = length b" "length (put_bytes o2 y b) = length b" using assms by simp_all
  show ?thesis
    using assms l by (intro nth_equalityI) (auto simp: nth_put_bytes)
qed

lemma half_shift_ahead:
  assumes "length (lr_buffer r) = 3 * bl"
  shows "half_shift bl (ahead bl src r) = ahead bl src (half_shift bl r)"
proof -
  have "bytes_at bl bl (put_bytes (2 * bl) (take bl src) (lr_buffer r)) = bytes_at bl bl (lr_buffer r)"
    using assms by (intro bytes_at_put_other) auto
  moreover have "put_bytes 0 (bytes_at bl bl (lr_buffer r)) (put_bytes (2 * bl) (take bl src) (lr_buffer r))
      = put_bytes (2 * bl) (take bl src) (put_bytes 0 (bytes_at bl bl (lr_buffer r)) (lr_buffer r))"
    using assms by (intro put_bytes_disjoint) auto
  ultimately show ?thesis by (simp add: half_shift_def ahead_def)
qed

text \<open>Cutting a line looks at the third part of the buffer at most to find that the line is too long.\<close>

lemma c_string_cong:
  assumes "i \<le> e" "e < length b" "take (Suc e) b = take (Suc e) b'" "b ! e = CHR 0x00" "length b' = length b"
  shows "c_string_at b i = c_string_at b' i"
proof -
  have n: "b' ! e = CHR 0x00" using assms(2-5) nth_take [of e "Suc e" b] nth_take [of e "Suc e" b'] by simp
  have d: "drop i xs = drop i (take e xs) @ CHR 0x00 # drop (Suc e) xs" if "xs ! e = CHR 0x00" "length xs = length b" for xs
  proof -
    have "xs = take e xs @ xs ! e # drop (Suc e) xs" using that(2) assms(2) by (simp add: id_take_nth_drop)
    then have "drop i xs = drop i (take e xs @ xs ! e # drop (Suc e) xs)" by simp
    then show ?thesis using assms(1,2) that by (simp add: min_def)
  qed
  have cut: "takeWhile (\<lambda>c. c \<noteq> CHR 0x00) (ys @ CHR 0x00 # zs) = takeWhile (\<lambda>c. c \<noteq> CHR 0x00) ys" for ys zs :: string
    by (induction ys) auto
  have "take e b = take e b'" using arg_cong [OF assms(3), of "take e"] by simp
  then show ?thesis unfolding c_string_at_def d [OF assms(4) refl] d [OF n assms(5)] by (simp only: cut)
qed

lemma find_line_end_cong:
  assumes "i \<le> e" "e < length b" "length b' = length b" "take e b = take e b'"
  shows "find_line_end b e i = find_line_end b' e i"
proof -
  have "bytes_at i (e - i) b = bytes_at i (e - i) b'"
    using assms(1,4) by (simp add: bytes_at_def take_drop)
  then show ?thesis using find_line_end_spec [of i e b] find_line_end_spec [of i e b'] assms by simp
qed

lemma put_bytes_update:
  "e < off \<Longrightarrow> off + length x \<le> length b \<Longrightarrow> (put_bytes off x b)[e := c] = put_bytes off x (b[e := c])"
  by (intro nth_equalityI) (auto simp: nth_put_bytes nth_list_update)

definition terminate_line :: "nat \<Rightarrow> nat \<Rightarrow> string \<Rightarrow> string" where
  "terminate_line d e b =
     (let b1 = b[e := CHR 0x00] in if e \<noteq> d \<and> b1 ! (e - 1) = CHR 0x0D then b1[e - 1 := CHR 0x00] else b1)"

lemma cut_line_terminates:
  "cut_line bl r =
     and_then (find_line_end (lr_buffer r) (data_end r) (data_begin r)) (\<lambda>e.
     and_then (require (e - data_begin r + 1 \<le> bl) Uncaught_exception) (\<lambda>_.
     Inr (Some (c_string_at (terminate_line (data_begin r) e (lr_buffer r)) (data_begin r)),
       r\<lparr>lr_buffer := terminate_line (data_begin r) e (lr_buffer r), data_begin := e + 1,
         data_end := (if lr_buffer r ! e = nl then data_end r else data_end r + 1)\<rparr>)))"
proof -
  have *: "(let r1 = (if lr_buffer r ! e = nl then r else r\<lparr>data_end := data_end r + 1\<rparr>);
         b1 = (lr_buffer r1)[e := CHR 0x00];
         b2 = (if e \<noteq> data_begin r1 \<and> b1 ! (e - 1) = CHR 0x0D then b1[e - 1 := CHR 0x00] else b1)
     in Inr (Some (c_string_at b2 (data_begin r1)), r1\<lparr>lr_buffer := b2, data_begin := e + 1\<rparr>))
     = (Inr (Some (c_string_at (terminate_line (data_begin r) e (lr_buffer r)) (data_begin r)),
       r\<lparr>lr_buffer := terminate_line (data_begin r) e (lr_buffer r), data_begin := e + 1,
         data_end := (if lr_buffer r ! e = nl then data_end r else data_end r + 1)\<rparr>) :: fault + _)" for e
    by (cases "lr_buffer r ! e = nl") (simp_all add: Let_def terminate_line_def)
  show ?thesis unfolding cut_line_def * ..
qed

lemma length_terminate_line [simp]: "length (terminate_line d e b) = length b"
  by (simp add: terminate_line_def Let_def)

lemma terminate_line_put:
  assumes "e < off" "off + length x \<le> length b"
  shows "terminate_line d e (put_bytes off x b) = put_bytes off x (terminate_line d e b)"
proof -
  have l: "off + length x \<le> length (b[e := CHR 0x00])" "e - 1 < off" using assms by auto
  have "put_bytes off x (b[e := CHR 0x00]) ! (e - 1) = b[e := CHR 0x00] ! (e - 1)"
    using l by (simp add: nth_put_bytes)
  then show ?thesis
    unfolding terminate_line_def Let_def put_bytes_update [OF assms] put_bytes_update [OF l(2,1)] by simp
qed

lemma terminate_line_at: "e < length b \<Longrightarrow> terminate_line d e b ! e = CHR 0x00"
  by (auto simp: terminate_line_def Let_def nth_list_update)

lemma cut_line_ahead:
  assumes "length (lr_buffer r) = 3 * bl" "data_begin r < bl" "data_begin r \<le> data_end r" "data_end r \<le> 2 * bl"
  shows "cut_line bl (ahead bl src r) = and_then (cut_line bl r) (\<lambda>(l, r'). Inr (l, ahead bl src r'))"
proof -
  let ?b = "lr_buffer r" and ?x = "take bl src"
  let ?b' = "put_bytes (2 * bl) ?x ?b"
  have l: "length ?b' = length ?b" "length ?b = 3 * bl" using assms(1) by simp_all
  have t: "take n (put_bytes (2 * bl) ?x b) = take n b" if "n \<le> 2 * bl" "length b = 3 * bl" for n b
    using that by (intro nth_equalityI) (auto simp: nth_put_bytes)
  have f: "find_line_end ?b' (data_end r) (data_begin r) = find_line_end ?b (data_end r) (data_begin r)"
    using assms l by (intro find_line_end_cong) (auto simp: t)
  obtain e where e: "find_line_end ?b (data_end r) (data_begin r) = Inr e" "data_begin r \<le> e"
    using find_line_end_spec [of "data_begin r" "data_end r" ?b] assms by auto
  show ?thesis
  proof (cases "e - data_begin r + 1 \<le> bl")
    case False
    then show ?thesis using e(1) f by (simp add: cut_line_def ahead_def require_def)
  next
    case True
    then have le: "e < 2 * bl" using assms(2) e(2) by linarith
    have at: "?b' ! e = ?b ! e" using le l by (simp add: nth_put_bytes)
    define b2 where "b2 = terminate_line (data_begin r) e ?b"
    have b2: "terminate_line (data_begin r) e ?b' = put_bytes (2 * bl) ?x b2" "length b2 = 3 * bl"
      using terminate_line_put [OF le, of ?x ?b] l by (simp_all add: b2_def)
    have "c_string_at b2 (data_begin r) = c_string_at (put_bytes (2 * bl) ?x b2) (data_begin r)"
    proof (rule c_string_cong [OF e(2)])
      show "take (Suc e) b2 = take (Suc e) (put_bytes (2 * bl) ?x b2)" using le b2(2) by (simp add: t)
    qed (use le b2(2) l in \<open>simp_all add: b2_def terminate_line_at\<close>)
    then show ?thesis
      using True e(1) f at b2 by (simp add: cut_line_terminates ahead_def b2_def [symmetric])
  qed
qed

lemma cut_line_keeps:
  assumes "cut_line bl r = Inr (l, r')" "data_begin r \<le> data_end r" "data_end r < length (lr_buffer r)"
  shows "length (lr_buffer r') = length (lr_buffer r)" "lr_source r' = lr_source r"
    "data_end r' = data_end r \<or> data_begin r' = data_end r'"
proof -
  obtain e where e: "find_line_end (lr_buffer r) (data_end r) (data_begin r) = Inr e"
    "e = data_begin r + length (takeWhile (\<lambda>c. c \<noteq> nl) (bytes_at (data_begin r) (data_end r - data_begin r) (lr_buffer r)))"
    using find_line_end_spec [OF assms(2,3)] by blast
  let ?w = "bytes_at (data_begin r) (data_end r - data_begin r) (lr_buffer r)"
  have w: "length ?w = data_end r - data_begin r" using assms(2,3) by simp
  have tw: "length (takeWhile (\<lambda>c. c \<noteq> nl) ?w) < length ?w \<Longrightarrow> ?w ! length (takeWhile (\<lambda>c. c \<noteq> nl) ?w) = nl"
    using nth_length_takeWhile by force
  have "e = data_end r" if "lr_buffer r ! e \<noteq> nl"
  proof (rule ccontr)
    assume "e \<noteq> data_end r"
    moreover have "length (takeWhile (\<lambda>c. c \<noteq> nl) ?w) \<le> length ?w" by (rule length_takeWhile_le)
    ultimately have lt: "length (takeWhile (\<lambda>c. c \<noteq> nl) ?w) < length ?w" using w e(2) assms(2) by linarith
    have "?w ! length (takeWhile (\<lambda>c. c \<noteq> nl) ?w) = lr_buffer r ! e"
      using lt w assms(2,3) e(2) by (subst nth_bytes_at) auto
    then show False using tw [OF lt] that by simp
  qed
  then show "length (lr_buffer r') = length (lr_buffer r)" "lr_source r' = lr_source r"
    "data_end r' = data_end r \<or> data_begin r' = data_end r'"
    using assms(1) by (auto simp: cut_line_def e(1) Let_def and_then_eq_Inr split: if_splits)
qed

section \<open>A call under any schedule\<close>

lemma tracks_data:
  assumes "tracks bl r t"
  shows "data_begin (tr_reader t) = data_begin r" "data_end (tr_reader t) = data_end r" "file_line (tr_reader t) = file_line r"
    "lr_source (tr_reader t) = None \<longleftrightarrow> lr_source r = None" "0 < bl" "length (lr_buffer r) = 3 * bl"
  using assms by (auto simp: tracks_def requested_def answered_def deserted_def ahead_def split: option.splits)

text \<open>Advancing the line number, and the first half of a shift.\<close>

lemma tracks_count: "tracks bl r t \<Longrightarrow> tracks bl (r\<lparr>file_line := n\<rparr>) (t\<lparr>tr_reader := (tr_reader t)\<lparr>file_line := n\<rparr>\<rparr>)"
  by (auto simp: tracks_def requested_def answered_def deserted_def ahead_def split: option.splits)

lemma tracks_cases:
  assumes "tracks bl r t" "lr_source r = Some src"
  obtains "requested bl r t" | "answered bl src r t" | "deserted bl src r t"
  using assms by (auto simp: tracks_def)

lemma tracksI:
  assumes "0 < bl" "length (lr_buffer r) = 3 * bl" "lr_source r = Some src" "\<not> termination_requested t"
    and "requested bl r t \<or> answered bl src r t \<or> deserted bl src r t"
  shows "tracks bl r t"
  using assms by (simp add: tracks_def)

lemma tracks_half_shift:
  assumes "tracks bl r t" "bl \<le> data_begin r" "data_begin r < data_end r"
  shows "tracks bl (half_shift bl r) (t\<lparr>tr_reader := half_shift bl (tr_reader t)\<rparr>)
    \<and> (\<forall>src. lr_source r = Some src \<longrightarrow> \<not> deserted bl src (half_shift bl r) (t\<lparr>tr_reader := half_shift bl (tr_reader t)\<rparr>))"
proof (cases "lr_source r")
  case None
  have "length (lr_buffer (half_shift bl r)) = 3 * bl" "lr_source (half_shift bl r) = None"
    using tracks_data(6) [OF assms(1)] None by (simp_all add: half_shift_def)
  then show ?thesis using assms(1) None by (simp add: tracks_def)
next
  case (Some src)
  let ?t = "t\<lparr>tr_reader := half_shift bl (tr_reader t)\<rparr>"
  have b: "length (lr_buffer (half_shift bl r)) = 3 * bl" "lr_source (half_shift bl r) = Some src" "0 < bl"
    "\<not> termination_requested ?t"
    using tracks_data(5,6) [OF assms(1)] Some assms(1) by (simp_all add: half_shift_def tracks_def)
  have n: "\<not> deserted bl src r t" using assms(2,3) by (auto simp: deserted_def)
  have "requested bl (half_shift bl r) ?t \<or> answered bl src (half_shift bl r) ?t"
    using assms(1) Some
  proof (cases rule: tracks_cases)
    case 2
    then show ?thesis using half_shift_ahead [OF tracks_data(6) [OF assms(1)], of src] by (simp add: answered_def)
  qed (use n in \<open>simp_all add: requested_def\<close>)
  moreover from this have "\<not> deserted bl src (half_shift bl r) ?t"
    by (auto simp: requested_def answered_def deserted_def)
  ultimately show ?thesis using tracksI [OF b(3,1,2,4)] Some by simp
qed

text \<open>
  While the line reader waits for a block, either the answer is there or the worker can go on, and its next turn brings
  the answer.
\<close>

lemma wait_ends:
  assumes "tracks bl r t" "lr_source r = Some src" "\<not> deserted bl src r t"
  shows "finish_read t \<noteq> None \<or> (\<exists>t'. worker_round bl t = Some t' \<and> finish_read t' \<noteq> None)"
  using assms(1,2)
proof (cases rule: tracks_cases)
  case 1
  have "\<not> termination_requested t" "0 < bl" using assms(1,2) by (simp_all add: tracks_def)
  with 1 show ?thesis using assms(2) by (simp add: requested_def worker_round_def read_source_def finish_read_def)
next
  case 2
  then show ?thesis by (simp add: answered_def finish_read_def)
qed (use assms(3) in simp)

text \<open>No turn of the worker makes a request that nobody will finish out of one that somebody will.\<close>

lemma meanwhile_not_deserted:
  assumes "meanwhile bl t t'" "tracks bl r t" "lr_source r = Some src" "\<not> deserted bl src r t"
  shows "\<not> deserted bl src r t'"
  using assms
proof (induction rule: meanwhile.induct)
  case (Round t t1 t2)
  then have "tracks bl r t1" "\<not> deserted bl src r t1" using tracks_meanwhile by blast+
  from this(1) Round(5) show ?case
  proof (cases rule: tracks_cases)
    case 1
    then have "read_byte_count t2 \<noteq> - 1"
      using Round(2,5) \<open>tracks bl r t1\<close> by (auto simp: tracks_def requested_def worker_round_def read_source_def split: option.splits if_splits)
    then show ?thesis by (simp add: deserted_def)
  next
    case 2
    then have "read_byte_count t2 \<noteq> - 1"
      using Round(2,5) \<open>tracks bl r t1\<close> by (auto simp: tracks_def answered_def worker_round_def split: if_splits)
    then show ?thesis by (simp add: deserted_def)
  qed (use \<open>\<not> deserted bl src r t1\<close> in simp)
next
  case (Spurious t t1)
  then show ?case by (auto simp: deserted_def)
qed simp

lemma shift_needs_answer:
  assumes "tracks bl r t" "lr_source r = Some src" "threaded_shift bl t = Some t'"
  shows "answered bl src r t" "t' = start_read bl (t\<lparr>tr_reader := fetch_block bl src r\<rparr>)"
proof -
  have r: "read_byte_count t \<noteq> - 1" using assms(3) by (auto simp: threaded_shift_def finish_read_def)
  show a: "answered bl src r t"
    using assms(1,2) by (cases rule: tracks_cases) (use r in \<open>simp_all add: requested_def deserted_def\<close>)
  then show "t' = start_read bl (t\<lparr>tr_reader := fetch_block bl src r\<rparr>)"
    using assms(3) r by (simp add: threaded_shift_def finish_read_def answered_def fetch_block_def)
qed

lemma fetch_block_fields:
  "lr_source (fetch_block bl src r) = Some (drop bl src)" "data_end (fetch_block bl src r) = data_end r + length (take bl src)"
  "data_begin (fetch_block bl src r) = data_begin r"
  "length (lr_buffer r) = 3 * bl \<Longrightarrow> length (lr_buffer (fetch_block bl src r)) = 3 * bl"
  by (simp_all add: fetch_block_def append_block_def ahead_def)

lemma tracks_shift:
  assumes "tracks bl r t" "lr_source r = Some src" "threaded_shift bl t = Some t'" "data_end r \<le> bl"
  shows "tracks bl (fetch_block bl src r) t'"
proof -
  note a = shift_needs_answer [OF assms(1-3)]
  have "\<not> termination_requested t'"
    using assms(1,2) by (simp add: tracks_def a(2) start_read_def notify_worker_def)
  moreover have "requested bl (fetch_block bl src r) t' \<or> deserted bl (drop bl src) (fetch_block bl src r) t'"
  proof (cases "src = []")
    case True
    then have "worker t = Worker_ended" using a(1) by (simp add: answered_def)
    then have "deserted bl (drop bl src) (fetch_block bl src r) t'"
      using True assms(4) fetch_block_fields(2) [of bl src r] by (simp add: deserted_def a(2) start_read_def notify_worker_def)
    then show ?thesis ..
  next
    case False
    then have "worker t \<noteq> Worker_ended" using a(1) by (simp add: answered_def)
    then have "worker t' = Worker_runs"
      using worker_thread.exhaust [of "worker t"] by (auto simp: a(2) start_read_def notify_worker_def)
    then have "requested bl (fetch_block bl src r) t'"
      by (simp add: requested_def a(2) start_read_def notify_worker_def)
    then show ?thesis ..
  qed
  ultimately show ?thesis
    using tracksI [OF tracks_data(5) [OF assms(1)] fetch_block_fields(4) [OF tracks_data(6) [OF assms(1)]] fetch_block_fields(1)] by blast
qed

lemma tracks_cut:
  assumes "tracks bl r t" "data_begin r < bl" "data_begin r < data_end r" "data_end r \<le> 2 * bl"
  shows "case threaded_cut bl t of Inl e \<Rightarrow> cut_line bl r = Inl e
    | Inr (l, t') \<Rightarrow> \<exists>r'. cut_line bl r = Inr (l, r') \<and> tracks bl r' t'"
proof -
  have le: "data_begin r \<le> data_end r" using assms(3) by simp
  show ?thesis
proof (cases "cut_line bl r")
  case (Inl e)
  have "cut_line bl (tr_reader t) = Inl e"
  proof (cases "lr_source r")
    case (Some src)
    with assms(1) show ?thesis
      by (cases rule: tracks_cases)
        (use Inl cut_line_ahead [OF tracks_data(6) [OF assms(1)] assms(2) le assms(4)] in \<open>simp_all add: requested_def answered_def deserted_def\<close>)
  qed (use assms(1) Inl in \<open>simp add: tracks_def\<close>)
  then show ?thesis by (simp add: threaded_cut_def Inl)
next
  case (Inr lr)
  then obtain l r' where c: "cut_line bl r = Inr (l, r')" by (cases lr) auto
  have lt: "data_end r < length (lr_buffer r)" using assms(2,4) tracks_data(6) [OF assms(1)] by simp
  note k = cut_line_keeps [OF c le lt]
  have len: "length (lr_buffer r') = 3 * bl" using k(1) tracks_data(6) [OF assms(1)] by simp
  show ?thesis
  proof (cases "lr_source r")
    case None
    then show ?thesis using assms(1) c k len by (simp add: tracks_def threaded_cut_def)
  next
    case (Some src)
    have b: "0 < bl" "lr_source r' = Some src" "\<not> termination_requested t"
      using tracks_data(5) [OF assms(1)] k(2) Some assms(1) by (simp_all add: tracks_def)
    from assms(1) Some show ?thesis
    proof (cases rule: tracks_cases)
      case 1
      then have "threaded_cut bl t = Inr (l, t\<lparr>tr_reader := r'\<rparr>)" using c by (simp add: threaded_cut_def requested_def)
      moreover have "requested bl r' (t\<lparr>tr_reader := r'\<rparr>)" using 1 by (simp add: requested_def)
      ultimately show ?thesis using tracksI [OF b(1) len b(2)] b(3) c by simp
    next
      case 2
      then have "threaded_cut bl t = Inr (l, t\<lparr>tr_reader := ahead bl src r'\<rparr>)"
        using cut_line_ahead [OF tracks_data(6) [OF assms(1)] assms(2) le assms(4), of src] c by (simp add: threaded_cut_def answered_def)
      moreover have "answered bl src r' (t\<lparr>tr_reader := ahead bl src r'\<rparr>)" using 2 by (simp add: answered_def)
      ultimately show ?thesis using tracksI [OF b(1) len b(2)] b(3) c by simp
    next
      case 3
      then have "threaded_cut bl t = Inr (l, t\<lparr>tr_reader := r'\<rparr>)" using c by (simp add: threaded_cut_def deserted_def)
      moreover have "deserted bl src r' (t\<lparr>tr_reader := r'\<rparr>)"
        using 3 k(3) assms(3) c by (auto simp: deserted_def)
      ultimately show ?thesis using tracksI [OF b(1) len b(2)] b(3) c by simp
    qed
  qed
qed
qed

text \<open>What the first half of a call leaves, beside the reader without a thread.\<close>

definition cuttable :: "nat \<Rightarrow> line_reader \<Rightarrow> bool" where
  "cuttable bl r \<longleftrightarrow> data_begin r < bl \<and> data_begin r < data_end r \<and> data_end r \<le> 2 * bl"

definition counted :: "line_reader \<Rightarrow> line_reader" where
  "counted r = r\<lparr>file_line := file_line r + 1\<rparr>"

lemma threaded_begin_tracks:
  assumes "tracks bl r t" "data_begin r \<noteq> data_end r"
  shows "case threaded_begin bl t of Inl e \<Rightarrow> next_line bl r = Inl e
    | Inr (False, t') \<Rightarrow> next_line bl r = cut_line bl (shift_blocks bl (counted r)) \<and> tracks bl (shift_blocks bl (counted r)) t'
        \<and> cuttable bl (shift_blocks bl (counted r))
    | Inr (True, t') \<Rightarrow> \<exists>src. lr_source r = Some src \<and> bl \<le> data_begin r
        \<and> next_line bl r = cut_line bl (fetch_block bl src (half_shift bl (counted r)))
        \<and> tracks bl (half_shift bl (counted r)) t' \<and> \<not> deserted bl src (half_shift bl (counted r)) t'
        \<and> lr_source (half_shift bl (counted r)) = Some src \<and> data_end (half_shift bl (counted r)) \<le> bl
        \<and> cuttable bl (fetch_block bl src (half_shift bl (counted r)))"
proof -
  note d = tracks_data [OF assms(1)]
  let ?t = "t\<lparr>tr_reader := counted (tr_reader t)\<rparr>"
  have c: "tracks bl (counted r) ?t"
    using tracks_count [OF assms(1), of "file_line r + 1"] d(3) by (simp add: counted_def)
  have f: "data_begin (counted r) = data_begin r" "data_end (counted r) = data_end r" "lr_source (counted r) = lr_source r"
    "data_begin (counted (tr_reader t)) = data_begin r" "data_end (counted (tr_reader t)) = data_end r"
    "lr_source (counted (tr_reader t)) = lr_source (tr_reader t)"
    using d by (simp_all add: counted_def)
  have b: "threaded_begin bl t = and_then (require (data_begin r < data_end r) Assertion_failure) (\<lambda>_.
      and_then (require (data_end r \<le> bl * 2) Assertion_failure) (\<lambda>_.
      if bl \<le> data_begin r then Inr (lr_source r \<noteq> None, ?t\<lparr>tr_reader := half_shift bl (tr_reader ?t)\<rparr>)
      else Inr (False, ?t)))"
    using d f by (simp add: threaded_begin_def Let_def counted_def)
  have n: "next_line bl r = and_then (require (data_begin r < data_end r) Assertion_failure) (\<lambda>_.
      and_then (require (data_end r \<le> bl * 2) Assertion_failure) (\<lambda>_. cut_line bl (shift_blocks bl (counted r))))"
    using assms(2) by (simp add: next_line_def Let_def counted_def)
  show ?thesis
  proof (cases "data_begin r < data_end r \<and> data_end r \<le> bl * 2")
    case True
    then have n': "next_line bl r = cut_line bl (shift_blocks bl (counted r))" using n by simp
    show ?thesis
    proof (cases "bl \<le> data_begin r")
      case True
      with f \<open>_ \<and> _\<close> tracks_half_shift [OF c] have h: "tracks bl (half_shift bl (counted r)) (?t\<lparr>tr_reader := half_shift bl (tr_reader ?t)\<rparr>)"
        "\<forall>src. lr_source r = Some src \<longrightarrow> \<not> deserted bl src (half_shift bl (counted r)) (?t\<lparr>tr_reader := half_shift bl (tr_reader ?t)\<rparr>)"
        by simp_all
      show ?thesis
        using b n' h True \<open>_ \<and> _\<close> shift_blocks_parts [of bl "counted r"] f
        by (cases "lr_source r") (auto simp: cuttable_def fetch_block_fields half_shift_def)
    next
      case False
      then show ?thesis using b n' c \<open>_ \<and> _\<close> shift_blocks_parts [of bl "counted r"] f by (simp add: cuttable_def)
    qed
  next
    case False
    then show ?thesis using b n by (auto simp: require_def)
  qed
qed

text \<open>The simulation: a call under any schedule does what the reader without a thread does.\<close>

lemma threaded_line_sim:
  assumes "threaded_line bl t res" "tracks bl r t"
  shows "case res of Inl e \<Rightarrow> next_line bl r = Inl e | Inr (l, t') \<Rightarrow> \<exists>r'. next_line bl r = Inr (l, r') \<and> tracks bl r' t'"
  using assms(1)
proof cases
  case (At_end t1)
  have m: "tracks bl r t1" by (rule tracks_meanwhile [OF At_end(2) assms(2)])
  then have "next_line bl r = Inr (None, r)" using At_end(3) tracks_data(1,2) [OF m] by (simp add: next_line_def)
  then show ?thesis using m by (simp add: At_end(1))
next
  case (Failed t1 e)
  have m: "tracks bl r t1" by (rule tracks_meanwhile [OF Failed(2) assms(2)])
  then show ?thesis using threaded_begin_tracks [OF m] Failed(1,3,4) tracks_data(1,2) [OF m] by simp
next
  case (In_data t1 t2 t3)
  have m: "tracks bl r t1" by (rule tracks_meanwhile [OF In_data(2) assms(2)])
  have ne: "data_begin r \<noteq> data_end r" using In_data(3) tracks_data(1,2) [OF m] by simp
  have n: "next_line bl r = cut_line bl (shift_blocks bl (counted r))" "tracks bl (shift_blocks bl (counted r)) t2"
    "cuttable bl (shift_blocks bl (counted r))"
    using threaded_begin_tracks [OF m ne] In_data(4) by simp_all
  have "tracks bl (shift_blocks bl (counted r)) t3" by (rule tracks_meanwhile [OF In_data(5) n(2)])
  from tracks_cut [OF this] n(3) show ?thesis unfolding n(1) In_data(1) cuttable_def by blast
next
  case (Next_block t1 t2 t3 t4 t5)
  have m: "tracks bl r t1" by (rule tracks_meanwhile [OF Next_block(2) assms(2)])
  have ne: "data_begin r \<noteq> data_end r" using Next_block(3) tracks_data(1,2) [OF m] by simp
  define h where "h = half_shift bl (counted r)"
  obtain src where n: "next_line bl r = cut_line bl (fetch_block bl src h)" "tracks bl h t2" "lr_source h = Some src"
    "data_end h \<le> bl" "cuttable bl (fetch_block bl src h)"
    using threaded_begin_tracks [OF m ne] Next_block(4) by (auto simp: h_def)
  have "tracks bl h t3" by (rule tracks_meanwhile [OF Next_block(5) n(2)])
  from tracks_meanwhile [OF Next_block(7) tracks_shift [OF this n(3) Next_block(6) n(4)]]
  have "tracks bl (fetch_block bl src h) t5" .
  from tracks_cut [OF this] n(5) show ?thesis unfolding n(1) Next_block(1) cuttable_def by blast
qed

text \<open>A call never gets stuck: whatever the worker did before, the call has an outcome.\<close>

lemma threaded_line_returns:
  assumes "tracks bl r t" shows "\<exists>res. threaded_line bl t res"
proof (cases "data_begin r = data_end r")
  case True
  then show ?thesis using threaded_line.At_end [OF meanwhile.Nothing] tracks_data(1,2) [OF assms] by metis
next
  case False
  then have ne: "data_begin (tr_reader t) \<noteq> data_end (tr_reader t)" using tracks_data(1,2) [OF assms] by simp
  note first_half = threaded_begin_tracks [OF assms False]
  show ?thesis
  proof (cases "threaded_begin bl t")
    case (Inl e)
    then show ?thesis using threaded_line.Failed [OF meanwhile.Nothing ne] by blast
  next
    case (Inr bt)
    obtain waits t2 where b: "threaded_begin bl t = Inr (waits, t2)" using Inr by (cases bt) auto
    show ?thesis
    proof (cases waits)
      case False
      then have "threaded_begin bl t = Inr (False, t2)" using b by simp
      from threaded_line.In_data [OF meanwhile.Nothing ne this meanwhile.Nothing] show ?thesis ..
    next
      case True
      with first_half b obtain src where h: "tracks bl (half_shift bl (counted r)) t2"
        "lr_source (half_shift bl (counted r)) = Some src" "\<not> deserted bl src (half_shift bl (counted r)) t2" by auto
      have w: "finish_read t' \<noteq> None \<Longrightarrow> meanwhile bl t2 t' \<Longrightarrow> \<exists>res. threaded_line bl t res" for t'
      proof -
        assume f: "finish_read t' \<noteq> None" and m: "meanwhile bl t2 t'"
        obtain t4 where "threaded_shift bl t' = Some t4" using f by (auto simp: threaded_shift_def)
        moreover have "threaded_begin bl t = Inr (True, t2)" using b True by simp
        ultimately show "\<exists>res. threaded_line bl t res"
          using threaded_line.Next_block [OF meanwhile.Nothing ne _ m _ meanwhile.Nothing] by blast
      qed
      from wait_ends [OF h] show ?thesis using w meanwhile.Nothing meanwhile.Round [OF meanwhile.Nothing] by blast
    qed
  qed
qed

section \<open>All the lines\<close>

lemma threaded_lines_sim:
  "threaded_lines bl n t res \<Longrightarrow> tracks bl r t \<Longrightarrow>
    (case res of Inl e \<Rightarrow> read_lines n bl r = Inl e | Inr (ls, t') \<Rightarrow> \<exists>r'. read_lines n bl r = Inr (ls, r') \<and> tracks bl r' t')"
proof (induction arbitrary: r rule: threaded_lines.induct)
  case (Fault t e n)
  then show ?case using threaded_line_sim [OF Fault(1,2)] by simp
next
  case (No_more t t1 n)
  then show ?case using threaded_line_sim [OF No_more(1,2)] by auto
next
  case (Line t l t1 n ls t2)
  then obtain r1 where "next_line bl r = Inr (Some l, r1)" "tracks bl r1 t1" using threaded_line_sim [OF Line(1,4)] by auto
  with Line(3) [of r1] show ?case by auto
next
  case (Later_fault t l t1 n e)
  then obtain r1 where "next_line bl r = Inr (Some l, r1)" "tracks bl r1 t1" using threaded_line_sim [OF Later_fault(1,4)] by auto
  with Later_fault(3) [of r1] show ?case by auto
qed auto

lemma threaded_lines_return: "tracks bl r t \<Longrightarrow> \<exists>res. threaded_lines bl n t res"
proof (induction n arbitrary: r t)
  case 0
  show ?case by (rule exI) (rule Enough)
next
  case (Suc n)
  obtain res where res: "threaded_line bl t res" using threaded_line_returns [OF Suc.prems] ..
  show ?case
  proof (cases res)
    case (Inl e)
    then show ?thesis using threaded_lines.Fault res by blast
  next
    case (Inr lt)
    obtain l t1 where lt: "res = Inr (l, t1)" using Inr by (cases lt) auto
    show ?thesis
    proof (cases l)
      case None
      then show ?thesis using threaded_lines.No_more res lt by blast
    next
      case (Some s)
      obtain r1 where "tracks bl r1 t1" using threaded_line_sim [OF res Suc.prems] lt by auto
      then obtain res' where "threaded_lines bl n t1 res'" using Suc.IH by blast
      have l: "threaded_line bl t (Inr (Some s, t1))" using res lt Some by simp
      show ?thesis
      proof (cases res')
        case (Inl e)
        then show ?thesis using threaded_lines.Later_fault [OF l] \<open>threaded_lines bl n t1 res'\<close> by blast
      next
        case (Inr lt')
        then obtain ls t2 where "res' = Inr (ls, t2)" by (cases lt') auto
        then show ?thesis using threaded_lines.Line [OF l] \<open>threaded_lines bl n t1 res'\<close> by blast
      qed
    qed
  qed
qed

text \<open>The destructor's join returns: the next turn of a worker that still runs is its last.\<close>

lemma destructor_joins:
  assumes "tracks bl r t"
  shows "worker (request_termination t) = Worker_ended
    \<or> (\<exists>t'. worker_round bl (request_termination t) = Some t' \<and> worker t' = Worker_ended)"
proof (cases "lr_source (tr_reader t) = None")
  case True
  then have "worker t = Worker_ended" using assms tracks_data(4) [OF assms] by (simp add: tracks_def)
  then show ?thesis using True by (simp add: request_termination_def)
next
  case False
  then show ?thesis
    by (cases "worker t") (simp_all add: request_termination_def notify_worker_def worker_round_def)
qed



end
