(* ===== verification/PolicyLog.thy ===== *)
theory PolicyLog
  imports MonitorLog NetworkMonitor
begin

text \<open>
  What every policy does around its own event handler and decision (linux/core/inc/NMPolicy.h): an event and a decision
  to switch are written to the event log with the time since the first event.
\<close>

section \<open>The clock of the events\<close>

text \<open>The time stamps hold what the memory of the object held (\<open>u\<close>, \<open>v\<close>) until they are set.\<close>

record policy_clock =
  mIsFirstCustomEvent :: bool
  mFirstCustomEventTS :: timeval
  mRecentCustomEventTS :: timeval

definition policy_clock_ctor :: "timeval \<Rightarrow> timeval \<Rightarrow> policy_clock" where
  "policy_clock_ctor u v = \<lparr>mIsFirstCustomEvent = False, mFirstCustomEventTS = u, mRecentCustomEventTS = v\<rparr>"

definition timeval_us :: "timeval \<Rightarrow> int" where
  "timeval_us tv = fst tv * (1000 * 1000) + snd tv"

text \<open>The seconds and microseconds of a difference, each cut to an \<open>int\<close>; the division truncates toward zero.\<close>

definition relative_time :: "timeval \<Rightarrow> timeval \<Rightarrow> i32 \<times> i32" where
  "relative_time first now =
     (let us = timeval_us now - timeval_us first
      in (word_of_int (us sdiv (1000 * 1000)), word_of_int (us smod (1000 * 1000))))"

text \<open>\<open>%3d\<close> and \<open>%06d\<close>, the sign before the zeros.\<close>

definition printf_3d :: "i32 \<Rightarrow> string" where
  "printf_3d w = pad_left CHR '' '' 3 (int_to_string w)"

definition printf_06d :: "i32 \<Rightarrow> string" where
  "printf_06d w =
     (if sint w < 0 then CHR ''-'' # pad_left CHR ''0'' 5 (digits (nat (- sint w)))
      else pad_left CHR ''0'' 6 (digits (nat (sint w))))"

definition relative_time_text :: "i32 \<times> i32 \<Rightarrow> string" where
  "relative_time_text t = printf_3d (fst t) @ ''.'' @ printf_06d (snd t)"

section \<open>Events and decisions\<close>

text \<open>The buffer of the line has 100 bytes, of which the last is the terminator.\<close>

definition print_custom_event ::
    "timeval \<Rightarrow> string \<Rightarrow> policy_clock \<times> string option \<Rightarrow> policy_clock \<times> string option" where
  "print_custom_event now event_string c_log =
     (let c = (fst c_log)\<lparr>mRecentCustomEventTS := now\<rparr>;
          c1 = (if \<not> mIsFirstCustomEvent c then c\<lparr>mIsFirstCustomEvent := True, mFirstCustomEventTS := now\<rparr> else c)
      in (c1, print_event (take 99 (relative_time_text (relative_time (mFirstCustomEventTS c1) (mRecentCustomEventTS c1))
                @ '' [Event] '' @ event_string)) (snd c_log)))"

definition print_switch_decision ::
    "timeval \<Rightarrow> switch_behavior \<Rightarrow> policy_clock \<times> string option \<Rightarrow> policy_clock \<times> string option" where
  "print_switch_decision now behavior c_log =
     (if behavior = kIncreaseAdapter \<or> behavior = kDecreaseAdapter
      then (fst c_log, print_event (take 99 (relative_time_text (relative_time (mFirstCustomEventTS (fst c_log)) now)
             @ (if behavior = kIncreaseAdapter then '' [Switch] WFD on'' else '' [Switch] BT on''))) (snd c_log))
      else c_log)"

definition send_custom_event ::
    "(string \<Rightarrow> 's \<Rightarrow> 's) \<Rightarrow> timeval \<Rightarrow> string \<Rightarrow> 's \<times> policy_clock \<times> string option \<Rightarrow> 's \<times> policy_clock \<times> string option" where
  "send_custom_event on_custom_event now event_string p =
     (on_custom_event event_string (fst p), print_custom_event now event_string (snd p))"

definition decide_switch ::
    "'s decision \<Rightarrow> timeval \<Rightarrow> timeval \<Rightarrow> stats \<Rightarrow> bool \<Rightarrow> bool \<Rightarrow> 's \<times> policy_clock \<times> string option
      \<Rightarrow> fault + switch_behavior \<times> 's \<times> policy_clock \<times> string option" where
  "decide_switch decide now print_time st is_increasable is_decreasable p =
     and_then (decide now st is_increasable is_decreasable (fst p)) (\<lambda>(behavior, s1).
       Inr (behavior, s1, print_switch_decision print_time behavior (snd p)))"

section \<open>What the log says\<close>

lemma length_pad_left [simp]: "length (pad_left c n s) = max n (length s)"
  by (simp add: pad_left_def)

lemma sint_of_small: "- (2 ^ 31) \<le> x \<Longrightarrow> x < 2 ^ 31 \<Longrightarrow> sint (word_of_int x :: i32) = x"
  by (simp add: signed_of_int signed_take_bit_int_eq_self)

text \<open>
  An event after the first, within 68 years, is written with its seconds and exactly six digits of microseconds, and
  they are those of the time that has passed.
\<close>

lemma relative_time_exact:
  assumes "timeval_us now - timeval_us first = d" "0 \<le> d" "d < 2 ^ 31 * 1000000"
  shows "relative_time_text (relative_time first now)
      = pad_left CHR '' '' 3 (digits (nat (d div 1000000))) @ ''.'' @ pad_left CHR ''0'' 6 (digits (nat (d mod 1000000)))
    \<and> length (pad_left CHR ''0'' 6 (digits (nat (d mod 1000000)))) = 6"
proof -
  have q: "d sdiv (1000 * 1000) = d div 1000000" "d smod (1000 * 1000) = d mod 1000000"
    using assms(2) by (auto simp: signed_divide_int_def signed_modulo_int_def sgn_if)
  have "d div 1000000 < 2 ^ 31" using assms(3) by (simp add: div_less_iff_less_mult)
  then have s: "sint (word_of_int (d div 1000000) :: i32) = d div 1000000" "0 \<le> d div 1000000"
    "sint (word_of_int (d mod 1000000) :: i32) = d mod 1000000" "0 \<le> d mod 1000000"
    using assms(2) 
    by (simp_all add: sint_of_small pos_imp_zdiv_nonneg_iff less_trans [OF pos_mod_bound] order.trans [OF _ pos_mod_sign])
  have "nat (d mod 1000000) < 10 ^ 6" by (simp add: nat_less_iff)
  then have "length (digits (nat (d mod 1000000))) \<le> 6" using length_digits [of _ 5] by simp
  then show ?thesis
    using s by (simp add: leD [OF pos_mod_sign] relative_time_def relative_time_text_def assms(1) Let_def q [simplified] printf_3d_def printf_06d_def int_to_string_def)
qed

text \<open>The first event is at time zero; a decision before it is printed relative to a time that nobody has set.\<close>

lemma zero_time_text: "relative_time_text (relative_time now now) = ''  0.000000''"
proof -
  have z: "relative_time now now = (0, 0)"
    by (simp add: relative_time_def Let_def signed_divide_int_def signed_modulo_int_def)
  have "relative_time_text (0, 0) = ''  0.000000''" by code_simp
  then show ?thesis unfolding z .
qed

lemma first_event_at_zero:
  "print_custom_event now e (policy_clock_ctor u v, Some l)
    = (\<lparr>mIsFirstCustomEvent = True, mFirstCustomEventTS = now, mRecentCustomEventTS = now\<rparr>,
       Some (l @ take 99 (''  0.000000 [Event] '' @ e) @ [nl]))"
  by (simp add: print_custom_event_def policy_clock_ctor_def Let_def print_event_def zero_time_text)

lemma decision_before_first_event:
  "print_switch_decision (100, 5) kIncreaseAdapter (policy_clock_ctor u v, Some [])
    = (policy_clock_ctor u v, Some (take 99 (relative_time_text (relative_time u (100, 5)) @ '' [Switch] WFD on'') @ [nl]))"
  by (simp add: print_switch_decision_def policy_clock_ctor_def print_event_def)

end
