(* ===== verification/CsvErrors.thy ===== *)
theory CsvErrors
  imports CsvReader ControlMessage
begin

text \<open>
  The exceptions of the CSV reader (linux/common/inc/csv.h): what they carry, the text of \<open>what()\<close>, and which one a header
  and a row throw. The other theories keep of an exception only that nobody catches it; here it is shown that they
  do so exactly where the code throws. An exception is not caught by any program, which ends with this text.
\<close>

section \<open>The exceptions\<close>

datatype csv_error =
    can_not_open_file | line_length_limit_exceeded
  | extra_column_in_header | missing_column_in_header | duplicated_column_in_header | header_missing
  | too_few_columns | too_many_columns | escaped_string_not_closed
  | integer_must_be_positive | no_digit | integer_overflow | integer_underflow | invalid_single_character

text \<open>
  What they carry; each exception has some of the fields. The texts are arrays of 256, 64 and 64 bytes and start out
  empty; an \<open>errno\<close> of 0 is \<open>None\<close>, any other is what \<open>strerror\<close> says about it.
\<close>

record error_context =
  err_file_name :: string
  err_file_line :: i32
  err_errno :: "string option"
  err_column_name :: string
  err_column_content :: string

definition error_context_ctor :: error_context where
  "error_context_ctor = \<lparr>err_file_name = [], err_file_line = - 1, err_errno = None, err_column_name = [], err_column_content = []\<rparr>"

definition max_file_name_length :: nat where "max_file_name_length = 255"
definition max_column_name_length :: nat where "max_column_name_length = 63"
definition max_column_content_length :: nat where "max_column_content_length = 63"

lemmas csv_limits = max_file_name_length_def max_column_name_length_def max_column_content_length_def

text \<open>The texts are C strings, without a null byte.\<close>

definition set_file_name :: "string \<Rightarrow> error_context \<Rightarrow> error_context" where
  "set_file_name file_name c = c\<lparr>err_file_name := take max_file_name_length file_name\<rparr>"

definition set_file_line :: "i32 \<Rightarrow> error_context \<Rightarrow> error_context" where
  "set_file_line n c = c\<lparr>err_file_line := n\<rparr>"

definition set_errno :: "string option \<Rightarrow> error_context \<Rightarrow> error_context" where
  "set_errno errno_value c = c\<lparr>err_errno := errno_value\<rparr>"

definition set_column_name :: "string \<Rightarrow> error_context \<Rightarrow> error_context" where
  "set_column_name column_name c = c\<lparr>err_column_name := take max_column_name_length column_name\<rparr>"

definition set_column_content :: "string \<Rightarrow> error_context \<Rightarrow> error_context" where
  "set_column_content column_content c = c\<lparr>err_column_content := take max_column_content_length column_content\<rparr>"

lemmas context_setters = set_file_name_def set_file_line_def set_errno_def set_column_name_def set_column_content_def

text \<open>\<open>format_error_message\<close>, before it is cut to the buffer. In quotes:\<close>

definition quoted :: "string \<Rightarrow> string" where
  "quoted s = CHR 0x22 # s @ [CHR 0x22]"

definition open_message :: "error_context \<Rightarrow> string" where
  "open_message c = ''Can not open file '' @ quoted (err_file_name c)
     @ (case err_errno c of None \<Rightarrow> ''.'' | Some reason \<Rightarrow> '' because '' @ quoted reason @ ''.'')"

definition line_limit_message :: "error_context \<Rightarrow> string" where
  "line_limit_message c = ''Line number '' @ int_to_string (err_file_line c) @ '' in file ''
     @ quoted (err_file_name c) @ '' exceeds the maximum length of 2^24-1.''"

text \<open>The messages of a group differ in the words \<open>w\<close>.\<close>

definition header_message :: "string \<Rightarrow> error_context \<Rightarrow> string" where
  "header_message w c = w @ '' column '' @ quoted (err_column_name c) @ '' in header of file '' @ quoted (err_file_name c) @ ''.''"

definition header_missing_message :: "error_context \<Rightarrow> string" where
  "header_missing_message c = ''Header missing in file '' @ quoted (err_file_name c) @ ''.''"

definition line_message :: "string \<Rightarrow> error_context \<Rightarrow> string" where
  "line_message w c = w @ '' in line '' @ int_to_string (err_file_line c) @ '' in file '' @ quoted (err_file_name c) @ ''.''"

definition integer_message :: "string \<Rightarrow> error_context \<Rightarrow> string" where
  "integer_message w c = ''The integer '' @ quoted (err_column_content c) @ w @ '' in column '' @ quoted (err_column_name c)
     @ '' in file '' @ quoted (err_file_name c) @ '' in line '' @ quoted (int_to_string (err_file_line c)) @ ''.''"

definition single_character_message :: "error_context \<Rightarrow> string" where
  "single_character_message c = ''The content '' @ quoted (err_column_content c) @ '' of column '' @ quoted (err_column_name c)
     @ '' in file '' @ quoted (err_file_name c) @ '' in line '' @ quoted (int_to_string (err_file_line c)) @ '' is not a single character.''"

lemmas messages = open_message_def line_limit_message_def header_message_def header_missing_message_def line_message_def
  integer_message_def single_character_message_def

fun message_text :: "csv_error \<Rightarrow> error_context \<Rightarrow> string" where
  "message_text can_not_open_file c = open_message c"
| "message_text line_length_limit_exceeded c = line_limit_message c"
| "message_text extra_column_in_header c = header_message ''Extra'' c"
| "message_text missing_column_in_header c = header_message ''Missing'' c"
| "message_text duplicated_column_in_header c = header_message ''Duplicated'' c"
| "message_text header_missing c = header_missing_message c"
| "message_text too_few_columns c = line_message ''Too few columns'' c"
| "message_text too_many_columns c = line_message ''Too many columns'' c"
| "message_text escaped_string_not_closed c = line_message ''Escaped string was not closed'' c"
| "message_text integer_must_be_positive c = integer_message '' must be positive or 0'' c"
| "message_text no_digit c = integer_message '' contains an invalid digit'' c"
| "message_text integer_overflow c = integer_message '' overflows'' c"
| "message_text integer_underflow c = integer_message '' underflows'' c"
| "message_text invalid_single_character c = single_character_message c"

text \<open>\<open>what()\<close>: the buffer has 512 bytes.\<close>

definition error_what :: "csv_error \<Rightarrow> error_context \<Rightarrow> string" where
  "error_what e c = take 511 (message_text e c)"

definition context_fits :: "error_context \<Rightarrow> bool" where
  "context_fits c \<longleftrightarrow> length (err_file_name c) \<le> 255 \<and> length (err_column_name c) \<le> 63 \<and> length (err_column_content c) \<le> 63"

lemma context_fits_setters [simp]:
  "context_fits error_context_ctor"
  "context_fits c \<Longrightarrow> context_fits (set_file_name s c)" "context_fits c \<Longrightarrow> context_fits (set_file_line n c)"
  "context_fits c \<Longrightarrow> context_fits (set_errno x c)" "context_fits c \<Longrightarrow> context_fits (set_column_name s c)"
  "context_fits c \<Longrightarrow> context_fits (set_column_content s c)"
  by (simp_all add: context_fits_def error_context_ctor_def context_setters csv_limits)

lemma length_quoted [simp]: "length (quoted s) = length s + 2"
  by (simp add: quoted_def)

text \<open>No message is cut, but for the one that repeats what the operating system says.\<close>

lemma messages_complete:
  assumes "context_fits c" "e \<noteq> can_not_open_file"
  shows "error_what e c = message_text e c"
proof -
  have "length (message_text e c) \<le> 511"
    using assms length_numbers(1) [of "err_file_line c"]
    by (cases e) (simp_all add: context_fits_def messages)
  then show ?thesis by (simp add: error_what_def)
qed

section \<open>What a header throws\<close>

type_synonym thrown = "csv_error \<times> error_context"

text \<open>An exception as the rest of the model keeps it.\<close>

definition forget :: "thrown + 'a \<Rightarrow> fault + 'a" where
  "forget r = map_sum (\<lambda>_. Uncaught_exception) id r"

lemma forget_simps [simp]: "forget (Inl x) = Inl Uncaught_exception" "forget (Inr y) = Inr y"
  by (simp_all add: forget_def)

text \<open>The only error in a column is a quote that is not closed.\<close>

definition chop_thrown :: "string \<Rightarrow> thrown + string \<times> string option" where
  "chop_thrown line = (case chop_next_column line of
     Inl e \<Rightarrow> Inl (escaped_string_not_closed, error_context_ctor) | Inr x \<Rightarrow> Inr x)"

definition header_column_thrown ::
    "string list \<Rightarrow> bool \<Rightarrow> string \<Rightarrow> bool list \<times> nat option list \<Rightarrow> thrown + bool list \<times> nat option list" where
  "header_column_thrown names ignore_extra col st =
     (case st of (found, order) \<Rightarrow>
      let i = position col names in
      if i < length names
      then if found ! i then Inl (duplicated_column_in_header, set_column_name col error_context_ctor)
           else Inr (found[i := True], order @ [Some i])
      else if ignore_extra then Inr (found, order @ [None])
      else Inl (extra_column_in_header, set_column_name col error_context_ctor))"

function header_loop_thrown ::
    "string list \<Rightarrow> bool \<Rightarrow> string option \<Rightarrow> bool list \<times> nat option list \<Rightarrow> thrown + bool list \<times> nat option list" where
  "header_loop_thrown names ignore_extra line st =
     (case line of None \<Rightarrow> Inr st
      | Some l \<Rightarrow>
         (case chop_thrown l of Inl e \<Rightarrow> Inl e
          | Inr (col, rest) \<Rightarrow>
             (case header_column_thrown names ignore_extra (unescape (trim_chars [] col)) st of Inl e \<Rightarrow> Inl e
              | Inr st1 \<Rightarrow> header_loop_thrown names ignore_extra rest st1)))"
  by pat_completeness auto

lemma chop_thrown_shorter: "chop_thrown l = Inr (col, Some rest) \<Longrightarrow> length rest < length l"
  by (auto simp: chop_thrown_def dest: chop_shorter split: sum.splits)

termination header_loop_thrown
  by (relation "measure (\<lambda>(names, ie, line, st). case line of None \<Rightarrow> 0 | Some l \<Rightarrow> Suc (length l))")
     (auto dest: chop_thrown_shorter split: option.splits)

declare header_loop_thrown.simps [simp del]

text \<open>The first name that was not found.\<close>

fun first_missing :: "string list \<Rightarrow> bool list \<Rightarrow> string option" where
  "first_missing (n # ns) (b # bs) = (if b then first_missing ns bs else Some n)"
| "first_missing _ _ = None"

definition parse_header_thrown :: "string \<Rightarrow> string list \<Rightarrow> bool \<Rightarrow> bool \<Rightarrow> thrown + nat option list" where
  "parse_header_thrown line names ignore_extra ignore_missing =
     and_then (header_loop_thrown names ignore_extra (Some line) (replicate (length names) False, [])) (\<lambda>(found, order).
     if ignore_missing then Inr order
     else case first_missing names found of None \<Rightarrow> Inr order
       | Some n \<Rightarrow> Inl (missing_column_in_header, set_column_name n error_context_ctor))"

text \<open>The catch clauses that add where it happened.\<close>

definition located :: "(error_context \<Rightarrow> error_context) \<Rightarrow> thrown + 'a \<Rightarrow> thrown + 'a" where
  "located f r = map_sum (apsnd f) id r"

lemma located_simps [simp]: "located f (Inl (e, c)) = Inl (e, f c)" "located f (Inr x) = Inr x"
  by (simp_all add: located_def)

lemma forget_located [simp]: "forget (located f r) = forget r"
  by (cases r) (simp_all add: forget_def located_def)

definition read_header_thrown :: "string \<Rightarrow> string option \<Rightarrow> bool \<Rightarrow> bool \<Rightarrow> string list \<Rightarrow> thrown + nat option list" where
  "read_header_thrown file_name line ignore_extra ignore_missing names =
     located (set_file_name file_name)
       (case line of None \<Rightarrow> Inl (header_missing, error_context_ctor)
        | Some l \<Rightarrow> parse_header_thrown l names ignore_extra ignore_missing)"

section \<open>What a row throws\<close>

fun parse_columns_thrown ::
    "nat option list \<Rightarrow> string option \<Rightarrow> string option list \<Rightarrow> thrown + string option \<times> string option list" where
  "parse_columns_thrown [] line row = Inr (line, row)"
| "parse_columns_thrown (k # ks) line row =
     (case line of None \<Rightarrow> Inl (too_few_columns, error_context_ctor)
      | Some l \<Rightarrow> and_then (chop_thrown l) (\<lambda>(col, rest).
          parse_columns_thrown ks rest
            (case k of None \<Rightarrow> row | Some i \<Rightarrow> row[i := Some (unescape (trim_chars [] col))])))"

definition parse_line_thrown :: "string \<Rightarrow> nat option list \<Rightarrow> string option list \<Rightarrow> thrown + string option list" where
  "parse_line_thrown line order row =
     and_then (parse_columns_thrown order (Some line) row) (\<lambda>(rest, row1).
     if rest = None then Inr row1 else Inl (too_many_columns, error_context_ctor))"

definition read_row_thrown ::
    "string \<Rightarrow> i32 \<Rightarrow> string \<Rightarrow> nat option list \<Rightarrow> nat \<Rightarrow> thrown + string option list" where
  "read_row_thrown file_name n line order column_count =
     located (set_file_line n) (located (set_file_name file_name)
       (parse_line_thrown line order (replicate column_count None)))"

section \<open>The exceptions are those of the model\<close>

lemma column_errors:
  "column_length s = Inl e \<Longrightarrow> e = Uncaught_exception" "quoted_length s = Inl e \<Longrightarrow> e = Uncaught_exception"
proof (induction s and s rule: column_length_quoted_length.induct)
  case (4 c cs)
  then show ?case by (cases cs) (auto simp: and_then_eq_Inl split: if_splits)
qed (auto simp: and_then_eq_Inl split: if_splits)

lemma forget_chop [simp]: "forget (chop_thrown l) = chop_next_column l"
proof (cases "chop_next_column l")
  case (Inl e)
  then have "column_length l = Inl e" by (auto simp: chop_next_column_def and_then_eq_Inl)
  then show ?thesis using Inl column_errors(1) [of l e] by (simp add: chop_thrown_def)
qed (simp add: chop_thrown_def)

lemma forget_and_then: "forget (and_then m f) = and_then (forget m) (\<lambda>x. forget (f x))"
  by (cases m) simp_all

lemma forget_column [simp]: "forget (header_column_thrown names ie col st) = header_column names ie col st"
  by (simp add: header_column_thrown_def header_column_def Let_def split: prod.splits)

lemma forget_header_loop: "forget (header_loop_thrown names ie line st) = header_loop names ie line st"
proof (induction names ie line st rule: header_loop_thrown.induct)
  case (1 names ie line st)
  show ?case
  proof (cases line)
    case None
    then show ?thesis by (simp add: header_loop_thrown.simps [of _ _ None] header_loop.simps [of _ _ None])
  next
    case (Some l)
    show ?thesis
    proof (cases "chop_thrown l")
      case (Inl e)
      then have "chop_next_column l = Inl Uncaught_exception" by (metis forget_chop forget_simps(1))
      then show ?thesis using Some Inl
        by (simp add: header_loop_thrown.simps [of _ _ "Some l"] header_loop.simps [of _ _ "Some l"])
    next
      case (Inr cr)
      obtain col rest where cr: "cr = (col, rest)" by (cases cr)
      have c: "chop_next_column l = Inr (col, rest)" using Inr cr by (metis forget_chop forget_simps(2))
      show ?thesis
      proof (cases "header_column_thrown names ie (unescape (trim_chars [] col)) st")
        case (Inl e)
        then have "header_column names ie (unescape (trim_chars [] col)) st = Inl Uncaught_exception"
          by (metis forget_column forget_simps(1))
        then show ?thesis using Some Inr cr c Inl
          by (simp add: header_loop_thrown.simps [of _ _ "Some l"] header_loop.simps [of _ _ "Some l"])
      next
        case st1: (Inr st1)
        then have "header_column names ie (unescape (trim_chars [] col)) st = Inr st1"
          by (metis forget_column forget_simps(2))
        then show ?thesis using 1 [OF Some Inr cr [symmetric] st1] Some Inr cr c st1
          by (simp add: header_loop_thrown.simps [of _ _ "Some l"] header_loop.simps [of _ _ "Some l"])
      qed
    qed
  qed
qed

lemma no_missing: "length names = length found \<Longrightarrow> first_missing names found = None \<longleftrightarrow> (\<forall>b\<in>set found. b)"
  by (induction names found rule: list_induct2) auto

lemma length_header_loop:
  "header_loop names ie line (found, order) = Inr (found', order') \<Longrightarrow> length found' = length found"
proof (induction names ie line "(found, order)" arbitrary: found order rule: header_loop.induct)
  case (1 names ie line found order)
  show ?case
  proof (cases line)
    case None
    then show ?thesis using 1(2) by (simp add: header_loop.simps [of _ _ None])
  next
    case (Some l)
    then obtain col rest f1 o1 where c: "chop_next_column l = Inr (col, rest)"
      "header_column names ie (unescape (trim_chars [] col)) (found, order) = Inr (f1, o1)"
      "header_loop names ie rest (f1, o1) = Inr (found', order')"
      using 1(2) by (auto simp: header_loop.simps [of _ _ "Some l"] split: sum.splits)
    then have "length found' = length f1" using 1(1) [OF Some c(1) refl c(2)] by simp
    moreover have "length f1 = length found" using c(2) by (auto simp: header_column_def Let_def split: if_splits)
    ultimately show ?thesis by simp
  qed
qed

text \<open>The model's header fails exactly where the code throws, and every exception reaches the caller.\<close>

lemma forget_parse_header: "forget (parse_header_thrown line names ie im) = parse_header_line line names ie im"
proof (cases "header_loop_thrown names ie (Some line) (replicate (length names) False, [])")
  case (Inl e)
  then have "header_loop names ie (Some line) (replicate (length names) False, []) = Inl Uncaught_exception"
    by (metis forget_header_loop forget_simps(1))
  then show ?thesis using Inl by (simp add: parse_header_thrown_def parse_header_line_def)
next
  case (Inr fo)
  obtain found order where fo: "fo = (found, order)" by (cases fo)
  have l: "header_loop names ie (Some line) (replicate (length names) False, []) = Inr (found, order)"
    using Inr fo by (metis forget_header_loop forget_simps(2))
  have "length names = length found" using length_header_loop [OF l] by simp
  from no_missing [OF this] show ?thesis
    using Inr fo l by (cases "first_missing names found") (auto simp: parse_header_thrown_def parse_header_line_def)
qed

lemma forget_parse_columns: "forget (parse_columns_thrown ks line row) = parse_columns ks line row"
proof (induction ks line row rule: parse_columns_thrown.induct)
  case (2 k ks line row)
  show ?case
  proof (cases line)
    case (Some l)
    show ?thesis
    proof (cases "chop_thrown l")
      case (Inl e)
      then have "chop_next_column l = Inl Uncaught_exception" by (metis forget_chop forget_simps(1))
      then show ?thesis using Some Inl by simp
    next
      case (Inr cr)
      moreover from this have "chop_next_column l = Inr cr" by (metis forget_chop forget_simps(2))
      ultimately show ?thesis using Some 2 by (cases cr) simp
    qed
  qed simp
qed simp

lemma forget_parse_line: "forget (parse_line_thrown line order row) = parse_line line order row"
  unfolding parse_line_thrown_def parse_line_def forget_and_then forget_parse_columns
  by (rule arg_cong [where f = "and_then (parse_columns order (Some line) row)"]) (auto simp: require_def)

lemma read_header_throws:
  "read_header bl ie im names r = and_then (next_line bl (csv_in r)) (\<lambda>(line, lr).
     and_then (forget (read_header_thrown file_name line ie im names)) (\<lambda>order.
       Inr (r\<lparr>column_names := names, csv_in := lr, col_order := order\<rparr>)))"
  by (auto simp: read_header_def read_header_thrown_def forget_parse_header and_then_def split: sum.splits option.splits)

lemma read_row_throws:
  "read_row bl r = and_then (next_line bl (csv_in r)) (\<lambda>(line, lr).
     case line of None \<Rightarrow> Inr (None, r\<lparr>csv_in := lr\<rparr>)
     | Some l \<Rightarrow> and_then (forget (read_row_thrown file_name n l (col_order r) (length (column_names r)))) (\<lambda>row.
         Inr (Some row, r\<lparr>csv_in := lr\<rparr>)))"
proof -
  have "forget (read_row_thrown file_name n l order k) = parse_line l order (replicate k None)" for l order k
    by (simp add: read_row_thrown_def forget_parse_line)
  then show ?thesis unfolding read_row_def by (simp only:)
qed

section \<open>What a table leads to\<close>

lemma forget_Inr: "forget r = Inr x \<longleftrightarrow> r = Inr x"
  by (cases r) simp_all

lemma first_missing_find:
  assumes "length found = length names" "\<forall>i<length names. found ! i \<longleftrightarrow> P (names ! i)"
  shows "first_missing names found = find (\<lambda>n. \<not> P n) names"
  using assms
proof (induction names arbitrary: found)
  case (Cons n ns)
  obtain b bs where f: "found = b # bs" using Cons.prems(1) by (cases found) auto
  have "b \<longleftrightarrow> P n" using Cons.prems(2) f by force
  moreover have "\<forall>i<length ns. bs ! i \<longleftrightarrow> P (ns ! i)" using Cons.prems(2) f by force
  ultimately show ?case using Cons.IH [of bs] Cons.prems(1) f by simp
qed simp

text \<open>A header without a wanted column: the message names the first of them.\<close>

lemma header_names_missing:
  assumes "hs \<noteq> []" "distinct hs" "distinct names"
  shows "read_header_thrown file_name (Some (csv_line hs)) True False names =
    (case find (\<lambda>n. n \<notin> set hs) names of None \<Rightarrow> Inr (map (wanted names) hs)
     | Some n \<Rightarrow> Inl (missing_column_in_header, set_file_name file_name (set_column_name n error_context_ctor)))"
proof -
  obtain found' where f: "header_loop names True (Some (csv_line hs)) (replicate (length names) False, [])
      = Inr (found', map (wanted names) hs)" "length found' = length names"
    "\<forall>i<length names. found' ! i = (i \<in> set (List.map_filter (wanted names) hs))"
    using header_loop_csv [of hs "replicate (length names) False" names "[]"] assms(1,2)
    by (auto simp: nth_replicate)
  have t: "header_loop_thrown names True (Some (csv_line hs)) (replicate (length names) False, [])
      = Inr (found', map (wanted names) hs)"
    using f(1) forget_header_loop forget_Inr by metis
  have m: "i \<in> set (List.map_filter (wanted names) hs) \<longleftrightarrow> (\<exists>h\<in>set hs. wanted names h = Some i)" for i
    by (auto simp: map_filter_def image_iff)
  have "found' ! i \<longleftrightarrow> names ! i \<in> set hs" if i: "i < length names" for i
    using f(3) i by (simp add: m wanted_iff [OF assms(3) i])
  then have "first_missing names found' = find (\<lambda>n. n \<notin> set hs) names"
    using first_missing_find [OF f(2), of "\<lambda>n. n \<in> set hs"] by simp
  then show ?thesis using t by (simp add: read_header_thrown_def parse_header_thrown_def split: option.splits)
qed

text \<open>A row of another length than the header: which exception it is, with the number of the line.\<close>

lemma short_row:
  "length fs < length ks \<Longrightarrow> fs \<noteq> [] \<Longrightarrow>
    parse_columns_thrown ks (Some (csv_line fs)) row = Inl (too_few_columns, error_context_ctor)"
proof (induction fs arbitrary: ks row)
  case (Cons f fs)
  then obtain k ks' where ks: "ks = k # ks'" by (cases ks) auto
  show ?case
  proof (cases fs)
    case Nil
    then obtain k' ks'' where "ks' = k' # ks''" using Cons.prems ks by (cases ks') auto
    with Nil ks show ?thesis by (simp add: chop_thrown_def)
  next
    case (Cons g gs)
    then show ?thesis using Cons.IH [of ks'] Cons.prems ks by (simp add: chop_thrown_def)
  qed
qed simp

lemma long_row:
  "length ks < length fs \<Longrightarrow>
    \<exists>l row'. parse_columns_thrown ks (Some (csv_line fs)) row = Inr (Some l, row')"
proof (induction fs arbitrary: ks row)
  case (Cons f fs)
  show ?case
  proof (cases ks)
    case (Cons k ks')
    then obtain g gs where "fs = g # gs" using Cons.prems by (cases fs) auto
    then show ?thesis using Cons Cons.IH [of ks'] Cons.prems by (simp add: chop_thrown_def)
  qed simp
qed simp

lemma row_length_checked:
  assumes "fs \<noteq> []" "length fs \<noteq> length ks"
  shows "read_row_thrown file_name n (csv_line fs) ks m =
    Inl (if length fs < length ks then too_few_columns else too_many_columns,
         set_file_line n (set_file_name file_name error_context_ctor))"
proof (cases "length fs < length ks")
  case True
  then show ?thesis using short_row [OF True assms(1)] by (simp add: read_row_thrown_def parse_line_thrown_def)
next
  case False
  then have "length ks < length fs" using assms(2) by simp
  from long_row [OF this] obtain l row' where
    "parse_columns_thrown ks (Some (csv_line fs)) (replicate m None) = Inr (Some l, row')" by blast
  then show ?thesis using False by (simp add: read_row_thrown_def parse_line_thrown_def)
qed

lemma right_row:
  assumes "fs \<noteq> []" "length fs = length hs" "distinct hs" "distinct names" "set names \<subseteq> set hs"
  shows "read_row_thrown file_name n (csv_line fs) (map (wanted names) hs) (length names) = Inr (wanted_columns hs names fs)"
proof -
  have "parse_columns (map (wanted names) hs) (Some (csv_line fs)) (replicate (length names) None) = Inr (None, wanted_columns hs names fs)"
    using parse_columns_csv [of "map (wanted names) hs" fs] assms assign_all [OF assms(2-5)] by (simp add: wanted_columns_def)
  then have "parse_columns_thrown (map (wanted names) hs) (Some (csv_line fs)) (replicate (length names) None)
      = Inr (None, wanted_columns hs names fs)"
    using forget_parse_columns forget_Inr by metis
  then show ?thesis by (simp add: read_row_thrown_def parse_line_thrown_def)
qed

section \<open>Property\<close>

text \<open>
  C29: mistakes in a table are reported. Of a table with quoted columns and the header \<open>hs\<close>, read with columns of the names
  \<open>names\<close>: if a name is not in the header, the exception is about the first such name and its text has that name and the file. Otherwise a row as long
  as the header gives its columns, and a row of another length an exception whose text has the number of the line and the file.
\<close>

theorem csv_mistakes_reported:
  assumes "hs \<noteq> []" "distinct hs" "distinct names" "length f \<le> 255" "\<forall>n\<in>set names. length n \<le> 63" "fs \<noteq> []"
  shows "case find (\<lambda>n. n \<notin> set hs) names of
      Some n \<Rightarrow> \<exists>c. read_header_thrown f (Some (csv_line hs)) True False names = Inl (missing_column_in_header, c)
        \<and> error_what missing_column_in_header c = ''Missing column '' @ quoted n @ '' in header of file '' @ quoted f @ ''.''
    | None \<Rightarrow> read_header_thrown f (Some (csv_line hs)) True False names = Inr (map (wanted names) hs)
        \<and> (if length fs = length hs
           then read_row_thrown f k (csv_line fs) (map (wanted names) hs) (length names) = Inr (wanted_columns hs names fs)
           else \<exists>e c. read_row_thrown f k (csv_line fs) (map (wanted names) hs) (length names) = Inl (e, c)
             \<and> error_what e c = (if length fs < length hs then ''Too few columns'' else ''Too many columns'') @ '' in line ''
                @ int_to_string k @ '' in file '' @ quoted f @ ''.'')"
proof (cases "find (\<lambda>n. n \<notin> set hs) names")
  case (Some n)
  define c where "c = set_file_name f (set_column_name n error_context_ctor)"
  have "n \<in> set names" using Some by (auto simp: find_Some_iff)
  then have "err_column_name c = n" "err_file_name c = f"
    using assms(4,5) by (simp_all add: c_def context_setters csv_limits)
  moreover have "error_what missing_column_in_header c = message_text missing_column_in_header c"
    by (rule messages_complete) (simp_all add: c_def)
  ultimately have "error_what missing_column_in_header c = ''Missing column '' @ quoted n @ '' in header of file '' @ quoted f @ ''.''"
    by (simp add: header_message_def)
  with Some header_names_missing [OF assms(1-3), of f] show ?thesis by (simp add: c_def)
next
  case None
  then have sub: "set names \<subseteq> set hs" by (auto simp: find_None_iff)
  show ?thesis
  proof (cases "length fs = length hs")
    case True
    then show ?thesis
      using None header_names_missing [OF assms(1-3), of f] right_row [OF assms(6) True assms(2,3) sub] by simp
  next
    case False
    define e c where "e = (if length fs < length hs then too_few_columns else too_many_columns)"
      and "c = set_file_line k (set_file_name f error_context_ctor)"
    have "read_row_thrown f k (csv_line fs) (map (wanted names) hs) (length names) = Inl (e, c)"
      using row_length_checked [OF assms(6), of "map (wanted names) hs"] False by (simp add: e_def c_def)
    moreover have "err_file_line c = k" "err_file_name c = f"
      using assms(4) by (simp_all add: c_def context_setters csv_limits)
    moreover have "error_what e c = message_text e c"
      by (rule messages_complete) (simp_all add: e_def c_def)
    ultimately show ?thesis
      using None False header_names_missing [OF assms(1-3), of f] by (simp add: e_def line_message_def)
  qed
qed

text \<open>A packet trace without lengths; one whose second line has a column too many.\<close>

theorem csv_mistakes_reported_witness:
  "(\<exists>c. read_header_thrown ''p.csv'' (Some (csv_line [''TimeUS'', ''Size''])) True False [''TimeUS'', ''Length''] = Inl (missing_column_in_header, c)
      \<and> error_what missing_column_in_header c = ''Missing column '' @ quoted ''Length'' @ '' in header of file '' @ quoted ''p.csv'' @ ''.'')
   \<and> (\<exists>e c. read_row_thrown ''p.csv'' 2 (csv_line [''5'', ''3'', ''1'']) (map (wanted [''TimeUS'', ''Length'']) [''TimeUS'', ''Length'']) 2 = Inl (e, c)
      \<and> error_what e c = ''Too many columns in line '' @ int_to_string 2 @ '' in file '' @ quoted ''p.csv'' @ ''.'')"
proof -
  have n: "distinct [''TimeUS'', ''Length'']" "length ''p.csv'' \<le> 255" "\<forall>n\<in>set [''TimeUS'', ''Length'']. length n \<le> 63" by simp_all
  have h: "[''TimeUS'', ''Size''] \<noteq> []" "distinct [''TimeUS'', ''Size'']" and h': "[''TimeUS'', ''Length''] \<noteq> []" by simp_all
  have r: "[''5'', ''3'', ''1''] \<noteq> []" by simp
  have fi: "find (\<lambda>n. n \<notin> set [''TimeUS'', ''Size'']) [''TimeUS'', ''Length''] = Some ''Length''"
    "find (\<lambda>n. n \<notin> set [''TimeUS'', ''Length'']) [''TimeUS'', ''Length''] = None" by simp_all
  have l: "length [''5'', ''3'', ''1''] = 3" "length [''TimeUS'', ''Length''] = 2" by simp_all
  note a = csv_mistakes_reported [OF h n r, of 0, unfolded fi option.case]
  note b = csv_mistakes_reported [OF h' n(1) n r, of 2, unfolded fi option.case l]
  from a b show ?thesis by simp
qed

end
