(* ===== verification/CsvNumbers.thy ===== *)
theory CsvNumbers
  imports CsvErrors
begin

text \<open>
  The parts of the CSV reader (linux/common/inc/csv.h) that its other users can choose: columns of integers and single
  characters with the three overflow policies, comments, columns without quotes, and a source in memory. The programs here
  read every column as a string. An integer type is given by its limits; every value that is computed stays within them
  or is an \<open>int\<close> of the promotion, so that integers without width give the same results.
\<close>

section \<open>Overflow policies\<close>

datatype overflow_policy = throw_on_overflow | ignore_overflow | set_to_max_on_overflow

text \<open>The limits of a type, \<open>numeric_limits<T>::min()\<close> and \<open>max()\<close>.\<close>

type_synonym limits = "int \<times> int"

fun on_overflow :: "overflow_policy \<Rightarrow> limits \<Rightarrow> int \<Rightarrow> csv_error + int" where
  "on_overflow throw_on_overflow T x = Inl integer_overflow"
| "on_overflow ignore_overflow T x = Inr x"
| "on_overflow set_to_max_on_overflow T x = Inr (snd T)"

fun on_underflow :: "overflow_policy \<Rightarrow> limits \<Rightarrow> int \<Rightarrow> csv_error + int" where
  "on_underflow throw_on_overflow T x = Inl integer_underflow"
| "on_underflow ignore_overflow T x = Inr x"
| "on_underflow set_to_max_on_overflow T x = Inr (fst T)"

section \<open>Integers\<close>

definition digit_of :: "char \<Rightarrow> int" where
  "digit_of c = int (of_char c) - 48"

fun unsigned_loop :: "overflow_policy \<Rightarrow> limits \<Rightarrow> string \<Rightarrow> int \<Rightarrow> csv_error + int" where
  "unsigned_loop pol T [] x = Inr x"
| "unsigned_loop pol T (c # col) x =
     (if is_digit c
      then if x > (snd T - digit_of c) sdiv 10 then on_overflow pol T x
           else unsigned_loop pol T col (10 * x + digit_of c)
      else Inl no_digit)"

definition parse_unsigned_integer :: "overflow_policy \<Rightarrow> limits \<Rightarrow> string \<Rightarrow> csv_error + int" where
  "parse_unsigned_integer pol T col = unsigned_loop pol T col 0"

fun negative_loop :: "overflow_policy \<Rightarrow> limits \<Rightarrow> string \<Rightarrow> int \<Rightarrow> csv_error + int" where
  "negative_loop pol T [] x = Inr x"
| "negative_loop pol T (c # col) x =
     (if is_digit c
      then if x < (fst T + digit_of c) sdiv 10 then on_underflow pol T x
           else negative_loop pol T col (10 * x - digit_of c)
      else Inl no_digit)"

definition parse_signed_integer :: "overflow_policy \<Rightarrow> limits \<Rightarrow> string \<Rightarrow> csv_error + int" where
  "parse_signed_integer pol T col =
     (if col \<noteq> [] \<and> hd col = CHR ''-'' then negative_loop pol T (tl col) 0
      else if col \<noteq> [] \<and> hd col = CHR ''+'' then parse_unsigned_integer pol T (tl col)
      else parse_unsigned_integer pol T col)"

section \<open>Columns by type\<close>

text \<open>\<open>Unsigned k\<close> and \<open>Signed k\<close> are the integer types of \<open>k\<close> bytes; the floating-point types are left out.\<close>

datatype column_type = Character | Text | Unsigned nat | Signed nat

datatype column_value = Char_value char | Text_value string | Int_value int

definition unsigned_limits :: "nat \<Rightarrow> limits" where
  "unsigned_limits k = (0, 2 ^ (8 * k) - 1)"

definition signed_limits :: "nat \<Rightarrow> limits" where
  "signed_limits k = (- (2 ^ (8 * k - 1)), 2 ^ (8 * k - 1) - 1)"

fun parse_column :: "overflow_policy \<Rightarrow> column_type \<Rightarrow> string \<Rightarrow> csv_error + column_value" where
  "parse_column pol Character col =
     (case col of [c] \<Rightarrow> Inr (Char_value c) | _ \<Rightarrow> Inl invalid_single_character)"
| "parse_column pol Text col = Inr (Text_value col)"
| "parse_column pol (Unsigned k) col = map_sum id Int_value (parse_unsigned_integer pol (unsigned_limits k) col)"
| "parse_column pol (Signed k) col = map_sum id Int_value (parse_signed_integer pol (signed_limits k) col)"

text \<open>
  \<open>parse_helper\<close>: the columns of a row in their order into variables that hold \<open>vs\<close>; a column that the file does not have leaves its variable. An
  exception gets the content and the name of its column.
\<close>

fun parse_helper ::
    "overflow_policy \<Rightarrow> string list \<Rightarrow> column_type list \<Rightarrow> string option list \<Rightarrow> column_value list \<Rightarrow> thrown + column_value list" where
  "parse_helper pol (n # ns) (t # ts) (r # rs) (v # vs) =
     (case r of
        None \<Rightarrow> and_then (parse_helper pol ns ts rs vs) (\<lambda>ws. Inr (v # ws))
      | Some col \<Rightarrow>
          (case parse_column pol t col of
             Inl e \<Rightarrow> Inl (e, set_column_name n (set_column_content col error_context_ctor))
           | Inr w \<Rightarrow> and_then (parse_helper pol ns ts rs vs) (\<lambda>ws. Inr (w # ws))))"
| "parse_helper pol _ _ _ vs = Inr vs"

section \<open>Comments, columns without quotes, sources\<close>

definition no_comment :: "string \<Rightarrow> bool" where
  "no_comment line = False"

text \<open>The first character is looked at, the null byte of an empty line included.\<close>

definition single_line_comment :: "char list \<Rightarrow> string \<Rightarrow> bool" where
  "single_line_comment starts line \<longleftrightarrow> (case line of [] \<Rightarrow> CHR 0x00 | c # cs \<Rightarrow> c) \<in> set starts"

fun empty_line_comment :: "string \<Rightarrow> bool" where
  "empty_line_comment [] = True"
| "empty_line_comment (c # cs) = ((c = CHR '' '' \<or> c = CHR 0x09) \<and> empty_line_comment cs)"

definition single_and_empty_line_comment :: "char list \<Rightarrow> string \<Rightarrow> bool" where
  "single_and_empty_line_comment starts line \<longleftrightarrow> single_line_comment starts line \<or> empty_line_comment line"

definition unquoted_column_length :: "string \<Rightarrow> nat" where
  "unquoted_column_length col = length (takeWhile (\<lambda>c. c \<noteq> sep) col)"

definition unquoted_unescape :: "string \<Rightarrow> string" where
  "unquoted_unescape col = col"

text \<open>\<open>NonOwningStringByteSource\<close>: the bytes at the pointer and how many of them may still be read.\<close>

definition string_source_read :: "nat \<Rightarrow> string \<times> nat \<Rightarrow> string \<times> string \<times> nat" where
  "string_source_read desired_byte_count src =
     (let to_copy_byte_count = (if snd src < desired_byte_count then snd src else desired_byte_count)
      in (take to_copy_byte_count (fst src), drop to_copy_byte_count (fst src), snd src - to_copy_byte_count))"

text \<open>\<open>SynchronousReader\<close>: the read is remembered and done when its result is asked for.\<close>

definition sync_start_read :: "nat \<Rightarrow> string \<Rightarrow> nat \<times> string" where
  "sync_start_read desired_byte_count src = (desired_byte_count, src)"

definition sync_finish_read :: "nat \<times> string \<Rightarrow> string \<times> string" where
  "sync_finish_read r = read_source (fst r) (snd r)"

definition set_header :: "string list \<Rightarrow> csv_reader \<Rightarrow> csv_reader" where
  "set_header names r = r\<lparr>column_names := names, col_order := map Some [0..<length names]\<rparr>"

definition has_column :: "string \<Rightarrow> csv_reader \<Rightarrow> bool" where
  "has_column name r \<longleftrightarrow> Some (position name (column_names r)) \<in> set (col_order r)"

section \<open>What the integer columns mean\<close>

text \<open>The number that digits add to \<open>x\<close>, and how far it gets before it would exceed \<open>h\<close>.\<close>

definition value_from :: "int \<Rightarrow> string \<Rightarrow> int" where
  "value_from x ds = foldl (\<lambda>x c. 10 * x + digit_of c) x ds"

fun fitting :: "int \<Rightarrow> int \<Rightarrow> string \<Rightarrow> int" where
  "fitting h x [] = x"
| "fitting h x (c # ds) = (if h < 10 * x + digit_of c then x else fitting h (10 * x + digit_of c) ds)"

lemma value_from_simps [simp]: "value_from x [] = x" "value_from x (c # ds) = value_from (10 * x + digit_of c) ds"
  by (simp_all add: value_from_def)

lemma digit_bounds: "is_digit c \<Longrightarrow> 0 \<le> digit_of c \<and> digit_of c \<le> 9"
proof -
  assume "is_digit c"
  then have "48 \<le> (of_char c :: nat)" "(of_char c :: nat) \<le> 57" by (simp_all add: is_digit_def)
  then show ?thesis by (simp add: digit_of_def)
qed

lemma value_from_mono: "0 \<le> x \<Longrightarrow> \<forall>c\<in>set ds. is_digit c \<Longrightarrow> x \<le> value_from x ds"
proof (induction ds arbitrary: x)
  case (Cons c ds)
  have d: "0 \<le> digit_of c" using digit_bounds [of c] Cons.prems(2) by simp
  then have "10 * x + digit_of c \<le> value_from (10 * x + digit_of c) ds"
    using Cons by simp
  then show ?case using d Cons.prems(1) by simp
qed simp

text \<open>The test before a digit is added is exact.\<close>

lemma less_div_10: "x > a div (10 :: int) \<longleftrightarrow> a < 10 * x"
proof -
  have "a = 10 * (a div 10) + a mod 10" "0 \<le> a mod 10" "a mod 10 < 10" by simp_all
  then show ?thesis by linarith
qed

lemma test_exact:
  assumes "9 \<le> (h :: int)" "0 \<le> d" "d \<le> 9"
  shows "x > (h - d) sdiv 10 \<longleftrightarrow> h < 10 * x + d"
proof -
  have "(h - d) sdiv 10 = (h - d) div 10" using assms by (simp add: signed_divide_int_def sgn_if)
  then show ?thesis using less_div_10 [of "h - d" x] by linarith
qed

lemma test_exact_below:
  assumes "l \<le> (- 9 :: int)" "0 \<le> d" "d \<le> 9"
  shows "x < (l + d) sdiv 10 \<longleftrightarrow> 10 * x - d < l"
proof -
  have "(l + d) sdiv 10 = - ((- l - d) div 10)" using assms by (simp add: signed_divide_int_def sgn_if)
  then show ?thesis using less_div_10 [of "- l - d" "- x"] by linarith
qed

lemma unsigned_loop_outcome:
  assumes "9 \<le> snd T" "0 \<le> x" "x \<le> snd T"
  shows "unsigned_loop pol T col x =
    (let ds = takeWhile is_digit col in
     if value_from x ds \<le> snd T then (if ds = col then Inr (value_from x ds) else Inl no_digit)
     else on_overflow pol T (fitting (snd T) x ds))"
  using assms(2,3)
proof (induction col arbitrary: x)
  case (Cons c col)
  show ?case
  proof (cases "is_digit c")
    case True
    note d = digit_bounds [OF True]
    note t = test_exact [OF assms(1) d [THEN conjunct1] d [THEN conjunct2], of x]
    have "0 \<le> 10 * x + digit_of c" using Cons.prems(1) d by simp
    moreover from this have "10 * x + digit_of c \<le> value_from x (takeWhile is_digit (c # col))"
      using True value_from_mono [of "10 * x + digit_of c" "takeWhile is_digit col"] by (auto dest: set_takeWhileD)
    ultimately show ?thesis using True t Cons.IH [of "10 * x + digit_of c"] by (auto simp: Let_def)
  qed (use Cons.prems in \<open>simp add: Let_def\<close>)
qed simp

lemma negative_loop_outcome:
  assumes "fst T \<le> - 9" "x \<le> 0" "fst T \<le> x"
  shows "negative_loop pol T col x =
    (let ds = takeWhile is_digit col in
     if fst T \<le> - value_from (- x) ds then (if ds = col then Inr (- value_from (- x) ds) else Inl no_digit)
     else on_underflow pol T (- fitting (- fst T) (- x) ds))"
  using assms(2,3)
proof (induction col arbitrary: x)
  case (Cons c col)
  show ?case
  proof (cases "is_digit c")
    case True
    note d = digit_bounds [OF True]
    note t = test_exact_below [OF assms(1) d [THEN conjunct1] d [THEN conjunct2], of x]
    have n: "- (10 * x - digit_of c) = 10 * (- x) + digit_of c" by simp
    have "0 \<le> 10 * (- x) + digit_of c" using Cons.prems(1) d by simp
    moreover from this have "10 * (- x) + digit_of c \<le> value_from (- x) (takeWhile is_digit (c # col))"
      using True value_from_mono [of "10 * (- x) + digit_of c" "takeWhile is_digit col"] by (auto dest: set_takeWhileD)
    ultimately show ?thesis using True t Cons.IH [of "10 * x - digit_of c"] unfolding n by (auto simp: Let_def)
  qed (use Cons.prems in \<open>simp add: Let_def\<close>)
qed simp

text \<open>
  The meaning of a column of a signed type: an optional sign and digits, of which there may be none. A number within the limits is
  read exactly, if nothing follows it; outside of them the policy decides, whatever follows.
\<close>

lemma signed_integer_outcome:
  assumes "fst T \<le> - 9" "9 \<le> snd T"
  shows "parse_signed_integer pol T col =
    (let neg = (col \<noteq> [] \<and> hd col = CHR ''-'');
         body = (if col \<noteq> [] \<and> (hd col = CHR ''-'' \<or> hd col = CHR ''+'') then tl col else col);
         ds = takeWhile is_digit body; v = value_from 0 ds
     in if (if neg then fst T \<le> - v else v \<le> snd T)
        then (if ds = body then Inr (if neg then - v else v) else Inl no_digit)
        else if neg then on_underflow pol T (- fitting (- fst T) 0 ds)
        else on_overflow pol T (fitting (snd T) 0 ds))"
  using unsigned_loop_outcome [of T 0 pol] negative_loop_outcome [of T 0 pol] assms
  by (simp add: parse_signed_integer_def parse_unsigned_integer_def Let_def)

lemma fitting_bounds: "0 \<le> x \<Longrightarrow> x \<le> h \<Longrightarrow> \<forall>c\<in>set ds. is_digit c \<Longrightarrow> 0 \<le> fitting h x ds \<and> fitting h x ds \<le> h"
proof (induction h x ds rule: fitting.induct)
  case (2 h x c ds)
  have "0 \<le> digit_of c" using digit_bounds [of c] 2(4) by simp
  then show ?case using 2 by simp
qed simp

text \<open>Whatever the text and the policy, a value that is returned is a value of the type.\<close>

lemma signed_integer_in_range:
  assumes "fst T \<le> - 9" "9 \<le> snd T" "parse_signed_integer pol T col = Inr x"
  shows "fst T \<le> x \<and> x \<le> snd T"
proof -
  have digits: "\<forall>c\<in>set (takeWhile is_digit s). is_digit c" for s by (auto dest: set_takeWhileD)
  have v: "0 \<le> value_from 0 (takeWhile is_digit s)" for s using value_from_mono [OF _ digits] by simp
  have "0 \<le> fitting h 0 (takeWhile is_digit s) \<and> fitting h 0 (takeWhile is_digit s) \<le> h" if "9 \<le> h" for h s
    using fitting_bounds [OF _ _ digits] that by simp
  note f = this
  define neg where "neg = (col \<noteq> [] \<and> hd col = CHR ''-'')"
  define body where "body = (if col \<noteq> [] \<and> (hd col = CHR ''-'' \<or> hd col = CHR ''+'') then tl col else col)"
  let ?ds = "takeWhile is_digit body"
  have "0 \<le> value_from 0 ?ds" "0 \<le> fitting (snd T) 0 ?ds" "fitting (snd T) 0 ?ds \<le> snd T"
    "0 \<le> fitting (- fst T) 0 ?ds" "fitting (- fst T) 0 ?ds \<le> - fst T"
    using v f [of "snd T" body] f [of "- fst T" body] assms(1,2) by simp_all
  then show ?thesis
    using assms(3) [unfolded signed_integer_outcome [OF assms(1,2)], folded neg_def body_def] assms(1,2)
    by (cases pol; cases neg) (auto simp: Let_def split: if_splits)
qed

text \<open>An \<open>int\<close> that was printed is read back, under every policy.\<close>

lemma value_from_digits: "\<forall>c\<in>set ds. is_digit c \<Longrightarrow> value_from (int x) ds = int (foldl (\<lambda>n c. 10 * n + (of_char c - 48)) x ds)"
proof (induction ds arbitrary: x)
  case (Cons c ds)
  have "48 \<le> (of_char c :: nat)" using Cons.prems by (simp add: is_digit_def)
  then have "10 * int x + digit_of c = int (10 * x + (of_char c - 48))" by (simp add: digit_of_def of_nat_diff)
  then show ?case using Cons.IH [of "10 * x + (of_char c - 48)"] Cons.prems by simp
qed simp

lemma value_of_digits: "value_from 0 (digits n) = int n"
  using value_from_digits [of "digits n" 0] digits_are_digits [of _ n] digits_value_digits [of n]
  by (simp add: digits_value_def)

lemma parse_printed_int:
  "parse_column pol (Signed 4) (int_to_string w) = Inr (Int_value (sint w))"
proof -
  have T: "fst (signed_limits 4) \<le> - 9" "9 \<le> snd (signed_limits 4)" by (simp_all add: signed_limits_def)
  have r: "- (2 ^ 31) \<le> sint w" "sint w \<le> 2 ^ 31 - 1"
    using sint_greater_eq [of w] sint_less [of w] by simp_all
  have tw: "takeWhile is_digit (digits n) = digits n" for n using digits_are_digits by (simp add: takeWhile_eq_all_conv)
  have hd: "hd (digits n) \<noteq> CHR ''-''" "hd (digits n) \<noteq> CHR ''+''" for n
    using digits_are_digits [of "hd (digits n)" n] digits_not_empty [of n] by (auto simp: is_digit_def)
  show ?thesis
    using r hd [of "nat (sint w)"] unfolding parse_column.simps signed_integer_outcome [OF T] int_to_string_def
    by (simp add: Let_def tw value_of_digits signed_limits_def digits_are_digits digits_not_empty)
qed

text \<open>No digits at all are the number 0.\<close>

lemma no_digits_is_zero:
  assumes "fst T \<le> - 9" "9 \<le> snd T" "col \<in> {[], ''-'', ''+''}"
  shows "parse_signed_integer pol T col = Inr 0"
  using assms by (auto simp: signed_integer_outcome Let_def)

section \<open>The other choices agree where they overlap\<close>

text \<open>Without quotes in the line both quote policies cut the same column and leave it as it is.\<close>

lemma unquoted_agrees:
  assumes "quote \<notin> set col"
  shows "column_length col = Inr (unquoted_column_length col)" "unescape col = unquoted_unescape col"
proof -
  show "column_length col = Inr (unquoted_column_length col)"
    using assms by (induction col) (auto simp: unquoted_column_length_def)
  have "hd col \<noteq> quote" if "2 \<le> length col" using assms that by (cases col) auto
  then show "unescape col = unquoted_unescape col" by (auto simp: unescape_def unquoted_unescape_def)
qed

text \<open>A source in memory delivers what the file source delivers, and so does a reader without a thread.\<close>

lemma string_source_is_file:
  "string_source_read n (s, length s) = (fst (read_source n s), snd (read_source n s), length (snd (read_source n s)))"
  by (simp add: string_source_read_def read_source_def Let_def)

lemma sync_reads_source: "sync_finish_read (sync_start_read n src) = read_source n src"
  by (simp add: sync_start_read_def sync_finish_read_def)

lemma has_column_of_header:
  assumes "col_order r = map (wanted (column_names r)) hs" "distinct (column_names r)" "name \<in> set (column_names r)"
  shows "has_column name r \<longleftrightarrow> name \<in> set hs"
proof -
  let ?i = "position name (column_names r)"
  have i: "?i < length (column_names r)" "column_names r ! ?i = name" using nth_position assms(3) by auto
  have "has_column name r \<longleftrightarrow> (\<exists>h\<in>set hs. wanted (column_names r) h = Some ?i)"
    by (auto simp: has_column_def assms(1) image_iff) (metis (full_types))+
  then show ?thesis using wanted_iff [OF assms(2) i(1)] i(2) by simp
qed

lemma no_such_column:
  assumes "\<forall>k\<in>set (col_order r). \<forall>i. k = Some i \<longrightarrow> i < length (column_names r)" "name \<notin> set (column_names r)"
  shows "\<not> has_column name r"
proof -
  have "position name ns = length ns" if "name \<notin> set ns" for ns using that by (induction ns) auto
  then show ?thesis using assms by (auto simp: has_column_def)
qed

end
