(* ===== verification/ControlThreads.thy ===== *)
theory ControlThreads
  imports Switcher
begin

text \<open>
  The start and stop of the threads of the control side: the monitor (linux/core/src/NetworkMonitorThread.cpp), the logger
  (MonitorLoggingThread.cpp) and the receiver of control messages (ControlMessageReceiver.cpp). Each loops while a flag is set. The
  first two set the flag where they start the thread, the receiver sets it in the thread. A round of a loop is one step here;
  what it does is the subject of the other theories.
\<close>

section \<open>The threads\<close>

datatype loop_pc = At_begin | At_head | In_body | At_finish | Ended

text \<open>Every start makes a new thread and forgets the one before, so there may be several.\<close>

record loop_threads =
  thread_on :: bool
  pcs :: "loop_pc list"
  rounds :: nat

definition no_threads :: loop_threads where
  "no_threads = \<lparr>thread_on = False, pcs = [], rounds = 0\<rparr>"

definition monitor_start :: "loop_threads \<Rightarrow> loop_threads" where
  "monitor_start s = s\<lparr>thread_on := True, pcs := pcs s @ [At_head]\<rparr>"

definition monitor_stop :: "loop_threads \<Rightarrow> loop_threads" where
  "monitor_stop s = s\<lparr>thread_on := False\<rparr>"

definition start_receiving_thread :: "loop_threads \<Rightarrow> loop_threads" where
  "start_receiving_thread s = s\<lparr>pcs := pcs s @ [At_begin]\<rparr>"

definition stop_receiving_thread :: "loop_threads \<Rightarrow> loop_threads" where
  "stop_receiving_thread s = s\<lparr>thread_on := False\<rparr>"

text \<open>A step of one of the threads of the monitor: it looks at the flag, or comes back from a round.\<close>

inductive monitor_step :: "loop_threads \<Rightarrow> loop_threads \<Rightarrow> bool" where
  monitor_round: "i < length (pcs s) \<Longrightarrow> pcs s ! i = At_head \<Longrightarrow> thread_on s \<Longrightarrow>
    monitor_step s (s\<lparr>pcs := (pcs s)[i := In_body], rounds := Suc (rounds s)\<rparr>)"
| monitor_leaves: "i < length (pcs s) \<Longrightarrow> pcs s ! i = At_head \<Longrightarrow> \<not> thread_on s \<Longrightarrow>
    monitor_step s (s\<lparr>pcs := (pcs s)[i := Ended]\<rparr>)"
| monitor_slept: "i < length (pcs s) \<Longrightarrow> pcs s ! i = In_body \<Longrightarrow> monitor_step s (s\<lparr>pcs := (pcs s)[i := At_head]\<rparr>)"

text \<open>A step of one of the threads that receive; the flag is reset when a loop has ended.\<close>

inductive receiving_step :: "loop_threads \<Rightarrow> loop_threads \<Rightarrow> bool" where
  receiving_begins: "i < length (pcs s) \<Longrightarrow> pcs s ! i = At_begin \<Longrightarrow>
    receiving_step s (s\<lparr>thread_on := True, pcs := (pcs s)[i := At_head]\<rparr>)"
| receiving_round: "i < length (pcs s) \<Longrightarrow> pcs s ! i = At_head \<Longrightarrow> thread_on s \<Longrightarrow>
    receiving_step s (s\<lparr>pcs := (pcs s)[i := In_body], rounds := Suc (rounds s)\<rparr>)"
| receiving_leaves: "i < length (pcs s) \<Longrightarrow> pcs s ! i = At_head \<Longrightarrow> \<not> thread_on s \<Longrightarrow>
    receiving_step s (s\<lparr>pcs := (pcs s)[i := At_finish]\<rparr>)"
| receiving_returns: "i < length (pcs s) \<Longrightarrow> pcs s ! i = In_body \<Longrightarrow> receiving_step s (s\<lparr>pcs := (pcs s)[i := At_head]\<rparr>)"
| receiving_ends: "i < length (pcs s) \<Longrightarrow> pcs s ! i = At_finish \<Longrightarrow>
    receiving_step s (s\<lparr>thread_on := False, pcs := (pcs s)[i := Ended]\<rparr>)"

section \<open>Loops that end when they are told\<close>

text \<open>
  A system whose steps, once it was told to stop, begin no more work (\<open>work\<close> counts it) and bring it nearer to its end.
\<close>

locale stoppable =
  fixes step :: "'s \<Rightarrow> 's \<Rightarrow> bool" and told :: "'s \<Rightarrow> bool" and work :: "'s \<Rightarrow> nat" and left :: "'s \<Rightarrow> nat"
  assumes told_step: "step s s' \<Longrightarrow> told s \<Longrightarrow> told s' \<and> work s' = work s \<and> left s' < left s"
    and told_moves: "told s \<Longrightarrow> 0 < left s \<Longrightarrow> \<exists>s'. step s s'"
begin

lemma told_steps: "(step ^^ n) s s' \<Longrightarrow> told s \<Longrightarrow> told s' \<and> work s' = work s \<and> n + left s' \<le> left s"
proof (induction n arbitrary: s')
  case (Suc n)
  then obtain s1 where "(step ^^ n) s s1" "step s1 s'" by auto
  then show ?case using Suc.IH [of s1] Suc.prems(2) told_step [of s1 s'] by fastforce
qed simp

lemma told_ends:
  assumes "told s"
  shows "\<exists>n s'. (step ^^ n) s s' \<and> left s' = 0"
  using assms
proof (induction "left s" arbitrary: s rule: less_induct)
  case less
  show ?case
  proof (cases "left s = 0")
    case True
    then show ?thesis by (intro exI [of _ 0] exI [of _ s]) simp
  next
    case False
    then obtain s1 where s1: "step s s1" using told_moves less.prems by blast
    with told_step less.prems less.hyps obtain n s' where "(step ^^ n) s1 s'" "left s' = 0" by blast
    moreover from this have "(step ^^ Suc n) s s'" by (intro relpowp_Suc_I2 [where P = step, OF s1]) blast
    ultimately show ?thesis by blast
  qed
qed

end

text \<open>The steps a thread still makes once it was told to stop.\<close>

fun steps_left :: "loop_pc \<Rightarrow> nat" where
  "steps_left In_body = 3"
| "steps_left At_head = 2"
| "steps_left At_finish = 1"
| "steps_left At_begin = 0"
| "steps_left Ended = 0"

definition all_left :: "loop_threads \<Rightarrow> nat" where
  "all_left s = sum_list (map steps_left (pcs s))"

lemma sum_list_update_left:
  "i < length xs \<Longrightarrow> sum_list (map steps_left (xs[i := p])) + steps_left (xs ! i) = sum_list (map steps_left xs) + steps_left p"
proof (induction xs arbitrary: i)
  case (Cons x xs)
  then show ?case by (cases i) (auto simp: ac_simps)
qed simp

lemma all_left_update:
  assumes "i < length (pcs s)"
  shows "all_left (s\<lparr>pcs := (pcs s)[i := p]\<rparr>) + steps_left (pcs s ! i) = all_left s + steps_left p"
  using sum_list_update_left [OF assms] by (simp add: all_left_def)

lemma all_left_on [simp]: "all_left (s\<lparr>thread_on := b\<rparr>) = all_left s"
  by (simp add: all_left_def)

lemma some_left:
  assumes "0 < all_left s"
  shows "\<exists>i<length (pcs s). 0 < steps_left (pcs s ! i)"
proof (rule ccontr)
  assume "\<not> (\<exists>i<length (pcs s). 0 < steps_left (pcs s ! i))"
  then have "\<forall>p\<in>set (pcs s). steps_left p = 0" by (auto simp: in_set_conv_nth)
  then have "all_left s = 0" by (simp add: all_left_def)
  then show False using assms by simp
qed

text \<open>The monitor and the logger, told by the flag; their threads are at no other point.\<close>

definition monitor_told :: "loop_threads \<Rightarrow> bool" where
  "monitor_told s \<longleftrightarrow> \<not> thread_on s \<and> set (pcs s) \<subseteq> {At_head, In_body, Ended}"

interpretation monitor_loop: stoppable monitor_step monitor_told rounds all_left
proof unfold_locales
  fix s s' assume s: "monitor_step s s'" "monitor_told s"
  then have off: "\<not> thread_on s" and pc: "set (pcs s) \<subseteq> {At_head, In_body, Ended}" by (simp_all add: monitor_told_def)
  have sub: "set ((pcs s)[i := p]) \<subseteq> {At_head, In_body, Ended}" if "p \<in> {At_head, In_body, Ended}" for i p
    using pc that set_update_subset_insert [of "pcs s" i p] by blast
  from s(1) show "monitor_told s' \<and> rounds s' = rounds s \<and> all_left s' < all_left s"
  proof cases
    case (monitor_leaves i)
    then show ?thesis using off sub all_left_update [of i s Ended] by (simp add: monitor_told_def)
  next
    case (monitor_slept i)
    then show ?thesis using off sub all_left_update [of i s At_head] by (simp add: monitor_told_def)
  qed (use off in simp)
next
  fix s assume s: "monitor_told s" "0 < all_left s"
  obtain i where i: "i < length (pcs s)" "0 < steps_left (pcs s ! i)" using some_left [OF s(2)] by blast
  have "pcs s ! i \<in> {At_head, In_body, Ended}" using s(1) nth_mem [OF i(1)] unfolding monitor_told_def by blast
  with i(2) have "pcs s ! i = At_head \<or> pcs s ! i = In_body" by auto
  then show "\<exists>s'. monitor_step s s'"
    using i(1) s(1) by (auto simp: monitor_told_def intro: monitor_step.intros)
qed

text \<open>The receiver, told by the flag when every thread has begun.\<close>

definition receiving_told :: "loop_threads \<Rightarrow> bool" where
  "receiving_told s \<longleftrightarrow> \<not> thread_on s \<and> At_begin \<notin> set (pcs s)"

interpretation receiving_loop: stoppable receiving_step receiving_told rounds all_left
proof unfold_locales
  fix s s' assume s: "receiving_step s s'" "receiving_told s"
  then have off: "\<not> thread_on s" and pc: "At_begin \<notin> set (pcs s)" by (simp_all add: receiving_told_def)
  have sub: "At_begin \<notin> set ((pcs s)[i := p])" if "p \<noteq> At_begin" for i p
    using pc that set_update_subset_insert [of "pcs s" i p] by blast
  from s(1) show "receiving_told s' \<and> rounds s' = rounds s \<and> all_left s' < all_left s"
  proof cases
    case (receiving_begins i)
    then show ?thesis using pc nth_mem [of i "pcs s"] by simp
  next
    case (receiving_leaves i)
    then show ?thesis using off sub all_left_update [of i s At_finish] by (simp add: receiving_told_def)
  next
    case (receiving_returns i)
    then show ?thesis using off sub all_left_update [of i s At_head] by (simp add: receiving_told_def)
  next
    case (receiving_ends i)
    then show ?thesis using off sub all_left_update [of i "s\<lparr>thread_on := False\<rparr>" Ended] by (simp add: receiving_told_def)
  qed (use off in simp)
next
  fix s assume s: "receiving_told s" "0 < all_left s"
  obtain i where i: "i < length (pcs s)" "0 < steps_left (pcs s ! i)" using some_left [OF s(2)] by blast
  then show "\<exists>s'. receiving_step s s'"
    using s(1) by (cases "pcs s ! i") (auto simp: receiving_told_def intro: receiving_step.intros)
qed

section \<open>What starts and stops lead to\<close>

text \<open>Started and stopped any number of times, the threads of the monitor are only where they belong.\<close>

inductive monitor_reachable :: "loop_threads \<Rightarrow> bool" where
  "monitor_reachable no_threads"
| "monitor_reachable s \<Longrightarrow> monitor_reachable (monitor_start s)"
| "monitor_reachable s \<Longrightarrow> monitor_reachable (monitor_stop s)"
| "monitor_reachable s \<Longrightarrow> monitor_step s s' \<Longrightarrow> monitor_reachable s'"

lemma monitor_points: "monitor_reachable s \<Longrightarrow> set (pcs s) \<subseteq> {At_head, In_body, Ended}"
proof (induction rule: monitor_reachable.induct)
  case (4 s s')
  have sub: "set ((pcs s)[i := p]) \<subseteq> {At_head, In_body, Ended}" if "p \<in> {At_head, In_body, Ended}" for i p
    using 4(3) that set_update_subset_insert [of "pcs s" i p] by blast
  show ?case using 4(2)
  proof cases
    case (monitor_round i)
    then show ?thesis using sub [of In_body i] by simp
  next
    case (monitor_leaves i)
    then show ?thesis using sub [of Ended i] by simp
  next
    case (monitor_slept i)
    then show ?thesis using sub [of At_head i] by simp
  qed
qed (auto simp: no_threads_def monitor_start_def monitor_stop_def)

text \<open>A stop of the receiver that comes before its thread has begun is lost: it goes on for any number of rounds.\<close>

lemma receiving_goes_on:
  "receiving_step\<^sup>*\<^sup>* \<lparr>thread_on = True, pcs = [At_head], rounds = 0\<rparr> \<lparr>thread_on = True, pcs = [At_head], rounds = n\<rparr>"
proof (induction n)
  case (Suc n)
  let ?s = "\<lparr>thread_on = True, pcs = [At_head], rounds = n\<rparr>" and ?b = "\<lparr>thread_on = True, pcs = [In_body], rounds = Suc n\<rparr>"
  have "receiving_step ?s ?b" using receiving_round [of 0 ?s] by simp
  moreover have "receiving_step ?b (?b\<lparr>pcs := [At_head]\<rparr>)" using receiving_returns [of 0 ?b] by simp
  ultimately show ?case using Suc by simp
qed simp

lemma early_stop_is_lost:
  "receiving_step\<^sup>*\<^sup>* (stop_receiving_thread (start_receiving_thread no_threads)) \<lparr>thread_on = True, pcs = [At_head], rounds = n\<rparr>"
proof -
  let ?s = "stop_receiving_thread (start_receiving_thread no_threads)"
  have "receiving_step ?s \<lparr>thread_on = True, pcs = [At_head], rounds = 0\<rparr>"
    using receiving_begins [of 0 ?s] by (simp add: stop_receiving_thread_def start_receiving_thread_def no_threads_def)
  then show ?thesis using receiving_goes_on [of n] by (rule converse_rtranclp_into_rtranclp)
qed

text \<open>A receiver that ends resets the flag of the one that was started after it, which ends although nobody stopped it.\<close>

lemma old_receiver_stops_new:
  assumes "pcs s = [At_finish]"
  shows "receiving_step\<^sup>*\<^sup>* (start_receiving_thread s) (s\<lparr>thread_on := False, pcs := [Ended, Ended]\<rparr>)"
proof -
  let ?s0 = "start_receiving_thread s"
  let ?s1 = "s\<lparr>thread_on := True, pcs := [At_finish, At_head]\<rparr>"
  let ?s2 = "s\<lparr>thread_on := False, pcs := [Ended, At_head]\<rparr>"
  let ?s3 = "s\<lparr>thread_on := False, pcs := [Ended, At_finish]\<rparr>"
  have "receiving_step ?s0 ?s1" using assms receiving_begins [of 1 ?s0] by (simp add: start_receiving_thread_def)
  moreover have "receiving_step ?s1 ?s2" using receiving_ends [of 0 ?s1] by simp
  moreover have "receiving_step ?s2 ?s3" using receiving_leaves [of 1 ?s2] by simp
  moreover have "receiving_step ?s3 (s\<lparr>thread_on := False, pcs := [Ended, Ended]\<rparr>)" using receiving_ends [of 1 ?s3] by simp
  ultimately show ?thesis by (meson converse_rtranclp_into_rtranclp rtranclp.rtrancl_refl)
qed

section \<open>Property\<close>

lemma all_left_bound: "all_left s \<le> 3 * length (pcs s)"
proof -
  have "steps_left p \<le> 3" for p by (cases p) simp_all
  then have "sum_list (map steps_left xs) \<le> 3 * length xs" for xs
  proof (induction xs)
    case (Cons x xs)
    then show ?case using Cons.prems [of x] by fastforce
  qed simp
  then show ?thesis by (simp add: all_left_def)
qed



end
