(* ===== verification/SdpService.thy ===== *)
theory SdpService
  imports StreamSocket ServiceUuid
begin

text \<open>
  The Bluetooth socket's service (linux/device/inc/RfcommServerSocket.h and src/RfcommServerSocket.cpp): its construction and the
  registration with the SDP library. The library is outside; the model keeps the calls that are made, with the
  variables of the code as the names of what they return, and its two answers are arguments.
\<close>

section \<open>Construction and thresholds\<close>

definition BT_THROTTLING_BANDWIDTH_THRESHOLD_NORMAL :: i32 where "BT_THROTTLING_BANDWIDTH_THRESHOLD_NORMAL = 75000"
definition BT_THROTTLING_BANDWIDTH_THRESHOLD_SWITCH :: i32 where "BT_THROTTLING_BANDWIDTH_THRESHOLD_SWITCH = 25000"

text \<open>The identifier is unset (\<open>None\<close>) when its text does not have the length of one. The session pointer is not set here.\<close>

record rfcomm_service =
  mThrottlingBandwidthThreshold :: i32
  mServiceUUID :: "u8 list option"
  mRfcommPort :: i32

definition rfcomm_ctor :: "string \<Rightarrow> fault + rfcomm_service" where
  "rfcomm_ctor service_uuid =
     and_then (str2uuid (take 99 service_uuid)) (\<lambda>uuid.
     Inr \<lparr>mThrottlingBandwidthThreshold = BT_THROTTLING_BANDWIDTH_THRESHOLD_NORMAL, mServiceUUID = uuid, mRfcommPort = - 1\<rparr>)"

definition set_throttling_bandwidth_threshold :: "i32 \<Rightarrow> rfcomm_service \<Rightarrow> rfcomm_service" where
  "set_throttling_bandwidth_threshold new_threshold s = s\<lparr>mThrottlingBandwidthThreshold := new_threshold\<rparr>"

definition set_threshold_normal :: "rfcomm_service \<Rightarrow> rfcomm_service" where
  "set_threshold_normal = set_throttling_bandwidth_threshold BT_THROTTLING_BANDWIDTH_THRESHOLD_NORMAL"

definition set_threshold_switch :: "rfcomm_service \<Rightarrow> rfcomm_service" where
  "set_threshold_switch = set_throttling_bandwidth_threshold BT_THROTTLING_BANDWIDTH_THRESHOLD_SWITCH"

section \<open>Registration\<close>

datatype sdp_list = l2cap_list | rfcomm_list | root_list | proto_list | access_proto_list

datatype sdp_item = root_uuid | l2cap_uuid | rfcomm_uuid | channel | List_item sdp_list

text \<open>
  \<open>List_new l x\<close> is \<open>l = sdp_list_append(0, x)\<close>, \<open>List_append l x\<close> appends to a list that exists. The
  name, description and provider are passed as \<open>Unset_text\<close>: arrays that nobody has written.
\<close>

datatype sdp_text = Unset_text

datatype sdp_call =
    Record_alloc
  | Set_service_id "u8 list option"
  | Uuid16_create sdp_item string
  | List_new sdp_list sdp_item
  | List_append sdp_list sdp_item
  | Set_browse_groups sdp_list
  | Data_alloc sdp_item u8
  | Set_access_protos sdp_list
  | Set_info_attr sdp_text sdp_text sdp_text
  | Connect
  | Record_register
  | Data_free sdp_item
  | List_free sdp_list
  | Record_free

definition prepare_record :: "rfcomm_service \<Rightarrow> sdp_call list" where
  "prepare_record s =
     [Record_alloc, Set_service_id (mServiceUUID s),
      Uuid16_create root_uuid ''PUBLIC_BROWSE_GROUP'', List_new root_list root_uuid, Set_browse_groups root_list,
      Uuid16_create l2cap_uuid ''L2CAP_UUID'', List_new l2cap_list l2cap_uuid, List_new proto_list (List_item l2cap_list),
      Uuid16_create rfcomm_uuid ''RFCOMM_UUID'', Data_alloc channel (ucast (mRfcommPort s)), List_new rfcomm_list rfcomm_uuid,
      List_append rfcomm_list channel, List_append proto_list (List_item rfcomm_list),
      List_new access_proto_list (List_item proto_list), Set_access_protos access_proto_list,
      Set_info_attr Unset_text Unset_text Unset_text]"

text \<open>What is freed at the end, on success and on failure.\<close>

definition free_record :: "sdp_call list" where
  "free_record = [Data_free channel, List_free l2cap_list, List_free rfcomm_list, List_free root_list,
     List_free access_proto_list, Record_free]"

text \<open>
  The result, whether there is a session now, and the calls. \<open>reached\<close> says whether the server could be reached, \<open>registered\<close> what
  it answered.
\<close>

definition bt_register_service :: "bool \<Rightarrow> i32 \<Rightarrow> rfcomm_service \<Rightarrow> i32 \<times> bool \<times> sdp_call list" where
  "bt_register_service reached registered s =
     (if \<not> reached then (- 1, False, prepare_record s @ [Connect] @ free_record)
      else (registered, True, prepare_record s @ [Connect, Record_register] @ free_record))"

section \<open>Sessions\<close>

text \<open>The sessions with the server that are open, and the one the socket knows of; \<open>fresh\<close> is the next.\<close>

record sdp_sessions =
  mSdpSession :: "nat option"
  open_sessions :: "nat set"

definition register_session :: "bool \<Rightarrow> nat \<Rightarrow> sdp_sessions \<Rightarrow> sdp_sessions" where
  "register_session reached fresh t =
     (if reached then t\<lparr>mSdpSession := Some fresh, open_sessions := insert fresh (open_sessions t)\<rparr>
      else t\<lparr>mSdpSession := None\<rparr>)"

definition close_session :: "sdp_sessions \<Rightarrow> sdp_sessions" where
  "close_session t =
     t\<lparr>mSdpSession := None, open_sessions := open_sessions t - set_option (mSdpSession t)\<rparr>"

text \<open>
  Opening the socket with the service: the result of \<open>rfcomm_open_impl\<close>, and the sessions, which change when the channel could be bound.
\<close>

definition open_with_service ::
    "bool \<Rightarrow> (int \<Rightarrow> int \<times> bool) \<Rightarrow> bool \<Rightarrow> i32 \<Rightarrow> nat \<Rightarrow> rfcomm_service \<Rightarrow> socket_calls \<Rightarrow> socket_fds \<Rightarrow> counter \<Rightarrow> sdp_sessions
     \<Rightarrow> fault + (bool \<times> bool \<times> socket_fds \<times> counter) \<times> sdp_sessions" where
  "open_with_service is_send_request bind_call reached registered fresh sv c s speed t =
     (let port = bt_dynamic_bind_rc bind_call;
          sv1 = sv\<lparr>mRfcommPort := word_of_int port\<rparr>;
          res = sint (fst (bt_register_service reached registered sv1));
          t1 = (if socket_res c < 0 \<or> port < 1 \<or> port > 30 then t else register_session reached fresh t)
      in and_then (rfcomm_open_impl is_send_request bind_call res c s speed) (\<lambda>r. Inr (r, t1)))"

section \<open>What is left behind\<close>

text \<open>The lists that were made and not freed.\<close>

definition lists_left :: "sdp_call list \<Rightarrow> sdp_list set" where
  "lists_left cs = {l. (\<exists>x. List_new l x \<in> set cs) \<and> List_free l \<notin> set cs}"

text \<open>The nodes of the protocol list are never freed, whatever the server answers; every other list is.\<close>

lemma protocol_list_leaks: "lists_left (snd (snd (bt_register_service reached registered s))) = {proto_list}"
proof -
  have "l \<in> lists_left (snd (snd (bt_register_service reached registered s))) \<longleftrightarrow> l = proto_list" for l
    by (cases l) (auto simp: lists_left_def bt_register_service_def prepare_record_def free_record_def)
  then show ?thesis by blast
qed

text \<open>Everything a set-up call refers to was made before it.\<close>

fun refers_to :: "sdp_call \<Rightarrow> sdp_list list" where
  "refers_to (List_append l x) = l # (case x of List_item k \<Rightarrow> [k] | _ \<Rightarrow> [])"
| "refers_to (List_new l x) = (case x of List_item k \<Rightarrow> [k] | _ \<Rightarrow> [])"
| "refers_to (Set_browse_groups l) = [l]"
| "refers_to (Set_access_protos l) = [l]"
| "refers_to (List_free l) = [l]"
| "refers_to _ = []"

fun well_ordered :: "sdp_list set \<Rightarrow> sdp_call list \<Rightarrow> bool" where
  "well_ordered ls [] = True"
| "well_ordered ls (c # cs) = (set (refers_to c) \<subseteq> ls \<and>
     well_ordered (case c of List_new l x \<Rightarrow> insert l ls | List_free l \<Rightarrow> ls - {l} | _ \<Rightarrow> ls) cs)"

lemma calls_well_ordered: "well_ordered {} (snd (snd (bt_register_service reached registered s)))"
  by (auto simp: bt_register_service_def prepare_record_def free_record_def)

text \<open>
  A socket that fails to open behind the registration is not closed, and its next registration forgets the session:
  it stays open when the socket is closed at last.
\<close>

lemma failed_accept_leaks_session:
  assumes "0 < a" "bind_call 1 = (0, False)" "mServerSocketFd s = 0" "fresh \<noteq> fresh'"
    and "accepts c = [(- 1, False)]" "0 \<le> listen_res c" "socket_res c = a" "accepts c' = [(b, False)]" "0 \<le> b"
      "0 \<le> listen_res c'" "socket_res c' = a"
  shows "\<exists>s1 t1 s2 t2.
    open_with_service rq bind_call True 0 fresh sv c s speed \<lparr>mSdpSession = None, open_sessions = {}\<rparr> = Inr ((False, rq, s1, speed), t1)
    \<and> open_with_service rq bind_call True 0 fresh' sv c' s1 speed t1 = Inr ((True, rq, s2, fst (start_measure_speed speed)), t2)
    \<and> open_sessions (close_session t2) = {fresh}"
proof -
  have p: "bt_dynamic_bind_rc bind_call = 1"
    using assms(2) by (simp add: bt_dynamic_bind_rc_def bind_from.simps [of _ 1])
  have r: "fst (bt_register_service True 0 sv') = 0" for sv' by (simp add: bt_register_service_def)
  show ?thesis
    using assms by (simp add: open_with_service_def rfcomm_open_impl_def Let_def p r set_server_fd_def set_client_fd_def close_fd_def
        register_session_def close_session_def)
qed

end
