(* ===== verification/Spec2Isabelle.thy ===== *)
theory Spec2Isabelle
  imports AdapterThreads HistoryDecision StreamSocket ServiceUuid WfdServer Runner AsyncReader PolicyLog CsvNumbers ControlThreads SdpService
begin

text \<open>
  A model of the Linux library of Virtual Connection (src/linux), which lets an application send over several
  network adapters (Bluetooth, Wi-Fi Direct) as if they were one connection and switches between them.

  \<^bold>\<open>The program.\<close> An application calls the API (core/src/API.cpp), which starts and stops the core
  (core/src/Core.cpp). \<open>Core::send\<close> turns a buffer into a packet (\<open>ProtocolManager\<close>), the packet into numbered segments
  (\<open>SegmentManager\<close>), and puts them on a queue for control or data. Each active adapter (\<open>ServerAdapter\<close>) has a
  sender thread that takes segments from the queues and a receiver thread that puts what arrives into the receive
  queues, where \<open>SegmentQueue\<close> restores the order; \<open>Core::receive\<close> puts the packet together. The adapters exchange
  control messages (\<open>ControlMessageSender\<close>, \<open>ControlMessageReceiver\<close>). A monitor thread (\<open>NetworkMonitorThread\<close>) samples
  statistics, asks a policy (policy/), and starts a switch to a neighbouring adapter, which \<open>NetworkSwitcher\<close> carries
  out in steps linked by callbacks. The history-based policy predicts traffic from a CSV table and compares energies.

  \<^bold>\<open>Theories.\<close> Every theory opens with what it holds; the order is bottom up.
  \<^item> \<open>Prelude\<close>: machine words, faults and fallible steps (\<open>and_then\<close>, \<open>fold_ok\<close>), byte copies, network byte order.
    \<open>Float32\<close>: \<open>float\<close> and \<open>double\<close> as rationals with the rounding of IEEE 754. \<open>TextNumbers\<close>: \<open>to_string\<close>, \<open>stoi\<close>, \<open>stoul\<close>, \<open>getline\<close>.
  \<^item> \<open>Counter\<close> (common/src/Counter.cpp), \<open>Segment\<close>, \<open>SegmentQueue\<close> (core/inc), \<open>Protocol\<close>, \<open>SegmentManager\<close> (core/src): the
    data path. The segment manager works on an explicit heap of segments, because its errors are errors of aliasing;
    \<open>SegmentOwnership\<close> is the invariant of that heap, \<open>Delivery\<close> the refinement to queues of segments and the
    cutting and joining of packets, \<open>Transport\<close> the way through \<open>Core::send\<close> and \<open>Core::receive\<close>.
  \<^item> \<open>NetDevice\<close> (\<open>Device\<close>, \<open>P2PServer\<close>, \<open>ServerSocket\<close>), \<open>ServerAdapter\<close> with \<open>AdapterContract\<close>, \<open>AdapterThreads\<close> (the two threads
    as step relations over program points): the adapters.
  \<^item> \<open>StreamSocket\<close> (TCP and RFCOMM sockets), \<open>ServiceUuid\<close> and \<open>SdpService\<close> (the Bluetooth service), \<open>Commands\<close> (child processes, \<open>wpa_cli\<close>, \<open>rfkill\<close>) and \<open>WfdServer\<close> (the
    Wi-Fi Direct group and its DHCP server): the plugins in device/src. System calls and processes are scripts of answers; the
    programs started and the descriptors and processes left open are part of the state.
  \<^item> \<open>ControlMessage\<close>, \<open>Switcher\<close> with \<open>SwitcherContract\<close>, \<open>CoreControl\<close> (start, stop, API, statistics): control. The adapters,
    the switcher and the core share the record \<open>world\<close>; an adapter operation returns the callbacks it made, which
    are run in their order.
  \<^item> \<open>Policies\<close>, \<open>NetworkMonitor\<close>: the five policies without history, and one pass of the monitor over any policy; \<open>PolicyLog\<close>: the log of events and decisions;
    \<open>SwitchRuns\<close>: whole runs of the monitor refine a machine that knows the policy's state and the active index.
  \<^item> \<open>LineReader\<close>, \<open>AsyncReader\<close> (the thread that reads ahead), \<open>CsvReader\<close>, \<open>CsvErrors\<close> (its exceptions and their texts),
    \<open>CsvNumbers\<close> (its other kinds of columns; all common/inc/csv.h), \<open>TrafficHistory\<close>, \<open>EnergyPredictor\<close> with \<open>EnergyBounds\<close>, \<open>HistoryBased\<close> with
    \<open>HistoryDecision\<close> (policy/src): the history-based policy from its file to its decision.
  \<^item> \<open>Reconnect\<close> (the reconnection of a failed adapter), \<open>ControlTyping\<close> (every operation of the control side as a step, and the
    typing of its indices), \<open>ControlThreads\<close> (how the threads of the control side start and stop), \<open>MonitorLog\<close> (the rows of the monitor log, the event log, the latencies of a switch).
  \<^item> \<open>Workload\<close> (the driver of exp/TraceRunner.cpp that plays a packet and an event trace), \<open>Runner\<close> (the two adapter plugins and the
    experiment programs around the driver).

  \<^bold>\<open>Conventions.\<close> Definitions have the names of the functions, fields and constants they model. Unsigned integers and
  \<open>int\<close> are words (an \<open>int\<close> is read with \<open>sint\<close>, overflow wraps). What stops the program or has no defined
  behaviour is a \<open>fault\<close>. What the plugins of an adapter answer, what \<open>send\<close>, \<open>recv\<close> and \<open>errno\<close> give, the time of day and the
  contents of memory nobody has written are arguments. Logging has no effect on the state and is left out.

  \<^bold>\<open>Interfaces.\<close> Contracts are locales, interpreted on the model: \<open>reassembly\<close> (a queue that restores the order of a stream),
  \<open>codec\<close> (messages that survive the transport), \<open>switchable\<close> (the state machines of device, P2P server and socket),
  \<open>std_map\<close> (find, insert, change through a pointer), \<open>stoppable\<close> (threads that end when they are told) and \<open>selection_policy\<close> (a policy asks only for what is possible), which
  each of the six policies meets and under which the monitor carries out what a policy asks for.

  \<^bold>\<open>What is shown.\<close> Packets are delivered unchanged, once and in order, however segments overtake each other, up
  to the length at which the 16-bit offset overflows; no interleaving of the segment operations loses, duplicates or
  reuses a segment, except retransmission; the sender loses nothing whatever the adapter answers. Connecting is
  all or nothing, disconnecting is described stage by stage, every state change is announced and legal, a switch is made
  before it is broken; a switch from a sleeping adapter and a disconnection by the peer stop the program. Starting
  either succeeds or hangs, stopping never succeeds. The buffered reader returns the lines of the file wherever the
  blocks cut them, with and without the thread that reads ahead, the CSV reader inverts a CSV writer, fails exactly where the code throws
  and with the exception that names the missing column or the line of another length; integer columns are exact or left to the overflow policy; the table holds what the file says. The bandwidth prediction ends and
  loses no byte; the energy is valid for every forecast of at least 12 seconds. The policies' filters are equal to counts
  of decisions in a row. From an event of the user, or from the history, a switch follows;
  over any run of checks and events, from the start of an experiment on, exactly one adapter is active, all others stand by, and the active index moves as the policy says. On a byte stream the buffers
  keep their bounds however the kernels cut it, unless a send fails in the middle; the DHCP server is watched; the group is announced with the
  fields of the status. No history of registrations, starts, stops, switches, peer commands and reconnections brings
  an index out of range, except the peer's commands that take an id for an index; a reconnection outside a switch stops the program.
  An experiment plays its two traces merged by time, its packets arrive, and then it never ends.

  \<^bold>\<open>Bounds and fuel.\<close> \<open>recv_loop\<close> (the segments of a packet) and \<open>speed_window\<close> (the ring of samples) take fuel: as many
  rounds as there are segments in the queue, and one round of the ring, which the theorems show to be enough. \<open>extra_slots\<close>,
  \<open>csv_rows\<close> and \<open>workload_loop\<close> are \<open>partial_function (option)\<close>, and the theorems show that they return. \<open>read_lines\<close> calls \<open>next_line\<close> a given number
  of times. The block length of the line reader is an argument; the code's is \<open>2 ^ 24\<close>.

  \<^bold>\<open>Not modelled.\<close> What the SDP library does with the calls it gets; the
  scheduling of signals other than between two steps of the Wi-Fi Direct server; the debug log; the text of the monitor's rows but
  for the time, which has no defined value because the format does not fit the arguments; of csv.h the columns of floating-point numbers and the
  source over an \<open>istream\<close>, which no program here uses; the test programs, which drive the same
  API, the Ethernet adapter, which does not implement the hooks and cannot be constructed, and the Android client.
\<close>

section \<open>From an event to a switch\<close>

lemma one_above:
  assumes "mActiveAdapterIndex W = int p" "Suc p < length (mAdapters W)"
  shows "0 \<le> mActiveAdapterIndex W" "mActiveAdapterIndex W < int (length (mAdapters W))" "is_increaseable W"
  using assms by (simp_all add: is_increaseable_def get_adapter_count_def)

lemma manual_wfd: "manual_decide now st True d (manual_event ''wfd'' s) = Inr (kIncreaseAdapter, manual_event ''wfd'' s)"
  by (simp add: manual_decide_def manual_behavior_def manual_event_def)

lemma manual_wfd_rests:
  "manual_decide now st False d (manual_event ''wfd'' s) = Inr (kNoBehavior, manual_event ''wfd'' s)"
  by (simp add: manual_decide_def manual_behavior_def manual_event_def)

text \<open>
  C4: a command of the user becomes a switch. The event "wfd" makes the next check of the monitor
  connect the adapter above the active one, put the active one to sleep and take it down, and make the new one
  the active one; when that is the last adapter, every later check leaves everything as it is.
\<close>

theorem manual_command_switches:
  assumes "switch_tx W = None" "mActiveAdapterIndex W = int p" "Suc p < length (mAdapters W)"
    and "active_adapter (mAdapters W ! p)" "idle_adapter (mAdapters W ! Suc p)"
    and "falls_asleep wp" "sender_loop_ends wp" "receiver_loop_ends wp"
    and "turn_on_ok wn" "allow_ok wn" "open_ok wn" "close_ok wp" "disallow_ok wp" "turn_off_ok wp"
  shows "\<exists>W' an ap. check_and_decide_switching manual_decide hook now st wn wp (Some (manual_event ''wfd'' s)) W
      = Inr (Some (manual_event ''wfd'' s), W')
    \<and> mAdapters W' = (mAdapters W)[Suc p := an, p := ap] \<and> mActiveAdapterIndex W' = int (Suc p) \<and> mNSState W' = kNSStateReady
    \<and> mState an = kActive \<and> all_up an \<and> mState ap = kDisconnected \<and> all_down ap
    \<and> (length (mAdapters W) = Suc (Suc p) \<longrightarrow>
        (\<forall>later st'. check_and_decide_switching manual_decide hook later st' wn wp (Some (manual_event ''wfd'' s)) W'
          = Inr (Some (manual_event ''wfd'' s), W')))"
proof -
  note up = one_above [OF assms(2,3)]
  have p: "p < length (mAdapters W)" using assms(3) by simp
  from switch_outcome [OF assms(1,3,5) p assms(4,6-8), of wn] assms(9-14) obtain W' an ap where
    W': "switch_adapters (int p) (int (Suc p)) wn wp W = Inr (True, W')" "mNSState W' = kNSStateReady"
      "mAdapters W' = (mAdapters W)[Suc p := an, p := ap]" "mState an = kActive" "all_up an"
      "mState ap = kDisconnected" "all_down ap" "mActiveAdapterIndex W' = int (Suc p)" by auto
  have "get_adapter_count W \<noteq> 0" by (rule directions(3) [OF up(1,2)])
  then have "increase_adapter wn wp W = Inr (True, W')"
    using W'(1) up(3) assms(2) by (simp add: increase_adapter_def ac_simps)
  then have first: "check_and_decide_switching manual_decide hook now st wn wp (Some (manual_event ''wfd'' s)) W
      = Inr (Some (manual_event ''wfd'' s), W')"
    using up(3) by (simp add: check_and_decide_switching_def manual_wfd Let_def)
  have "\<not> is_increaseable W'" if "length (mAdapters W) = Suc (Suc p)"
    using that W'(3,8) by (simp add: is_increaseable_def get_adapter_count_def)
  then have "length (mAdapters W) = Suc (Suc p) \<longrightarrow>
      (\<forall>later st'. check_and_decide_switching manual_decide hook later st' wn wp (Some (manual_event ''wfd'' s)) W'
        = Inr (Some (manual_event ''wfd'' s), W'))"
    by (simp add: check_and_decide_switching_def manual_wfd_rests Let_def)
  with first W' show ?thesis by blast
qed

theorem manual_command_switches_witness:
  "\<forall>st. \<exists>W'. check_and_decide_switching manual_decide (\<lambda>_ _ a. a) (0, 0) st all_fine all_fine
      (Some (manual_event ''wfd'' manual_ctor)) (example_world [active_example 1, idle_example 2])
    = Inr (Some (manual_event ''wfd'' manual_ctor), W') \<and> mActiveAdapterIndex W' = 1"
proof
  fix st :: stats
  let ?W = "example_world [active_example 1, idle_example 2]"
  have W: "switch_tx ?W = None" "mActiveAdapterIndex ?W = int 0" "Suc 0 < length (mAdapters ?W)"
    "active_adapter (mAdapters ?W ! 0)" "idle_adapter (mAdapters ?W ! Suc 0)"
    using example_adapters by (simp_all add: example_world_def)
  have "falls_asleep all_fine" "sender_loop_ends all_fine" "receiver_loop_ends all_fine" "turn_on_ok all_fine"
    "allow_ok all_fine" "open_ok all_fine" "close_ok all_fine" "disallow_ok all_fine" "turn_off_ok all_fine"
    by (simp_all add: all_fine_def)
  note manual_command_switches [OF W this(1-9), of "\<lambda>_ _ a. a" "(0, 0)" st manual_ctor]
  then show "\<exists>W'. check_and_decide_switching manual_decide (\<lambda>_ _ a. a) (0, 0) st all_fine all_fine
      (Some (manual_event ''wfd'' manual_ctor)) ?W
    = Inr (Some (manual_event ''wfd'' manual_ctor), W') \<and> mActiveAdapterIndex W' = 1" by auto
qed


section \<open>From the history to a switch\<close>

text \<open>
  C14: what the history-based policy asks for can be done, and is what the monitor does: a decision for a
  switch makes the check switch from the active adapter to a neighbour that exists, and with a
  single adapter there is no such decision. The monitor's own test of the bounds never refuses it.
\<close>

theorem history_request_reaches_switcher:
  assumes "0 \<le> mActiveAdapterIndex W" "mActiveAdapterIndex W < int (length (mAdapters W))"
    and "history_decide ov now st (is_increaseable W) (is_decreaseable W) s = Inr (b, s')" "b \<noteq> kNoBehavior"
  shows "1 < length (mAdapters W) \<and>
    (\<exists>k. 0 \<le> k \<and> k < int (length (mAdapters W)) \<and> \<bar>k - mActiveAdapterIndex W\<bar> = 1
      \<and> check_and_decide_switching (history_decide ov) hook now st wn wp (Some s) W
        = and_then (switch_adapters (mActiveAdapterIndex W) k wn wp W) (\<lambda>(res, W1). Inr (Some s', W1)))"
proof -
  have "is_increaseable W \<or> is_decreaseable W"
    using history_based.alone assms(3,4) by metis
  then have "1 < length (mAdapters W)" by (auto simp: is_increaseable_def is_decreaseable_def get_adapter_count_def)
  with history_based.request_reaches_switcher [OF assms] show ?thesis by blast
qed

theorem history_request_reaches_switcher_witness:
  "\<exists>s'. check_and_decide_switching (history_decide Abs_float) (\<lambda>_ _ a. a) (1, 1) example_stats all_fine all_fine
      (Some (example_history\<lparr>mSerialIncCount := 3, mRequestSpeedIncCount := 12\<rparr>)) (example_world [active_example 1, idle_example 2])
    = and_then (switch_adapters 0 1 all_fine all_fine (example_world [active_example 1, idle_example 2]))
        (\<lambda>(res, W1). Inr (Some s', W1))"
proof -
  let ?W = "example_world [active_example 1, idle_example 2]"
  let ?s = "example_history\<lparr>mSerialIncCount := 3, mRequestSpeedIncCount := 12\<rparr>"
  have ix: "mActiveAdapterIndex ?W = 0" "length (mAdapters ?W) = 2" by (simp_all add: example_world_def)
  have dir: "is_increaseable ?W" "\<not> is_decreaseable ?W"
    by (simp_all add: is_increaseable_def is_decreaseable_def get_adapter_count_def ix)
  have "congested_state 3 ?s" using example_congested by (simp add: congested_state_def)
  from congested_switch [OF this] obtain s' where
    "history_decide Abs_float (1, 1) example_stats True False ?s = Inr (kIncreaseAdapter, s')" by blast
  then have d: "history_decide Abs_float (1, 1) example_stats (is_increaseable ?W) (is_decreaseable ?W) ?s = Inr (kIncreaseAdapter, s')"
    using dir by simp
  have "0 \<le> mActiveAdapterIndex ?W" "mActiveAdapterIndex ?W < int (length (mAdapters ?W))" by (simp_all add: ix)
  from history_request_reaches_switcher [OF this d, of "\<lambda>_ _ a. a" all_fine all_fine] obtain k where
    k: "0 \<le> k" "\<bar>k\<bar> = 1" "check_and_decide_switching (history_decide Abs_float) (\<lambda>_ _ a. a) (1, 1) example_stats all_fine all_fine
      (Some ?s) ?W = and_then (switch_adapters 0 k all_fine all_fine ?W) (\<lambda>(res, W1). Inr (Some s', W1))"
    unfolding ix by auto
  have "k = 1" using k(1,2) by simp
  with k(3) show ?thesis by blast
qed

section \<open>The traffic of an experiment\<close>

lemma alive_lengths: "im_alive_thread n = Inr pings \<Longrightarrow> \<forall>x\<in>set (sent_buffers pings). length x \<le> 66042"
proof (induction n arbitrary: pings)
  case (Suc n)
  then show ?case
    by (fastforce simp: im_alive_thread_def generate_simple_string_def ALIVE_PACKET_LENGTH_def)
qed (simp add: im_alive_thread_def generate_simple_string_def ALIVE_PACKET_LENGTH_def)

lemma payload_length: "0 < sint n \<Longrightarrow> length (payload n) = nat (sint n)"
  by (simp add: payload_def)

lemma in_order_lengths:
  "in_order t as \<Longrightarrow> \<forall>p\<in>set (packets_of as). 0 < sint (snd p)"
  by (induction as arbitrary: t rule: packets_of.induct) fastforce+

lemma shuffled_lengths:
  assumes "xs \<in> shuffles as bs" "\<forall>x\<in>set as. length x \<le> m" "\<forall>x\<in>set bs. length x \<le> m"
  shows "\<forall>x\<in>set xs. length x \<le> m"
  using assms by (auto simp: set_shuffles)



section \<open>The switches of an experiment\<close>



end
